(* ===== verification/Prelude.thy ===== *)
theory Prelude
  imports Main "HOL-Library.Word" "HOL-Library.Code_Target_Nat"
begin

text \<open>
  Shared material of the development.

  \<^item> The integers of the runtime: \<open>u32\<close>, \<open>u64\<close> and \<open>u128\<close> values are natural numbers, with the
    width written out in the operations that the Rust code uses on them (\<open>checked_add\<close>,
    \<open>checked_sub\<close>, \<open>saturating_add\<close>, \<open>saturating_sub\<close>).  The lemma \<open>sat_add_word_refines\<close> relates
    saturating addition to the same operation on machine words of any width.
  \<^item> A state and exception monad for code that reads and writes storage and returns a
    \<open>Result\<close>.  An error keeps the storage writes made before it, as a Rust function that returns
    \<open>Err\<close> does; \<open>transactional\<close> is the storage layer that \<open>#[pallet::call]\<close> puts around a
    dispatchable and that rolls those writes back.
  \<^item> Sums over finite maps, used for the supply of tokens.
\<close>

section \<open>Bounded arithmetic\<close>

definition u32_max :: nat where
  "u32_max = 2 ^ 32 - 1"

definition u64_max :: nat where
  "u64_max = 2 ^ 64 - 1"

definition u128_max :: nat where
  "u128_max = 2 ^ 128 - 1"

definition sat_add :: "nat \<Rightarrow> nat \<Rightarrow> nat \<Rightarrow> nat" where
  "sat_add mx a b = min mx (a + b)"

definition sat_mul :: "nat \<Rightarrow> nat \<Rightarrow> nat \<Rightarrow> nat" where
  "sat_mul mx a b = min mx (a * b)"

definition checked_add :: "nat \<Rightarrow> nat \<Rightarrow> nat \<Rightarrow> nat option" where
  "checked_add mx a b = (if a + b \<le> mx then Some (a + b) else None)"

definition checked_sub :: "nat \<Rightarrow> nat \<Rightarrow> nat option" where
  "checked_sub a b = (if b \<le> a then Some (a - b) else None)"

definition checked_mul :: "nat \<Rightarrow> nat \<Rightarrow> nat \<Rightarrow> nat option" where
  "checked_mul mx a b = (if a * b \<le> mx then Some (a * b) else None)"

text \<open>\<open>saturating_sub\<close> of an unsigned type is the truncating subtraction of \<^typ>\<open>nat\<close>.\<close>

lemma sat_add_exact [simp]: "a + b \<le> mx \<Longrightarrow> sat_add mx a b = a + b"
  by (simp add: sat_add_def)

lemma sat_add_le [simp]: "sat_add mx a b \<le> mx"
  by (simp add: sat_add_def)

lemma sat_add_le_sum: "sat_add mx a b \<le> a + b"
  by (simp add: sat_add_def)

lemma sat_add_0 [simp]: "a \<le> mx \<Longrightarrow> sat_add mx a 0 = a"
  by (simp add: sat_add_def)

lemma checked_add_Some [simp]: "checked_add mx a b = Some c \<longleftrightarrow> c = a + b \<and> a + b \<le> mx"
  by (auto simp: checked_add_def)

lemma checked_add_None [simp]: "checked_add mx a b = None \<longleftrightarrow> mx < a + b"
  by (auto simp: checked_add_def)

lemma checked_mul_Some [simp]: "checked_mul mx a b = Some c \<longleftrightarrow> c = a * b \<and> a * b \<le> mx"
  by (auto simp: checked_mul_def)

lemma checked_mul_None [simp]: "checked_mul mx a b = None \<longleftrightarrow> mx < a * b"
  by (auto simp: checked_mul_def)

lemma checked_sub_Some [simp]: "checked_sub a b = Some c \<longleftrightarrow> b \<le> a \<and> c = a - b"
  by (auto simp: checked_sub_def)

lemma checked_sub_None [simp]: "checked_sub a b = None \<longleftrightarrow> a < b"
  by (auto simp: checked_sub_def)

text \<open>The operations agree with those on machine words of the same width.\<close>

definition word_max :: "'w::len itself \<Rightarrow> nat" where
  "word_max _ = 2 ^ LENGTH('w) - 1"

definition sat_add_word :: "'w::len word \<Rightarrow> 'w word \<Rightarrow> 'w word" where
  "sat_add_word a b = (if a \<le> a + b then a + b else - 1)"

lemma unat_plus_no_wrap_iff:
  fixes a b :: "'w::len word"
  shows "a \<le> a + b \<longleftrightarrow> unat a + unat b < 2 ^ LENGTH('w)"
  by (simp add: no_olen_add_nat)

lemma unat_minus_one_max: "unat (- 1 :: 'w::len word) = 2 ^ LENGTH('w) - 1"
  by (simp add: unsigned_minus_1_eq_mask mask_eq_exp_minus_1)

lemma sat_add_word_refines:
  fixes a b :: "'w::len word"
  shows "unat (sat_add_word a b) = sat_add (word_max TYPE('w)) (unat a) (unat b)"
proof (cases "unat a + unat b < 2 ^ LENGTH('w)")
  case True
  then have "a \<le> a + b" by (simp add: unat_plus_no_wrap_iff)
  moreover have "unat (a + b) = unat a + unat b"
    using True by (simp add: unat_word_ariths)
  ultimately show ?thesis
    using True by (simp add: sat_add_word_def sat_add_def word_max_def)
next
  case False
  then have "\<not> a \<le> a + b" by (simp add: unat_plus_no_wrap_iff)
  moreover have "2 ^ LENGTH('w) - 1 \<le> unat a + unat b" using False by linarith
  ultimately show ?thesis
    by (simp only: sat_add_word_def sat_add_def word_max_def unat_minus_one_max min_absorb1 if_False)
qed

section \<open>Storage and errors\<close>

type_synonym ('s, 'e, 'a) em = "'s \<Rightarrow> ('e + 'a) \<times> 's"

definition eret :: "'a \<Rightarrow> ('s, 'e, 'a) em" where
  "eret x s = (Inr x, s)"

definition ethrow :: "'e \<Rightarrow> ('s, 'e, 'a) em" where
  "ethrow e s = (Inl e, s)"

definition ebind :: "('s, 'e, 'a) em \<Rightarrow> ('a \<Rightarrow> ('s, 'e, 'b) em) \<Rightarrow> ('s, 'e, 'b) em" where
  "ebind m k s = (case m s of (Inl e, s') \<Rightarrow> (Inl e, s') | (Inr x, s') \<Rightarrow> k x s')"

definition eget :: "('s \<Rightarrow> 'a) \<Rightarrow> ('s, 'e, 'a) em" where
  "eget f s = (Inr (f s), s)"

definition emod :: "('s \<Rightarrow> 's) \<Rightarrow> ('s, 'e, unit) em" where
  "emod f s = (Inr (), f s)"

definition eensure :: "bool \<Rightarrow> 'e \<Rightarrow> ('s, 'e, unit) em" where
  "eensure b e = (if b then eret () else ethrow e)"

definition eoption :: "'a option \<Rightarrow> 'e \<Rightarrow> ('s, 'e, 'a) em" where
  "eoption x e = (case x of None \<Rightarrow> ethrow e | Some y \<Rightarrow> eret y)"

text \<open>A pure computation that returns a \<open>Result\<close>, propagated with \<open>?\<close>.\<close>

definition esum :: "'e + 'a \<Rightarrow> ('s, 'e, 'a) em" where
  "esum r = (case r of Inl e \<Rightarrow> ethrow e | Inr x \<Rightarrow> eret x)"

text \<open>A call whose \<open>Result\<close> is bound to a variable and not propagated with \<open>?\<close>.\<close>

definition eresult :: "('s, 'e, 'a) em \<Rightarrow> ('s, 'f, 'e + 'a) em" where
  "eresult m s = (case m s of (r, s') \<Rightarrow> (Inr r, s'))"

text \<open>A local value whose destructor runs when a later call returns early with an error.\<close>

definition on_error :: "('s \<Rightarrow> 's) \<Rightarrow> ('s, 'e, 'a) em \<Rightarrow> ('s, 'e, 'a) em" where
  "on_error g m s = (case m s of (Inl e, s') \<Rightarrow> (Inl e, g s') | (Inr x, s') \<Rightarrow> (Inr x, s'))"

lemma on_error_id [simp]: "on_error (\<lambda>s. s) m = m"
  by (rule ext) (simp add: on_error_def split: prod.split sum.split)

text \<open>A call of a function that cannot fail and returns a value.\<close>

definition elift :: "('s \<Rightarrow> 'a \<times> 's) \<Rightarrow> ('s, 'e, 'a) em" where
  "elift f s = (case f s of (x, s') \<Rightarrow> (Inr x, s'))"

definition transactional :: "('s, 'e, 'a) em \<Rightarrow> ('s, 'e, 'a) em" where
  "transactional m s = (case m s of (Inl e, s') \<Rightarrow> (Inl e, s) | (Inr x, s') \<Rightarrow> (Inr x, s'))"

text \<open>
  A call of another pallet: it runs on the part of the state that this pallet owns, and its errors are
  embedded into those of the caller.
\<close>

definition ezoom :: "('s \<Rightarrow> 't) \<Rightarrow> ('t \<Rightarrow> 's \<Rightarrow> 's) \<Rightarrow> ('e \<Rightarrow> 'f) \<Rightarrow> ('t, 'e, 'a) em \<Rightarrow> ('s, 'f, 'a) em" where
  "ezoom g u h m s = (case m (g s) of (Inl e, t) \<Rightarrow> (Inl (h e), u t s) | (Inr x, t) \<Rightarrow> (Inr x, u t s))"

lemmas em_defs = eret_def ethrow_def ebind_def eget_def emod_def eensure_def eoption_def
  esum_def eresult_def elift_def transactional_def

lemma ebind_Inr_iff [simp]:
  "ebind m k s = (Inr y, s') \<longleftrightarrow> (\<exists>x s1. m s = (Inr x, s1) \<and> k x s1 = (Inr y, s'))"
  by (auto simp: ebind_def split: prod.splits sum.splits)

lemma ebind_Inl_iff:
  "ebind m k s = (Inl e, s') \<longleftrightarrow>
     m s = (Inl e, s') \<or> (\<exists>x s1. m s = (Inr x, s1) \<and> k x s1 = (Inl e, s'))"
  by (auto simp: ebind_def split: prod.splits sum.splits)

lemma eret_iff [simp]: "eret x s = (r, s') \<longleftrightarrow> r = Inr x \<and> s' = s"
  by (auto simp: eret_def)

lemma ethrow_iff [simp]: "ethrow e s = (r, s') \<longleftrightarrow> r = Inl e \<and> s' = s"
  by (auto simp: ethrow_def)

lemma eget_iff [simp]: "eget f s = (r, s') \<longleftrightarrow> r = Inr (f s) \<and> s' = s"
  by (auto simp: eget_def)

lemma emod_iff [simp]: "emod f s = (r, s') \<longleftrightarrow> r = Inr () \<and> s' = f s"
  by (auto simp: emod_def)

lemma eensure_iff [simp]:
  "eensure b e s = (Inr u, s') \<longleftrightarrow> b \<and> s' = s"
  "eensure b e s = (Inl f, s') \<longleftrightarrow> \<not> b \<and> f = e \<and> s' = s"
  by (auto simp: eensure_def)

lemma eoption_iff [simp]:
  "eoption x e s = (Inr y, s') \<longleftrightarrow> x = Some y \<and> s' = s"
  "eoption x e s = (Inl f, s') \<longleftrightarrow> x = None \<and> f = e \<and> s' = s"
  by (auto simp: eoption_def split: option.splits)

lemma esum_iff [simp]:
  "esum r s = (r', s') \<longleftrightarrow> r' = r \<and> s' = s"
  by (auto simp: esum_def split: sum.splits)

lemma eresult_iff [simp]:
  "eresult m s = (Inr r, s') \<longleftrightarrow> m s = (r, s')"
  "eresult m s = (Inl f, s') \<longleftrightarrow> False"
  by (auto simp: eresult_def split: prod.splits)

lemma elift_iff [simp]:
  "elift f s = (Inr x, s') \<longleftrightarrow> f s = (x, s')"
  "elift f s = (Inl e, s') \<longleftrightarrow> False"
  by (auto simp: elift_def split: prod.splits)

lemma ezoom_iff [simp]: "ezoom g u h m s = (Inr x, s') \<longleftrightarrow> (\<exists>t. m (g s) = (Inr x, t) \<and> s' = u t s)"
  by (auto simp: ezoom_def split: prod.splits sum.splits)

lemma ezoom_Inl_iff: "ezoom g u h m s = (Inl f, s') \<longleftrightarrow> (\<exists>e t. m (g s) = (Inl e, t) \<and> f = h e \<and> s' = u t s)"
  by (auto simp: ezoom_def split: prod.splits sum.splits)

lemma transactional_Inr [simp]: "transactional m s = (Inr x, s') \<longleftrightarrow> m s = (Inr x, s')"
  by (auto simp: transactional_def split: prod.splits sum.splits)

lemma transactional_Inl: "transactional m s = (Inl e, s') \<Longrightarrow> s' = s"
  by (auto simp: transactional_def split: prod.splits sum.splits)

section \<open>Sums over finite maps\<close>

definition map_sum :: "('v \<Rightarrow> nat) \<Rightarrow> ('k \<rightharpoonup> 'v) \<Rightarrow> nat" where
  "map_sum f m = (\<Sum>k \<in> dom m. f (the (m k)))"

definition opt_val :: "('v \<Rightarrow> nat) \<Rightarrow> 'v option \<Rightarrow> nat" where
  "opt_val f x = (case x of None \<Rightarrow> 0 | Some v \<Rightarrow> f v)"

lemma opt_val_simps [simp]: "opt_val f None = 0" "opt_val f (Some v) = f v"
  by (simp_all add: opt_val_def)

lemma map_sum_remove: "finite (dom m) \<Longrightarrow> map_sum f m = map_sum f (m(k := None)) + opt_val f (m k)"
  by (cases "m k")
    (auto simp: map_sum_def fun_upd_idem sum.remove [of "dom m" k] domI
      intro!: sum.cong arg_cong2 [of _ _ _ _ "(+)"])

lemma map_sum_upd:
  assumes "finite (dom m)"
  shows "map_sum f (m(k := x)) + opt_val f (m k) = map_sum f m + opt_val f x"
proof -
  have "map_sum f (m(k := x)) = map_sum f (m(k := None)) + opt_val f x"
    using map_sum_remove [of "m(k := x)" f k] assms by (simp add: finite_subset)
  with map_sum_remove [OF assms, of f k] show ?thesis by simp
qed

lemma map_sum_ge: "finite (dom m) \<Longrightarrow> opt_val f (m k) \<le> map_sum f m"
  using map_sum_remove [of m f k] by simp

lemma map_sum_ge2:
  assumes "finite (dom m)" and "k \<noteq> k'"
  shows "opt_val f (m k) + opt_val f (m k') \<le> map_sum f m"
  using map_sum_remove [OF assms(1), of f k] map_sum_ge [of "m(k := None)" f k'] assms by auto

end
