(* ===== verification/Token_Types.thy ===== *)
theory Token_Types
  imports Prelude
begin

unbundle bit_operations_syntax

text \<open>
  The data that the token components share: the errors a dispatch can return
  (\<^verbatim>\<open>substrate/primitives/runtime/src/lib.rs\<close>), the vocabulary of the \<open>fungible\<close> traits
  (\<^verbatim>\<open>substrate/frame/support/src/traits/tokens/misc.rs\<close>), imbalances
  (\<^verbatim>\<open>tokens/fungible/imbalance.rs\<close>), and the account data of the balances pallet
  (\<^verbatim>\<open>substrate/frame/balances/src/types.rs\<close>).

  Account identifiers, hold reasons, freeze identifiers, lock identifiers and named-reserve
  identifiers are only compared (the last also ordered) by the code, so they are natural numbers.
  Balances are \<open>u128\<close>.
\<close>

type_synonym account_id = nat
type_synonym balance = nat
type_synonym reason_id = nat
type_synonym lock_id = nat
type_synonym reserve_id = nat

section \<open>Errors\<close>

datatype arithmetic_error = AE_Underflow | AE_Overflow | AE_DivisionByZero

datatype (plugins only: code size) token_error =
    TE_FundsUnavailable | TE_OnlyProvider | TE_BelowMinimum | TE_CannotCreate | TE_UnknownAsset
  | TE_Frozen | TE_Unsupported | TE_CannotCreateHold | TE_NotExpendable | TE_Blocked

text \<open>\<open>pallet_balances::Error\<close>\<close>

datatype (plugins only: code size) balances_error =
    BE_VestingBalance | BE_LiquidityRestrictions | BE_InsufficientBalance | BE_ExistentialDeposit
  | BE_Expendability | BE_ExistingVestingSchedule | BE_DeadAccount | BE_TooManyReserves
  | BE_TooManyHolds | BE_TooManyFreezes | BE_IssuanceDeactivated | BE_DeltaZero

datatype (plugins only: code size) dispatch_error =
    DE_Other string | DE_CannotLookup | DE_BadOrigin | DE_Module balances_error
  | DE_ConsumerRemaining | DE_NoProviders | DE_TooManyConsumers
  | DE_Token token_error | DE_Arithmetic arithmetic_error

section \<open>Vocabulary of the fungible traits\<close>

datatype provenance = Minted | Extant
datatype restriction = RFree | OnHold
datatype preservation = Expendable | Protect | Preserve
datatype fortitude = Polite | Force
datatype precision = Exact | BestEffort
datatype existence_requirement = KeepAlive | AllowDeath
datatype balance_status = BS_Free | BS_Reserved

datatype (plugins only: code size) withdraw_consequence =
    WC_BalanceLow | WC_WouldDie | WC_UnknownAsset | WC_Underflow | WC_Overflow | WC_Frozen
  | WC_ReducedToZero balance | WC_Success

fun withdraw_into_result :: "withdraw_consequence \<Rightarrow> bool \<Rightarrow> dispatch_error + balance" where
  "withdraw_into_result WC_BalanceLow _ = Inl (DE_Token TE_FundsUnavailable)"
| "withdraw_into_result WC_WouldDie _ = Inl (DE_Token TE_OnlyProvider)"
| "withdraw_into_result WC_UnknownAsset _ = Inl (DE_Token TE_UnknownAsset)"
| "withdraw_into_result WC_Underflow _ = Inl (DE_Arithmetic AE_Underflow)"
| "withdraw_into_result WC_Overflow _ = Inl (DE_Arithmetic AE_Overflow)"
| "withdraw_into_result WC_Frozen _ = Inl (DE_Token TE_Frozen)"
| "withdraw_into_result (WC_ReducedToZero result) keep_nonzero =
     (if keep_nonzero then Inl (DE_Token TE_NotExpendable) else Inr result)"
| "withdraw_into_result WC_Success _ = Inr 0"

datatype (plugins only: code size) deposit_consequence =
    DC_BelowMinimum | DC_CannotCreate | DC_UnknownAsset | DC_Overflow | DC_Success | DC_Blocked

fun deposit_into_result :: "deposit_consequence \<Rightarrow> dispatch_error + unit" where
  "deposit_into_result DC_BelowMinimum = Inl (DE_Token TE_BelowMinimum)"
| "deposit_into_result DC_CannotCreate = Inl (DE_Token TE_CannotCreate)"
| "deposit_into_result DC_UnknownAsset = Inl (DE_Token TE_UnknownAsset)"
| "deposit_into_result DC_Overflow = Inl (DE_Arithmetic AE_Overflow)"
| "deposit_into_result DC_Blocked = Inl (DE_Token TE_Blocked)"
| "deposit_into_result DC_Success = Inr ()"

lemma deposit_into_result_Inr [simp]: "deposit_into_result c = Inr u \<longleftrightarrow> c = DC_Success"
  by (cases c) auto

lemma withdraw_into_result_Inr:
  "withdraw_into_result c k = Inr d \<longleftrightarrow> c = WC_Success \<and> d = 0 \<or> \<not> k \<and> c = WC_ReducedToZero d"
  by (cases c) auto

section \<open>Imbalances\<close>

text \<open>
  \<open>Imbalance::split\<close>, \<open>merge\<close>, \<open>offset\<close> act on the amount only; dropping a nonzero imbalance
  calls its handler, which is an operation of the pallet that owns the imbalance.
\<close>

datatype credit = Credit (credit_peek: balance)
datatype debt = Debt (debt_peek: balance)

datatype ('a, 'b) same_or_other = SO_None | SO_Same 'a | SO_Other 'b

definition imbalance_split :: "balance \<Rightarrow> balance \<Rightarrow> balance \<times> balance" where
  "imbalance_split self amount = (let first = min self amount in (first, self - first))"

definition imbalance_extract :: "balance \<Rightarrow> balance \<Rightarrow> balance \<times> balance" where
  "imbalance_extract self amount = (let new = min self amount in (new, self - new))"

definition imbalance_merge :: "balance \<Rightarrow> balance \<Rightarrow> balance" where
  "imbalance_merge self other = sat_add u128_max self other"

definition imbalance_drop_zero :: "balance \<Rightarrow> balance + unit" where
  "imbalance_drop_zero self = (if self = 0 then Inr () else Inl self)"

definition imbalance_offset :: "balance \<Rightarrow> balance \<Rightarrow> (balance, balance) same_or_other" where
  "imbalance_offset a b =
     (if a = b then SO_None else if a > b then SO_Same (a - b) else SO_Other (b - a))"

lemma imbalance_split_sum: "imbalance_split a n = (x, y) \<Longrightarrow> x + y = a \<and> x \<le> n"
  by (auto simp: imbalance_split_def Let_def)

section \<open>Account data of the balances pallet\<close>

datatype reasons = R_Fee | R_Misc | R_All

text \<open>\<open>WithdrawReasons\<close> is a \<open>u8\<close> set of flags.\<close>

type_synonym withdraw_reasons = "8 word"

definition TRANSACTION_PAYMENT :: withdraw_reasons where "TRANSACTION_PAYMENT = 1"
definition TRANSFER :: withdraw_reasons where "TRANSFER = 2"
definition RESERVE :: withdraw_reasons where "RESERVE = 4"
definition FEE :: withdraw_reasons where "FEE = 8"
definition TIP :: withdraw_reasons where "TIP = 16"

definition withdraw_reasons_all :: withdraw_reasons where
  "withdraw_reasons_all = TRANSACTION_PAYMENT OR TRANSFER OR RESERVE OR FEE OR TIP"

definition withdraw_reasons_except :: "withdraw_reasons \<Rightarrow> withdraw_reasons" where
  "withdraw_reasons_except one = withdraw_reasons_all XOR one"

definition reasons_from :: "withdraw_reasons \<Rightarrow> reasons" where
  "reasons_from r =
     (if r = TRANSACTION_PAYMENT then R_Fee
      else if r AND TRANSACTION_PAYMENT = TRANSACTION_PAYMENT then R_All
      else R_Misc)"

definition reasons_bitor :: "reasons \<Rightarrow> reasons \<Rightarrow> reasons" where
  "reasons_bitor self other = (if self = other then self else R_All)"

record balance_lock =
  lock_ident :: lock_id
  lock_amount :: balance
  lock_reasons :: reasons

record id_amount =
  ia_id :: nat
  ia_amount :: balance

type_synonym extra_flags = "128 word"

definition IS_NEW_LOGIC :: extra_flags where
  "IS_NEW_LOGIC = 0x80000000000000000000000000000000"

definition old_logic :: extra_flags where
  "old_logic = 0"

definition set_new_logic :: "extra_flags \<Rightarrow> extra_flags" where
  "set_new_logic f = f OR IS_NEW_LOGIC"

definition is_new_logic :: "extra_flags \<Rightarrow> bool" where
  "is_new_logic f \<longleftrightarrow> f AND IS_NEW_LOGIC = IS_NEW_LOGIC"

lemma is_new_logic_set [simp]: "is_new_logic (set_new_logic f)"
  unfolding is_new_logic_def set_new_logic_def
  by (metis word_ao_absorbs(5) word_bw_comms(2))

lemma is_new_logic_IS_NEW_LOGIC [simp]: "is_new_logic IS_NEW_LOGIC"
  by (simp add: is_new_logic_def)

lemma old_logic_not_new [simp]: "\<not> is_new_logic old_logic"
  by (simp add: is_new_logic_def old_logic_def IS_NEW_LOGIC_def)

record account_data =
  free :: balance
  reserved :: balance
  frozen :: balance
  flags :: extra_flags

definition account_data_default :: account_data where
  "account_data_default = \<lparr>free = 0, reserved = 0, frozen = 0, flags = IS_NEW_LOGIC\<rparr>"

definition usable :: "account_data \<Rightarrow> balance" where
  "usable a = free a - frozen a"

definition total :: "account_data \<Rightarrow> balance" where
  "total a = sat_add u128_max (free a) (reserved a)"

lemma account_data_default_sel [simp]:
  "free account_data_default = 0" "reserved account_data_default = 0"
  "frozen account_data_default = 0" "flags account_data_default = IS_NEW_LOGIC"
  by (simp_all add: account_data_default_def)

datatype adjustment_direction = Increase | Decrease

section \<open>Events\<close>

datatype unexpected_kind = BalanceUpdated | FailedToMutateAccount

text \<open>The runtime event type: the events of \<open>frame_system\<close> that accounts raise, and those of the pallet.\<close>

datatype (plugins only: code size) event =
    NewAccount account_id
  | KilledAccount account_id
  | Endowed account_id balance
  | DustLost account_id balance
  | Transfer account_id account_id balance
  | BalanceSet account_id balance
  | Reserved account_id balance
  | Unreserved account_id balance
  | ReserveRepatriated account_id account_id balance balance_status
  | Deposit account_id balance
  | Withdraw account_id balance
  | Slashed account_id balance
  | Ev_Minted account_id balance
  | MintedCredit balance
  | Burned account_id balance
  | BurnedDebt balance
  | Suspended account_id balance
  | Restored account_id balance
  | Upgraded account_id
  | Issued balance
  | Rescinded balance
  | Locked account_id balance
  | Unlocked account_id balance
  | Ev_Frozen account_id balance
  | Thawed account_id balance
  | TotalIssuanceForced balance balance
  | Held reason_id account_id balance
  | BurnedHeld reason_id account_id balance
  | TransferOnHold reason_id account_id account_id balance
  | TransferAndHold reason_id account_id account_id balance
  | Released reason_id account_id balance
  | Unexpected unexpected_kind

end
