(* ===== verification/System_Accounts.thy ===== *)
theory System_Accounts
  imports Token_Types
begin

text \<open>
  The account store of \<open>frame_system\<close> (\<^verbatim>\<open>substrate/frame/system/src/lib.rs\<close>): reference counters that
  decide when an account exists, and the \<open>StoredMap\<close> through which the balances pallet keeps its
  data inside the account record.

  The storage map \<open>Account\<close> has the \<open>ValueQuery\<close> kind: reading a missing key gives the default.
  \<open>OnNewAccount\<close> and \<open>OnKilledAccount\<close> are the empty tuple, as in the runtimes under \<^verbatim>\<open>polkadot/runtime\<close>.
\<close>

section \<open>State\<close>

record account_info =
  ai_nonce :: nat
  ai_consumers :: nat
  ai_providers :: nat
  ai_sufficients :: nat
  ai_data :: account_data

definition account_info_default :: account_info where
  "account_info_default =
     \<lparr>ai_nonce = 0, ai_consumers = 0, ai_providers = 0, ai_sufficients = 0,
      ai_data = account_data_default\<rparr>"

lemma account_info_default_sel [simp]:
  "ai_nonce account_info_default = 0" "ai_consumers account_info_default = 0"
  "ai_providers account_info_default = 0" "ai_sufficients account_info_default = 0"
  "ai_data account_info_default = account_data_default"
  by (simp_all add: account_info_default_def)

record sys_state =
  sys_account :: "account_id \<rightharpoonup> account_info"
  events :: "event list"

datatype inc_ref_status = Created | Existed
datatype dec_ref_status = Reaped | Exists

type_synonym ('m, 'a) sys_em = "('m sys_state_scheme, dispatch_error, 'a) em"

section \<open>Operations\<close>

definition get_info :: "account_id \<Rightarrow> 'm sys_state_scheme \<Rightarrow> account_info" where
  "get_info who s = (case sys_account s who of None \<Rightarrow> account_info_default | Some a \<Rightarrow> a)"

definition put_info :: "account_id \<Rightarrow> account_info \<Rightarrow> 'm sys_state_scheme \<Rightarrow> 'm sys_state_scheme" where
  "put_info who a s = s\<lparr>sys_account := (sys_account s)(who \<mapsto> a)\<rparr>"

definition remove_info :: "account_id \<Rightarrow> 'm sys_state_scheme \<Rightarrow> 'm sys_state_scheme" where
  "remove_info who s = s\<lparr>sys_account := (sys_account s)(who := None)\<rparr>"

definition deposit_event :: "event \<Rightarrow> 'm sys_state_scheme \<Rightarrow> 'm sys_state_scheme" where
  "deposit_event e s = s\<lparr>events := events s @ [e]\<rparr>"

definition providers :: "account_id \<Rightarrow> 'm sys_state_scheme \<Rightarrow> nat" where
  "providers who s = ai_providers (get_info who s)"

definition sufficients :: "account_id \<Rightarrow> 'm sys_state_scheme \<Rightarrow> nat" where
  "sufficients who s = ai_sufficients (get_info who s)"

definition consumers :: "account_id \<Rightarrow> 'm sys_state_scheme \<Rightarrow> nat" where
  "consumers who s = ai_consumers (get_info who s)"

definition reference_count :: "account_id \<Rightarrow> 'm sys_state_scheme \<Rightarrow> nat" where
  "reference_count who s = (providers who s + sufficients who s) mod 2 ^ 32"

definition is_provider_required :: "account_id \<Rightarrow> 'm sys_state_scheme \<Rightarrow> bool" where
  "is_provider_required who s \<longleftrightarrow> consumers who s \<noteq> 0"

definition can_dec_provider :: "account_id \<Rightarrow> 'm sys_state_scheme \<Rightarrow> bool" where
  "can_dec_provider who s \<longleftrightarrow>
     (let a = get_info who s in ai_consumers a = 0 \<or> ai_providers a > 1)"

definition can_accrue_consumers :: "nat \<Rightarrow> account_id \<Rightarrow> nat \<Rightarrow> 'm sys_state_scheme \<Rightarrow> bool" where
  "can_accrue_consumers max_consumers who amount s =
     (let a = get_info who s in
      case checked_add u32_max (ai_consumers a) amount of
        Some c \<Rightarrow> ai_providers a > 0 \<and> c \<le> max_consumers
      | None \<Rightarrow> False)"

definition can_inc_consumer :: "nat \<Rightarrow> account_id \<Rightarrow> 'm sys_state_scheme \<Rightarrow> bool" where
  "can_inc_consumer max_consumers who s = can_accrue_consumers max_consumers who 1 s"

definition inc_providers ::
  "account_id \<Rightarrow> 'm sys_state_scheme \<Rightarrow> inc_ref_status \<times> 'm sys_state_scheme" where
  "inc_providers who s =
     (let a = get_info who s in
      if ai_providers a = 0 \<and> ai_sufficients a = 0
      then (Created, put_info who (a\<lparr>ai_providers := 1\<rparr>) (deposit_event (NewAccount who) s))
      else (Existed, put_info who (a\<lparr>ai_providers := sat_add u32_max (ai_providers a) 1\<rparr>) s))"

definition dec_providers :: "account_id \<Rightarrow> ('m, dec_ref_status) sys_em" where
  "dec_providers who s =
     (case sys_account s who of
        None \<Rightarrow> (Inr Reaped, s)
      | Some a0 \<Rightarrow>
          let a = (if ai_providers a0 = 0 then a0\<lparr>ai_providers := 1\<rparr> else a0) in
          if ai_providers a = 1 \<and> ai_consumers a = 0 \<and> ai_sufficients a = 0
          then (Inr Reaped, remove_info who (deposit_event (KilledAccount who) s))
          else if ai_providers a = 1 \<and> ai_consumers a > 0
          then (Inl DE_ConsumerRemaining, s)
          else (Inr Exists, put_info who (a\<lparr>ai_providers := ai_providers a - 1\<rparr>) s))"

definition inc_sufficients ::
  "account_id \<Rightarrow> 'm sys_state_scheme \<Rightarrow> inc_ref_status \<times> 'm sys_state_scheme" where
  "inc_sufficients who s =
     (let a = get_info who s in
      if (ai_providers a + ai_sufficients a) mod 2 ^ 32 = 0
      then (Created, put_info who (a\<lparr>ai_sufficients := 1\<rparr>) (deposit_event (NewAccount who) s))
      else (Existed, put_info who (a\<lparr>ai_sufficients := sat_add u32_max (ai_sufficients a) 1\<rparr>) s))"

definition dec_sufficients ::
  "account_id \<Rightarrow> 'm sys_state_scheme \<Rightarrow> dec_ref_status \<times> 'm sys_state_scheme" where
  "dec_sufficients who s =
     (case sys_account s who of
        None \<Rightarrow> (Reaped, s)
      | Some a \<Rightarrow>
          if ai_providers a = 0 \<and> (ai_sufficients a = 0 \<or> ai_sufficients a = 1)
          then (Reaped, remove_info who (deposit_event (KilledAccount who) s))
          else (Exists, put_info who (a\<lparr>ai_sufficients := ai_sufficients a - 1\<rparr>) s))"

definition inc_consumers :: "nat \<Rightarrow> account_id \<Rightarrow> ('m, unit) sys_em" where
  "inc_consumers max_consumers who s =
     (let a = get_info who s in
      if ai_providers a > 0
      then if ai_consumers a < max_consumers
           then (Inr (), put_info who (a\<lparr>ai_consumers := sat_add u32_max (ai_consumers a) 1\<rparr>) s)
           else (Inl DE_TooManyConsumers, s)
      else (Inl DE_NoProviders, s))"

definition inc_consumers_without_limit :: "account_id \<Rightarrow> ('m, unit) sys_em" where
  "inc_consumers_without_limit who s =
     (let a = get_info who s in
      if ai_providers a > 0
      then (Inr (), put_info who (a\<lparr>ai_consumers := sat_add u32_max (ai_consumers a) 1\<rparr>) s)
      else (Inl DE_NoProviders, s))"

definition dec_consumers :: "account_id \<Rightarrow> 'm sys_state_scheme \<Rightarrow> 'm sys_state_scheme" where
  "dec_consumers who s =
     (let a = get_info who s in
      put_info who (if ai_consumers a > 0 then a\<lparr>ai_consumers := ai_consumers a - 1\<rparr> else a) s)"

text \<open>\<open>StoredMap::get\<close> and \<open>StoredMap::try_mutate_exists\<close> of \<open>frame_system\<close>.\<close>

definition stored_get :: "account_id \<Rightarrow> 'm sys_state_scheme \<Rightarrow> account_data" where
  "stored_get who s = ai_data (get_info who s)"

definition stored_try_mutate_exists ::
  "account_id \<Rightarrow> (account_data option \<Rightarrow> ('m, account_data option \<times> 'r) sys_em) \<Rightarrow> ('m, 'r) sys_em"
  where
  "stored_try_mutate_exists k f s =
     (let d = ai_data (get_info k s);
          some_data = (if d = account_data_default then None else Some d) in
      case f some_data s of
        (Inl e, s1) \<Rightarrow> (Inl e, s1)
      | (Inr (some_data', r), s1) \<Rightarrow>
          (Inr r,
           if providers k s1 > 0 \<or> sufficients k s1 > 0
           then put_info k ((get_info k s1)\<lparr>ai_data :=
                  (case some_data' of None \<Rightarrow> account_data_default | Some d' \<Rightarrow> d')\<rparr>) s1
           else remove_info k s1))"

section \<open>Frame lemmas\<close>

lemma get_info_put_info [simp]:
  "get_info who (put_info who' a s) = (if who = who' then a else get_info who s)"
  by (simp add: get_info_def put_info_def)

lemma get_info_remove_info [simp]:
  "get_info who (remove_info who' s) = (if who = who' then account_info_default else get_info who s)"
  by (simp add: get_info_def remove_info_def)

lemma get_info_deposit_event [simp]: "get_info who (deposit_event e s) = get_info who s"
  by (simp add: get_info_def deposit_event_def)

lemma sys_account_ops [simp]:
  "sys_account (put_info who a s) = (sys_account s)(who \<mapsto> a)"
  "sys_account (remove_info who s) = (sys_account s)(who := None)"
  "sys_account (deposit_event e s) = sys_account s"
  by (simp_all add: put_info_def remove_info_def deposit_event_def)

lemma put_info_twice [simp]:
  "put_info who b (put_info who a s) = put_info who b s"
  "put_info who b (deposit_event e (put_info who a s)) = put_info who b (deposit_event e s)"
  "remove_info who (put_info who a s) = remove_info who s"
  "remove_info who (deposit_event e (put_info who a s)) = remove_info who (deposit_event e s)"
  by (simp_all add: put_info_def remove_info_def deposit_event_def)

lemma get_info_Some: "sys_account s who = Some a \<Longrightarrow> get_info who s = a"
  by (simp add: get_info_def)

lemma more_ops [simp]:
  "sys_state.more (put_info who a s) = sys_state.more s"
  "sys_state.more (remove_info who s) = sys_state.more s"
  "sys_state.more (deposit_event e s) = sys_state.more s"
  by (simp_all add: put_info_def remove_info_def deposit_event_def)

section \<open>The reference-counter invariant\<close>

text \<open>
  An account that something consumes has a provider, and an entry of the map is referenced: no
  account is consumed without being provided for, and no unreferenced account is kept.
\<close>

definition info_ok :: "account_info \<Rightarrow> bool" where
  "info_ok a \<longleftrightarrow>
     (ai_consumers a > 0 \<longrightarrow> ai_providers a > 0) \<and>
     (ai_providers a > 0 \<or> ai_sufficients a > 0) \<and>
     ai_consumers a \<le> u32_max \<and> ai_providers a \<le> u32_max \<and> ai_sufficients a \<le> u32_max"

definition refs_ok :: "'m sys_state_scheme \<Rightarrow> bool" where
  "refs_ok s \<longleftrightarrow> finite (dom (sys_account s)) \<and> (\<forall>who a. sys_account s who = Some a \<longrightarrow> info_ok a)"

lemma refs_okD: "refs_ok s \<Longrightarrow> sys_account s who = Some a \<Longrightarrow> info_ok a"
  by (simp add: refs_ok_def)

lemma refs_ok_finite [simp]: "refs_ok s \<Longrightarrow> finite (dom (sys_account s))"
  by (simp add: refs_ok_def)

lemma refs_ok_put [intro]: "refs_ok s \<Longrightarrow> info_ok a \<Longrightarrow> refs_ok (put_info who a s)"
  by (auto simp: refs_ok_def)

lemma refs_ok_remove [intro]: "refs_ok s \<Longrightarrow> refs_ok (remove_info who s)"
  by (auto simp: refs_ok_def elim: finite_subset [rotated])

lemma refs_ok_event [simp]: "refs_ok (deposit_event e s) = refs_ok s"
  by (simp add: refs_ok_def)

lemma refs_ok_cases:
  assumes "refs_ok s"
  obtains "sys_account s who = None" "get_info who s = account_info_default"
  | "sys_account s who = Some (get_info who s)" "info_ok (get_info who s)"
  using assms by (cases "sys_account s who") (auto simp: get_info_def refs_ok_def)

lemma u32_max_pos [simp]: "0 < u32_max" "Suc 0 \<le> u32_max" "u32_max \<noteq> 0"
  by (simp_all add: u32_max_def)

lemma sat_inc_pos [simp]: "0 < min u32_max (Suc n)" "min u32_max (Suc n) \<noteq> 0"
  by (simp_all add: u32_max_def)

lemma refs_ok_inc_providers: "refs_ok s \<Longrightarrow> refs_ok (snd (inc_providers who s))"
  by (rule refs_ok_cases [of s who])
    (auto simp: inc_providers_def Let_def info_ok_def sat_add_def split: if_splits)

lemma refs_ok_dec_providers:
  assumes "refs_ok s"
  shows "refs_ok (snd (dec_providers who s))"
  using assms by (rule refs_ok_cases [of s who])
    (use assms in \<open>auto simp: dec_providers_def Let_def info_ok_def\<close>)

lemma refs_ok_inc_sufficients: "refs_ok s \<Longrightarrow> refs_ok (snd (inc_sufficients who s))"
  by (rule refs_ok_cases [of s who])
    (auto simp: inc_sufficients_def Let_def info_ok_def sat_add_def split: if_splits)

lemma refs_ok_dec_sufficients:
  assumes "refs_ok s"
  shows "refs_ok (snd (dec_sufficients who s))"
  using assms by (rule refs_ok_cases [of s who])
    (use assms in \<open>auto simp: dec_sufficients_def Let_def info_ok_def\<close>)

lemma refs_ok_inc_consumers: "refs_ok s \<Longrightarrow> refs_ok (snd (inc_consumers mx who s))"
  by (rule refs_ok_cases [of s who])
    (auto simp: inc_consumers_def Let_def info_ok_def sat_add_def)

lemma refs_ok_inc_consumers_without_limit:
  "refs_ok s \<Longrightarrow> refs_ok (snd (inc_consumers_without_limit who s))"
  by (rule refs_ok_cases [of s who])
    (auto simp: inc_consumers_without_limit_def Let_def info_ok_def sat_add_def)

lemma refs_ok_dec_consumers:
  "refs_ok s \<Longrightarrow> consumers who s > 0 \<Longrightarrow> refs_ok (dec_consumers who s)"
  by (rule refs_ok_cases [of s who])
    (auto simp: dec_consumers_def Let_def info_ok_def consumers_def)

section \<open>Origins\<close>

datatype raw_origin = Root | Signed account_id | NoOrigin | Authorized

definition ensure_signed :: "raw_origin \<Rightarrow> ('s, dispatch_error, account_id) em" where
  "ensure_signed o1 = (case o1 of Signed t \<Rightarrow> eret t | _ \<Rightarrow> ethrow DE_BadOrigin)"

definition ensure_root :: "raw_origin \<Rightarrow> ('s, dispatch_error, unit) em" where
  "ensure_root o1 = (case o1 of Root \<Rightarrow> eret () | _ \<Rightarrow> ethrow DE_BadOrigin)"

definition elookup :: "('l \<Rightarrow> account_id option) \<Rightarrow> 'l \<Rightarrow> ('s, dispatch_error, account_id) em" where
  "elookup lk l = eoption (lk l) DE_CannotLookup"

lemma origin_iff [simp]:
  "ensure_signed o1 s = (Inr t, s') \<longleftrightarrow> o1 = Signed t \<and> s' = s"
  "ensure_root o1 s = (Inr u, s') \<longleftrightarrow> o1 = Root \<and> s' = s"
  "elookup lk l s = (Inr w, s') \<longleftrightarrow> lk l = Some w \<and> s' = s"
  by (auto simp: ensure_signed_def ensure_root_def elookup_def split: raw_origin.split)

text \<open>The error of a call of a pallet: one of its own or one of the runtime.\<close>

datatype 'e pallet_error = PE 'e | PD dispatch_error

end
