(* ===== verification/Balances_Accounts.thy ===== *)
theory Balances_Accounts
  imports System_Accounts
begin

text \<open>
  The balances pallet, first part: its storage, its configuration and the mutation of an account that
  keeps the reference counters of \<open>frame_system\<close> in step with the balance
  (\<^verbatim>\<open>substrate/frame/balances/src/lib.rs\<close>).

  The configuration is that of the runtimes of the repository: \<open>AccountStore = System\<close>, the feature
  \<open>insecure_zero_ed\<close> is off.  \<open>DustRemoval\<close> is a parameter of the configuration.
\<close>

section \<open>Storage and configuration\<close>

record bal_state = sys_state +
  total_issuance :: balance
  inactive_issuance :: balance
  locks :: "account_id \<Rightarrow> balance_lock list"
  reserves :: "account_id \<Rightarrow> id_amount list"
  holds :: "account_id \<Rightarrow> id_amount list"
  freezes :: "account_id \<Rightarrow> id_amount list"

record bal_config =
  existential_deposit :: balance
  max_consumers :: nat
  max_locks :: nat
  max_reserves :: nat
  max_freezes :: nat
  hold_variants :: nat
  dust_removal :: "balance \<Rightarrow> bal_state \<Rightarrow> bal_state"

type_synonym 'a bal_em = "(bal_state, dispatch_error, 'a) em"

section \<open>Accounts\<close>

definition ed :: "bal_config \<Rightarrow> balance" where
  "ed c = existential_deposit c"

definition account :: "account_id \<Rightarrow> bal_state \<Rightarrow> account_data" where
  "account who s = stored_get who s"

definition ensure_upgraded :: "bal_config \<Rightarrow> account_id \<Rightarrow> bal_state \<Rightarrow> bool \<times> bal_state" where
  "ensure_upgraded c who s =
     (let a0 = stored_get who s in
      if is_new_logic (flags a0) then (False, s)
      else
        let a1 = a0\<lparr>flags := set_new_logic (flags a0)\<rparr>;
            (a2, s2) =
              (if reserved a1 \<noteq> 0 \<and> frozen a1 = 0
               then let (a3, s3) =
                      (if providers who s = 0
                       then (a1\<lparr>free := max (free a1) (ed c)\<rparr>, snd (inc_providers who s))
                       else (a1, s))
                    in (a3, snd (inc_consumers_without_limit who s3))
               else (a1, s));
            s4 = snd (stored_try_mutate_exists who (\<lambda>_. eret (Some a2, ())) s2)
        in (True, deposit_event (Upgraded who) s4))"

text \<open>
  The reference counters follow the account: \<open>did\<close> and \<open>does\<close> are what the balance asked for before
  and asks for after the mutation.
\<close>

definition adjust_refs ::
  "bal_config \<Rightarrow> account_id \<Rightarrow> bool \<Rightarrow> bool \<Rightarrow> bool \<Rightarrow> bool \<Rightarrow> bool \<Rightarrow> unit bal_em" where
  "adjust_refs c who force_consumer_bump did_provide does_provide did_consume does_consume =
     ebind (if \<not> did_provide \<and> does_provide then emod (\<lambda>s. snd (inc_providers who s)) else eret ()) (\<lambda>_.
     ebind (if did_consume \<and> \<not> does_consume then emod (dec_consumers who) else eret ()) (\<lambda>_.
     ebind (if \<not> did_consume \<and> does_consume
            then (if force_consumer_bump then inc_consumers_without_limit who
                  else inc_consumers (max_consumers c) who)
            else eret ()) (\<lambda>_.
     ebind (eget (consumers who)) (\<lambda>n.
     ebind (if does_consume \<and> n = 0 then inc_consumers (max_consumers c) who else eret ()) (\<lambda>_.
     if did_provide \<and> \<not> does_provide
     then ebind (eresult (dec_providers who)) (\<lambda>r.
          case r of
            Inr _ \<Rightarrow> eret ()
          | Inl e \<Rightarrow>
              ebind (if did_consume \<and> \<not> does_consume
                     then ebind (eresult (inc_consumers (max_consumers c) who)) (\<lambda>_ :: dispatch_error + unit. eret ())
                     else eret ()) (\<lambda>_.
              ebind (if \<not> did_consume \<and> does_consume then emod (dec_consumers who) else eret ()) (\<lambda>_.
              ethrow e)))
     else eret ())))))"

text \<open>
  The closure \<open>f\<close> returns a result that \<open>try_mutate_account\<close> owns until it returns.  Where a reference
  counter cannot be adjusted the function returns early and the result is dropped: \<open>dr\<close> is what
  the destructor of the result does.
\<close>

definition mutate_maybe_account_drop ::
  "bal_config \<Rightarrow> account_id \<Rightarrow> bool \<Rightarrow> ('r \<Rightarrow> bal_state \<Rightarrow> bal_state)
     \<Rightarrow> (account_data \<Rightarrow> bool \<Rightarrow> (account_data \<times> 'r) bal_em)
     \<Rightarrow> account_data option \<Rightarrow> (account_data option \<times> balance option \<times> balance option \<times> 'r) bal_em" where
  "mutate_maybe_account_drop c who force_consumer_bump dr f maybe_account =
     (let is_new = (maybe_account = None);
          a0 = (case maybe_account of None \<Rightarrow> account_data_default | Some a \<Rightarrow> a);
          did_provide = (free a0 \<ge> ed c);
          did_consume = (\<not> is_new \<and> (reserved a0 \<noteq> 0 \<or> frozen a0 \<noteq> 0)) in
      ebind (f a0 is_new) (\<lambda>(a, result).
      let does_provide = (free a \<ge> ed c);
          does_consume = (reserved a \<noteq> 0 \<or> frozen a \<noteq> 0) in
      ebind (on_error (dr result)
               (adjust_refs c who force_consumer_bump did_provide does_provide did_consume does_consume)) (\<lambda>_.
      let maybe_endowed = (if is_new then Some (free a) else None) in
      eret
        (if free a < ed c \<and> reserved a = 0
         then (None, maybe_endowed, if free a = 0 then None else Some (free a), result)
         else (Some a, maybe_endowed, None, result)))))"

definition try_mutate_account_drop ::
  "bal_config \<Rightarrow> account_id \<Rightarrow> bool \<Rightarrow> ('r \<Rightarrow> bal_state \<Rightarrow> bal_state)
     \<Rightarrow> (account_data \<Rightarrow> bool \<Rightarrow> (account_data \<times> 'r) bal_em) \<Rightarrow> ('r \<times> balance option) bal_em" where
  "try_mutate_account_drop c who force_consumer_bump dr f =
     ebind (elift (ensure_upgraded c who)) (\<lambda>_.
     ebind (stored_try_mutate_exists who (mutate_maybe_account_drop c who force_consumer_bump dr f))
       (\<lambda>(maybe_endowed, maybe_dust, result).
     ebind (emod (\<lambda>s. case maybe_endowed of None \<Rightarrow> s | Some e \<Rightarrow> deposit_event (Endowed who e) s)) (\<lambda>_.
     ebind (emod (\<lambda>s. case maybe_dust of None \<Rightarrow> s | Some d \<Rightarrow> deposit_event (DustLost who d) s)) (\<lambda>_.
     eret (result, maybe_dust)))))"

definition mutate_account_drop ::
  "bal_config \<Rightarrow> account_id \<Rightarrow> bool \<Rightarrow> ('r \<Rightarrow> bal_state \<Rightarrow> bal_state) \<Rightarrow> (account_data \<Rightarrow> account_data \<times> 'r)
     \<Rightarrow> ('r \<times> balance option) bal_em" where
  "mutate_account_drop c who force_consumer_bump dr f =
     try_mutate_account_drop c who force_consumer_bump dr (\<lambda>a _. eret (f a))"

text \<open>The instances for results without a destructor.\<close>

definition mutate_maybe_account ::
  "bal_config \<Rightarrow> account_id \<Rightarrow> bool \<Rightarrow> (account_data \<Rightarrow> bool \<Rightarrow> (account_data \<times> 'r) bal_em)
     \<Rightarrow> account_data option \<Rightarrow> (account_data option \<times> balance option \<times> balance option \<times> 'r) bal_em" where
  "mutate_maybe_account c who force_consumer_bump f =
     mutate_maybe_account_drop c who force_consumer_bump (\<lambda>_ s. s) f"

definition try_mutate_account ::
  "bal_config \<Rightarrow> account_id \<Rightarrow> bool \<Rightarrow> (account_data \<Rightarrow> bool \<Rightarrow> (account_data \<times> 'r) bal_em)
     \<Rightarrow> ('r \<times> balance option) bal_em" where
  "try_mutate_account c who force_consumer_bump f =
     try_mutate_account_drop c who force_consumer_bump (\<lambda>_ s. s) f"

definition mutate_account ::
  "bal_config \<Rightarrow> account_id \<Rightarrow> bool \<Rightarrow> (account_data \<Rightarrow> account_data \<times> 'r) \<Rightarrow> ('r \<times> balance option) bal_em"
  where
  "mutate_account c who force_consumer_bump f =
     try_mutate_account c who force_consumer_bump (\<lambda>a _. eret (f a))"

lemmas mutate_maybe_account_alt = mutate_maybe_account_def [unfolded mutate_maybe_account_drop_def on_error_id]

lemmas try_mutate_account_alt =
  try_mutate_account_def [unfolded try_mutate_account_drop_def, folded mutate_maybe_account_def]

section \<open>The invariant\<close>

text \<open>
  A balance at or above the existential deposit is backed by a provider reference, a reserved or
  frozen balance by a consumer reference, and an account whose free balance is below the existential
  deposit and which has nothing reserved stores nothing.
\<close>

definition info_inv :: "bal_config \<Rightarrow> account_info \<Rightarrow> bool" where
  "info_inv c i \<longleftrightarrow>
     (let d = ai_data i in
      flags d = IS_NEW_LOGIC \<and>
      free d \<le> u128_max \<and> reserved d \<le> u128_max \<and>
      (ed c \<le> free d \<longrightarrow> 0 < ai_providers i) \<and>
      (reserved d \<noteq> 0 \<or> frozen d \<noteq> 0 \<longrightarrow> 0 < ai_consumers i) \<and>
      (free d < ed c \<and> reserved d = 0 \<longrightarrow> d = account_data_default))"

definition accounts_inv :: "bal_config \<Rightarrow> 'm sys_state_scheme \<Rightarrow> bool" where
  "accounts_inv c s \<longleftrightarrow>
     refs_ok s \<and> (\<forall>who i. sys_account s who = Some i \<longrightarrow> info_inv c i)"

definition info_tokens :: "account_info \<Rightarrow> nat" where
  "info_tokens i = free (ai_data i) + reserved (ai_data i)"

definition circulating :: "'m sys_state_scheme \<Rightarrow> nat" where
  "circulating s = map_sum info_tokens (sys_account s)"

text \<open>The lists that storage keeps per account are keyed by their identifiers.\<close>

definition lists_ok :: "bal_state \<Rightarrow> bool" where
  "lists_ok s \<longleftrightarrow>
     (\<forall>who. distinct (map lock_ident (locks s who)) \<and> sorted_wrt (<) (map ia_id (reserves s who)) \<and>
            distinct (map ia_id (holds s who)) \<and> distinct (map ia_id (freezes s who)))"

definition same_lists :: "bal_state \<Rightarrow> bal_state \<Rightarrow> bool" where
  "same_lists s s' \<longleftrightarrow>
     locks s' = locks s \<and> reserves s' = reserves s \<and> holds s' = holds s \<and> freezes s' = freezes s"

text \<open>
  The dust handler disposes of the credit it is given, into an account or out of the issuance; it takes
  nothing from an account and leaves the locks, reserves, holds and freezes alone.
\<close>

definition dust_ok :: "bal_config \<Rightarrow> bool" where
  "dust_ok c \<longleftrightarrow>
     (\<forall>d s. accounts_inv c s \<and> total_issuance s \<le> u128_max \<and> circulating s + d \<le> total_issuance s \<longrightarrow>
        (let s' = dust_removal c d s in
         accounts_inv c s' \<and> total_issuance s' \<le> u128_max \<and> same_lists s s' \<and>
         int (total_issuance s') - int (circulating s') = int (total_issuance s) - int (circulating s) - int d \<and>
         (\<forall>who. free (account who s) \<le> free (account who s'))))"

definition cfg_ok :: "bal_config \<Rightarrow> bool" where
  "cfg_ok c \<longleftrightarrow> 0 < ed c \<and> 0 < max_consumers c \<and> dust_ok c"

definition bal_inv :: "bal_config \<Rightarrow> bal_state \<Rightarrow> bool" where
  "bal_inv c s \<longleftrightarrow> cfg_ok c \<and> accounts_inv c s \<and> total_issuance s \<le> u128_max \<and> lists_ok s"

lemma same_lists_refl [simp]: "same_lists s s"
  by (simp add: same_lists_def)

lemma same_lists_trans: "same_lists s t \<Longrightarrow> same_lists t u \<Longrightarrow> same_lists s u"
  by (simp add: same_lists_def)

lemma lists_ok_same: "same_lists s s' \<Longrightarrow> lists_ok s \<Longrightarrow> lists_ok s'"
  by (simp add: same_lists_def lists_ok_def)

lemma info_inv_default: "cfg_ok c \<Longrightarrow> info_inv c account_info_default"
  by (simp add: info_inv_def cfg_ok_def)

lemma info_inv_get: "cfg_ok c \<Longrightarrow> accounts_inv c s \<Longrightarrow> info_inv c (get_info who s)"
  by (cases "sys_account s who") (auto simp: accounts_inv_def get_info_def info_inv_default)

lemma accounts_inv_refs: "accounts_inv c s \<Longrightarrow> refs_ok s"
  by (simp add: accounts_inv_def)

lemma accounts_inv_put:
  "accounts_inv c s \<Longrightarrow> info_ok i \<Longrightarrow> info_inv c i \<Longrightarrow> accounts_inv c (put_info who i s)"
  by (auto simp: accounts_inv_def)

lemma accounts_inv_remove: "accounts_inv c s \<Longrightarrow> accounts_inv c (remove_info who s)"
  by (auto simp: accounts_inv_def)

lemma accounts_inv_event [simp]: "accounts_inv c (deposit_event e s) = accounts_inv c s"
  by (simp add: accounts_inv_def)

lemma circulating_event [simp]: "circulating (deposit_event e s) = circulating s"
  by (simp add: circulating_def)

lemma info_tokens_default [simp]: "info_tokens account_info_default = 0"
  by (simp add: info_tokens_def)

lemma opt_tokens: "opt_val info_tokens (sys_account s who) = info_tokens (get_info who s)"
  by (cases "sys_account s who") (simp_all add: get_info_def)

lemma circulating_put:
  "refs_ok s \<Longrightarrow> circulating (put_info who i s) + info_tokens (get_info who s) = circulating s + info_tokens i"
  using map_sum_upd [of "sys_account s" info_tokens who "Some i"]
  by (simp add: circulating_def opt_tokens)

lemma circulating_remove:
  "refs_ok s \<Longrightarrow> circulating (remove_info who s) + info_tokens (get_info who s) = circulating s"
  using map_sum_upd [of "sys_account s" info_tokens who None]
  by (simp add: circulating_def opt_tokens)

lemma circulating_ge: "refs_ok s \<Longrightarrow> info_tokens (get_info who s) \<le> circulating s"
  using map_sum_ge [of "sys_account s" info_tokens who]
  by (simp add: circulating_def opt_tokens)

section \<open>Adjusting the reference counters\<close>

text \<open>
  \<open>refs_step who s s'\<close>: the two states differ in the reference counters of one account and in the
  events, and that account may have been removed when it was empty of references.
\<close>

definition refs_step :: "account_id \<Rightarrow> 'm sys_state_scheme \<Rightarrow> 'm sys_state_scheme \<Rightarrow> bool" where
  "refs_step who s s' \<longleftrightarrow>
     sys_state.more s' = sys_state.more s \<and>
     (\<forall>x. x \<noteq> who \<longrightarrow> sys_account s' x = sys_account s x) \<and>
     (ai_data (get_info who s') = ai_data (get_info who s) \<or> sys_account s' who = None)"

lemma refs_step_refl [simp]: "refs_step who s s"
  by (simp add: refs_step_def)

definition refs_pre :: "bal_config \<Rightarrow> account_id \<Rightarrow> bool \<Rightarrow> bool \<Rightarrow> bal_state \<Rightarrow> bool" where
  "refs_pre c who did_provide did_consume s \<longleftrightarrow>
     0 < max_consumers c \<and> refs_ok s \<and>
     (did_provide \<longrightarrow> 0 < providers who s) \<and> (did_consume \<longrightarrow> 0 < consumers who s)"

lemmas refs_ops_defs = inc_providers_def dec_providers_def dec_consumers_def inc_consumers_def
  inc_consumers_without_limit_def providers_def consumers_def sufficients_def

definition refs_post :: "account_id \<Rightarrow> bool \<Rightarrow> bool \<Rightarrow> bal_state \<Rightarrow> bal_state \<Rightarrow> bool" where
  "refs_post who does_provide does_consume s s' \<longleftrightarrow>
     refs_ok s' \<and> refs_step who s s' \<and>
     (does_provide \<longrightarrow> 0 < providers who s') \<and> (does_consume \<longrightarrow> 0 < consumers who s')"

lemma adjust_refs_ok:
  assumes pre: "refs_pre c who dp dc s" and run: "adjust_refs c who fb dp np dc nc s = (Inr u, s')"
  shows "refs_post who np nc s s'"
proof -
  have ok: "refs_ok s" using pre by (simp add: refs_pre_def)
  then show ?thesis
  proof (cases rule: refs_ok_cases [of s who])
    case 1
    with pre run ok show ?thesis
      by (cases dp; cases np; cases dc; cases nc;
        auto simp: adjust_refs_def refs_ops_defs Let_def refs_pre_def refs_post_def refs_step_def
          info_ok_def sat_add_def intro!: refs_ok_put split: if_splits sum.splits)
  next
    case 2
    with pre run ok show ?thesis
      by (cases dp; cases np; cases dc; cases nc;
        auto simp: adjust_refs_def refs_ops_defs Let_def refs_pre_def refs_post_def refs_step_def
          info_ok_def sat_add_def intro!: refs_ok_put split: if_splits sum.splits)
  qed
qed

lemma adjust_refs_err:
  assumes pre: "refs_pre c who dp dc s" and run: "adjust_refs c who fb dp np dc nc s = (Inl e, s')"
  shows "refs_post who dp dc s s'"
proof -
  have ok: "refs_ok s" using pre by (simp add: refs_pre_def)
  then show ?thesis
  proof (cases rule: refs_ok_cases [of s who])
    case 1
    with pre run ok show ?thesis
      by (cases dp; cases np; cases dc; cases nc;
        auto simp: adjust_refs_def ebind_Inl_iff refs_ops_defs Let_def refs_pre_def refs_post_def
          refs_step_def info_ok_def sat_add_def intro!: refs_ok_put split: if_splits sum.splits)
  next
    case 2
    with pre run ok show ?thesis
      by (cases dp; cases np; cases dc; cases nc;
        auto simp: adjust_refs_def ebind_Inl_iff refs_ops_defs Let_def refs_pre_def refs_post_def
          refs_step_def info_ok_def sat_add_def intro!: refs_ok_put split: if_splits sum.splits)
  qed
qed


section \<open>Mutating an account\<close>

text \<open>What is stored after a mutation, and the dust that it leaves.\<close>

definition settled :: "bal_config \<Rightarrow> account_data \<Rightarrow> account_data" where
  "settled c a = (if free a < ed c \<and> reserved a = 0 then account_data_default else a)"

definition dust_of :: "bal_config \<Rightarrow> account_data \<Rightarrow> balance option" where
  "dust_of c a = (if free a < ed c \<and> reserved a = 0 \<and> free a \<noteq> 0 then Some (free a) else None)"

definition tokens :: "account_data \<Rightarrow> nat" where
  "tokens a = free a + reserved a"

definition data_ok :: "account_data \<Rightarrow> bool" where
  "data_ok a \<longleftrightarrow> flags a = IS_NEW_LOGIC \<and> free a \<le> u128_max \<and> reserved a \<le> u128_max"

definition mutated :: "bal_config \<Rightarrow> account_id \<Rightarrow> account_data \<Rightarrow> bal_state \<Rightarrow> bal_state \<Rightarrow> bool" where
  "mutated c who a s s' \<longleftrightarrow>
     accounts_inv c s' \<and> sys_state.more s' = sys_state.more s \<and>
     (\<forall>x. x \<noteq> who \<longrightarrow> sys_account s' x = sys_account s x) \<and>
     account who s' = settled c a \<and>
     circulating s' + tokens (account who s) = circulating s + tokens (settled c a)"

lemma tokens_default [simp]: "tokens account_data_default = 0"
  by (simp add: tokens_def)

lemma info_tokens_account [simp]: "info_tokens (get_info who s) = tokens (account who s)"
  by (simp add: info_tokens_def tokens_def account_def stored_get_def)

lemma settled_dust: "tokens (settled c a) + opt_val id (dust_of c a) = tokens a"
  by (auto simp: settled_def dust_of_def tokens_def)

lemma account_inv:
  assumes "cfg_ok c" and "accounts_inv c s"
  shows "data_ok (account who s)" and "settled c (account who s) = account who s"
    and "ed c \<le> free (account who s) \<Longrightarrow> 0 < providers who s"
    and "reserved (account who s) \<noteq> 0 \<or> frozen (account who s) \<noteq> 0 \<Longrightarrow> 0 < consumers who s"
  using info_inv_get [OF assms, of who]
  by (auto simp: info_inv_def data_ok_def settled_def account_def stored_get_def providers_def
      consumers_def Let_def)

lemma ensure_upgraded_new:
  "cfg_ok c \<Longrightarrow> accounts_inv c s \<Longrightarrow> ensure_upgraded c who s = (False, s)"
  using account_inv(1) [of c s who]
  by (simp add: ensure_upgraded_def data_ok_def account_def)

lemma more_fields:
  fixes s s' :: bal_state
  assumes "sys_state.more s' = sys_state.more s"
  shows "total_issuance s' = total_issuance s" "inactive_issuance s' = inactive_issuance s"
    "locks s' = locks s" "reserves s' = reserves s" "holds s' = holds s" "freezes s' = freezes s"
  using assms by (cases s; cases s'; simp)+

lemma refs_step_mutated:
  assumes "cfg_ok c" and "accounts_inv c s" and post: "refs_post who dp dc s s'"
    and dp: "dp = (ed c \<le> free (account who s))"
    and dc: "dc = (reserved (account who s) \<noteq> 0 \<or> frozen (account who s) \<noteq> 0)"
  shows "mutated c who (account who s) s s'"
proof -
  note A = account_inv [OF assms(1,2), of who]
  have same: "ai_data (get_info who s') = ai_data (get_info who s)"
  proof (rule ccontr)
    assume "ai_data (get_info who s') \<noteq> ai_data (get_info who s)"
    with post have none: "sys_account s' who = None" by (auto simp: refs_post_def refs_step_def)
    then have "get_info who s' = account_info_default" by (simp add: get_info_def)
    with post have "\<not> dp" "\<not> dc" by (auto simp: refs_post_def providers_def consumers_def)
    with dp dc A(2) have "account who s = account_data_default" by (auto simp: settled_def split: if_splits)
    with none \<open>ai_data (get_info who s') \<noteq> ai_data (get_info who s)\<close> show False
      by (simp add: account_def stored_get_def get_info_def)
  qed
  have ok: "refs_ok s'" "sys_state.more s' = sys_state.more s"
    and oth: "\<And>x. x \<noteq> who \<Longrightarrow> sys_account s' x = sys_account s x"
    using post by (auto simp: refs_post_def refs_step_def)
  have inv: "info_inv c i" if "sys_account s' x = Some i" for x i
  proof (cases "x = who")
    case True
    with that same have "ai_data i = account who s" "get_info who s' = i"
      by (simp_all add: get_info_def account_def stored_get_def split: option.splits)
    with A post dp dc show ?thesis
      by (auto simp: info_inv_def Let_def data_ok_def refs_post_def providers_def consumers_def settled_def
          split: if_splits)
  next
    case False
    with that oth assms(2) show ?thesis by (simp add: accounts_inv_def)
  qed
  have "circulating s' = circulating s"
  proof -
    have "sys_account s' = (sys_account s)(who := sys_account s' who)" using oth by auto
    with map_sum_upd [OF refs_ok_finite [OF accounts_inv_refs [OF assms(2)]], of info_tokens who "sys_account s' who"]
    have "circulating s' + info_tokens (get_info who s) = circulating s + info_tokens (get_info who s')"
      by (simp only: circulating_def opt_tokens)
    with same show ?thesis by (simp add: info_tokens_def account_def stored_get_def tokens_def)
  qed
  with ok oth inv same A(2) show ?thesis
    by (simp add: mutated_def accounts_inv_def account_def stored_get_def)
qed


lemma adjusted_mutated:
  assumes "cfg_ok c" and "accounts_inv c s" and post: "refs_post who np nc s s1"
    and a: "data_ok a"
    and np: "np = (ed c \<le> free a)" and nc: "nc = (reserved a \<noteq> 0 \<or> frozen a \<noteq> 0)"
    and s2: "s2 = (if providers who s1 > 0 \<or> sufficients who s1 > 0
                   then put_info who ((get_info who s1)\<lparr>ai_data := settled c a\<rparr>) s1
                   else remove_info who s1)"
  shows "mutated c who a s s2"
proof -
  have ok: "refs_ok s1" "sys_state.more s1 = sys_state.more s"
    and oth: "\<And>x. x \<noteq> who \<Longrightarrow> sys_account s1 x = sys_account s x"
    using post by (auto simp: refs_post_def refs_step_def)
  have refs: "np \<Longrightarrow> 0 < providers who s1" "nc \<Longrightarrow> 0 < consumers who s1"
    using post by (auto simp: refs_post_def)
  have empty: "settled c a = account_data_default" if "providers who s1 = 0"
    using that refs np nc
    by (cases rule: refs_ok_cases [OF ok(1), of who])
      (auto simp: settled_def providers_def consumers_def info_ok_def)
  have frame: "sys_state.more s2 = sys_state.more s" "x \<noteq> who \<Longrightarrow> sys_account s2 x = sys_account s x" for x
    using ok oth by (auto simp: s2)
  have acc: "account who s2 = settled c a"
    using empty by (auto simp: s2 account_def stored_get_def)
  have ok2: "refs_ok s2"
    by (cases rule: refs_ok_cases [OF ok(1), of who])
      (simp_all add: s2 ok(1) refs_ok_put refs_ok_remove info_ok_def providers_def sufficients_def)
  have inv: "info_inv c i" if "sys_account s2 x = Some i" for x i
  proof (cases "x = who")
    case True
    with that have i: "ai_data i = settled c a" "ai_providers i = providers who s1" "ai_consumers i = consumers who s1"
      by (auto simp: s2 providers_def consumers_def split: if_splits)
    show ?thesis using i refs a assms(1) np nc
      by (auto simp: info_inv_def Let_def data_ok_def settled_def cfg_ok_def)
  next
    case False
    with that frame(2) assms(2) show ?thesis by (simp add: accounts_inv_def)
  qed
  have "sys_account s2 = (sys_account s)(who := sys_account s2 who)" using frame(2) by auto
  with map_sum_upd [OF refs_ok_finite [OF accounts_inv_refs [OF assms(2)]], of info_tokens who "sys_account s2 who"]
  have "circulating s2 + info_tokens (get_info who s) = circulating s + info_tokens (get_info who s2)"
    by (simp only: circulating_def opt_tokens)
  with frame acc ok2 inv show ?thesis
    by (simp add: mutated_def accounts_inv_def)
qed


text \<open>
  The specification of \<open>try_mutate_account\<close>.  The closure may change other accounts, as the nested
  mutations of the pallet do, but leaves the account it is called on to its caller.
\<close>

lemma mutate_maybe_account_run:
  fixes s :: bal_state
  assumes "cfg_ok c" and inv: "accounts_inv c s"
    and d: "d = account who s" "m = (if d = account_data_default then None else Some d)"
    and f: "f d (d = account_data_default) s = (Inr (a, r), s1)"
    and s1: "accounts_inv c s1" "sys_account s1 who = sys_account s who"
  shows "mutate_maybe_account c who fb f m s = (Inr (ma, en, du, r'), s2) \<Longrightarrow>
           refs_post who (ed c \<le> free a) (reserved a \<noteq> 0 \<or> frozen a \<noteq> 0) s1 s2 \<and> r' = r \<and>
           du = dust_of c a \<and> settled c a = (case ma of None \<Rightarrow> account_data_default | Some x \<Rightarrow> x)"
    and "mutate_maybe_account c who fb f m s = (Inl e, s2) \<Longrightarrow> mutated c who d s1 s2"
proof -
  let ?dp = "ed c \<le> free d" and ?dc = "reserved d \<noteq> 0 \<or> frozen d \<noteq> 0"
  let ?np = "ed c \<le> free a" and ?nc = "reserved a \<noteq> 0 \<or> frozen a \<noteq> 0"
  have acc: "account who s1 = d" using s1(2) by (simp add: d account_def stored_get_def get_info_def)
  have pre: "refs_pre c who ?dp ?dc s1"
    using account_inv(3,4) [OF assms(1) s1(1), of who] assms(1) accounts_inv_refs [OF s1(1)]
    by (auto simp: refs_pre_def acc cfg_ok_def)
  have eq: "mutate_maybe_account c who fb f m s =
      ebind (adjust_refs c who fb ?dp ?np ?dc ?nc) (\<lambda>_.
        eret (if free a < ed c \<and> reserved a = 0
              then (None, if d = account_data_default then Some (free a) else None, if free a = 0 then None else Some (free a), r)
              else (Some a, if d = account_data_default then Some (free a) else None, None, r))) s1"
    using f unfolding mutate_maybe_account_alt d(2)
    by (cases "d = account_data_default"; simp add: ebind_def Let_def; auto)
  show "refs_post who ?np ?nc s1 s2 \<and> r' = r \<and> du = dust_of c a \<and>
      settled c a = (case ma of None \<Rightarrow> account_data_default | Some x \<Rightarrow> x)"
    if "mutate_maybe_account c who fb f m s = (Inr (ma, en, du, r'), s2)"
    using that adjust_refs_ok [OF pre] unfolding eq
    by (auto simp: settled_def dust_of_def split: if_splits)
  show "mutated c who d s1 s2" if "mutate_maybe_account c who fb f m s = (Inl e, s2)"
    using that adjust_refs_err [OF pre, of fb ?np ?nc e s2] refs_step_mutated [OF assms(1) s1(1), of who ?dp ?dc s2]
    unfolding eq acc by (auto simp: ebind_Inl_iff)
qed


lemma mutated_event [simp]:
  "mutated c who a (deposit_event e s) s' = mutated c who a s s'"
  "mutated c who a s (deposit_event e s') = mutated c who a s s'"
  by (simp_all add: mutated_def account_def stored_get_def)

definition stored_put :: "account_id \<Rightarrow> account_data option \<Rightarrow> bal_state \<Rightarrow> bal_state" where
  "stored_put who ma s =
     (if providers who s > 0 \<or> sufficients who s > 0
      then put_info who ((get_info who s)\<lparr>ai_data := (case ma of None \<Rightarrow> account_data_default | Some d \<Rightarrow> d)\<rparr>) s
      else remove_info who s)"

lemma try_mutate_account_eq:
  assumes "cfg_ok c" and "accounts_inv c s"
    and m: "m = (if account who s = account_data_default then None else Some (account who s))"
  shows "try_mutate_account c who fb f s =
     (case mutate_maybe_account c who fb f m s of
        (Inl e, s2) \<Rightarrow> (Inl e, s2)
      | (Inr (ma, en, du, r), s2) \<Rightarrow>
          (Inr (r, du),
           (case du of None \<Rightarrow> id | Some d \<Rightarrow> deposit_event (DustLost who d))
             ((case en of None \<Rightarrow> id | Some e \<Rightarrow> deposit_event (Endowed who e)) (stored_put who ma s2))))"
proof -
  have up: "elift (ensure_upgraded c who) s = (Inr False, s)"
    using ensure_upgraded_new [OF assms(1,2)] by (simp add: elift_def)
  have st: "stored_try_mutate_exists who g s =
      (case g m s of (Inl e, s1) \<Rightarrow> (Inl e, s1) | (Inr (ma, r), s1) \<Rightarrow> (Inr r, stored_put who ma s1))"
    for g :: "account_data option \<Rightarrow> (account_data option \<times> 'x) bal_em"
    unfolding stored_try_mutate_exists_def m Let_def account_def stored_get_def stored_put_def
    by (rule refl)
  show ?thesis
  proof (cases "mutate_maybe_account c who fb f m s")
    case (Pair x s2)
    then show ?thesis
    proof (cases x)
      case (Inl e)
      with Pair show ?thesis by (simp add: try_mutate_account_alt ebind_def up st)
    next
      case (Inr y)
      obtain ma en du r where y: "y = (ma, en, du, r)" by (cases y)
      show ?thesis
        using Pair unfolding Inr y
        by (cases en; cases du) (simp_all add: try_mutate_account_alt ebind_def up st emod_def eret_def)
    qed
  qed
qed

lemma try_mutate_account_closure_err:
  assumes "cfg_ok c" "accounts_inv c s"
    and "f (account who s) (account who s = account_data_default) s = (Inl e, s1)"
  shows "try_mutate_account c who fb f s = (Inl e, s1)"
  using assms(3) unfolding try_mutate_account_eq [OF assms(1,2) refl]
  by (cases "account who s = account_data_default") (simp_all add: mutate_maybe_account_alt Let_def ebind_def)

lemma try_mutate_account_run:
  assumes "cfg_ok c" and "accounts_inv c s"
    and "f (account who s) (account who s = account_data_default) s = (Inr (a, r), s1)"
    and "accounts_inv c s1" "sys_account s1 who = sys_account s who"
  shows "try_mutate_account c who fb f s = (Inr (r', du), s') \<Longrightarrow>
           r' = r \<and> du = dust_of c a \<and> (data_ok a \<longrightarrow> mutated c who a s1 s')"
    and "try_mutate_account c who fb f s = (Inl e, s') \<Longrightarrow> mutated c who (account who s) s1 s'"
proof -
  let ?d = "account who s"
  define m where m_def: "m = (if ?d = account_data_default then None else Some ?d)"
  note M = mutate_maybe_account_run [of c s ?d who m f a r s1 fb, OF assms(1,2) refl m_def assms(3-)]
  note eq = try_mutate_account_eq [OF assms(1,2) m_def, of fb f]
  obtain y s2 where m: "mutate_maybe_account c who fb f m s = (y, s2)" by (rule prod.exhaust)
  show "r' = r \<and> du = dust_of c a \<and> (data_ok a \<longrightarrow> mutated c who a s1 s')"
    if run: "try_mutate_account c who fb f s = (Inr (r', du), s')"
  proof (cases y)
    case (Inr z)
    obtain ma en du' r'' where z: "z = (ma, en, du', r'')" by (rule prod_cases4)
    note M1 = M(1) [OF m [unfolded Inr z]]
    have "mutated c who a s1 (stored_put who ma s2)" if a: "data_ok a"
      by (rule adjusted_mutated [OF assms(1,4) _ a refl refl, of _ s2])
        (use M1 in \<open>simp_all add: stored_put_def\<close>)
    then show ?thesis
      using run M1 unfolding eq m Inr z by (auto split: option.splits)
  qed (use run m in \<open>simp add: eq\<close>)
  show "mutated c who ?d s1 s'" if run: "try_mutate_account c who fb f s = (Inl e, s')"
  proof (cases y)
    case (Inl e')
    then show ?thesis using run m M(2) [of e' s2] by (simp add: eq)
  qed (use run m in \<open>auto simp: eq\<close>)
qed


lemma try_mutate_account_more:
  assumes "cfg_ok c" and "accounts_inv c s"
    and "f (account who s) (account who s = account_data_default) s = (Inr (a, r), s1)"
    and "accounts_inv c s1" "sys_account s1 who = sys_account s who"
    and run: "try_mutate_account c who fb f s = (x, s')"
  shows "sys_state.more s' = sys_state.more s1"
proof -
  let ?d = "account who s"
  define m where m_def: "m = (if ?d = account_data_default then None else Some ?d)"
  note M = mutate_maybe_account_run [of c s ?d who m f a r s1 fb, OF assms(1,2) refl m_def assms(3-5)]
  obtain y s2 where m: "mutate_maybe_account c who fb f m s = (y, s2)" by (rule prod.exhaust)
  have put: "sys_state.more (stored_put who ma s2) = sys_state.more s2" for ma by (simp add: stored_put_def)
  show ?thesis
  proof (cases y)
    case (Inl e)
    with run m M(2) [of e s2] show ?thesis
      by (simp add: try_mutate_account_eq [OF assms(1,2) m_def] mutated_def)
  next
    case (Inr z)
    obtain ma en du r' where z: "z = (ma, en, du, r')" by (rule prod_cases4)
    have "sys_state.more s2 = sys_state.more s1"
      using M(1) [OF m [unfolded Inr z]] by (simp add: refs_post_def refs_step_def)
    with run m Inr z put show ?thesis
      by (auto simp: try_mutate_account_eq [OF assms(1,2) m_def] split: option.splits)
  qed
qed

text \<open>A result with a destructor is dropped on the way out of a failing adjustment, and only there.\<close>

lemma try_mutate_account_drop_run:
  assumes "cfg_ok c" and "accounts_inv c s"
    and f: "f (account who s) (account who s = account_data_default) s = (Inr (a, r), s1)"
  shows "try_mutate_account_drop c who fb dr f s =
    (case try_mutate_account c who fb f s of (Inl e, s') \<Rightarrow> (Inl e, dr r s') | (Inr x, s') \<Rightarrow> (Inr x, s'))"
proof -
  let ?d = "account who s"
  define m where "m = (if ?d = account_data_default then None else Some ?d)"
  have up: "elift (ensure_upgraded c who) s = (Inr False, s)"
    using ensure_upgraded_new [OF assms(1,2)] by (simp add: elift_def)
  have st: "stored_try_mutate_exists who g s =
      (case g m s of (Inl e, s1) \<Rightarrow> (Inl e, s1) | (Inr (ma, r), s1) \<Rightarrow> (Inr r, stored_put who ma s1))"
    for g :: "account_data option \<Rightarrow> (account_data option \<times> 'x) bal_em"
    unfolding stored_try_mutate_exists_def m_def Let_def account_def stored_get_def stored_put_def
    by (rule refl)
  let ?k = "\<lambda>dr. mutate_maybe_account_drop c who fb dr f m s"
  have m: "?k dr = (case ?k (\<lambda>_ s. s) of (Inl e, s') \<Rightarrow> (Inl e, dr r s') | (Inr x, s') \<Rightarrow> (Inr x, s'))"
    using f unfolding mutate_maybe_account_drop_def m_def
    by (cases "?d = account_data_default")
      (auto simp: ebind_def on_error_def Let_def eret_def split: prod.splits sum.splits)
  show ?thesis
  proof (cases "?k (\<lambda>_ s. s)")
    case (Pair y s2)
    show ?thesis
    proof (cases y)
      case (Inl e)
      with Pair m show ?thesis by (simp add: try_mutate_account_def try_mutate_account_drop_def ebind_def up st)
    next
      case (Inr z)
      with Pair m show ?thesis
        by (cases z) (simp add: try_mutate_account_def try_mutate_account_drop_def ebind_def up st emod_def eret_def)
    qed
  qed
qed

lemma try_mutate_account_drop_closure_err:
  assumes "cfg_ok c" "accounts_inv c s"
    and "f (account who s) (account who s = account_data_default) s = (Inl e, s1)"
  shows "try_mutate_account_drop c who fb dr f s = (Inl e, s1)"
  using assms ensure_upgraded_new [OF assms(1,2), of who]
  by (cases "account who s = account_data_default")
    (simp_all add: try_mutate_account_drop_def mutate_maybe_account_drop_def stored_try_mutate_exists_def
      ebind_def elift_def Let_def account_def stored_get_def)

text \<open>The mutation is refused only where it takes away a provider reference that is needed.\<close>

lemma adjust_refs_succeeds:
  assumes pre: "refs_pre c who dp dc s" and "dp \<and> \<not> np \<longrightarrow> can_dec_provider who s"
    and "nc \<and> \<not> dc \<longrightarrow> fb \<and> dp \<and> np"
  shows "\<exists>s'. adjust_refs c who fb dp np dc nc s = (Inr (), s')"
proof -
  have ok: "refs_ok s" using pre by (simp add: refs_pre_def)
  show ?thesis
  proof (cases rule: refs_ok_cases [OF ok, of who])
    case 1
    with assms show ?thesis
      by (cases dp; cases np; cases dc; cases nc)
        (auto simp: adjust_refs_def ebind_def eret_def eget_def emod_def eresult_def refs_pre_def refs_ops_defs Let_def
          can_dec_provider_def is_provider_required_def info_ok_def)
  next
    case 2
    with assms show ?thesis
      by (cases dp; cases np; cases dc; cases nc)
        (auto simp: adjust_refs_def ebind_def eret_def eget_def emod_def eresult_def refs_pre_def refs_ops_defs Let_def
          can_dec_provider_def is_provider_required_def info_ok_def)
  qed
qed

lemma try_mutate_account_total:
  assumes "cfg_ok c" and "accounts_inv c s"
    and f: "f (account who s) (account who s = account_data_default) s = (Inr (a, r), s1)"
    and s1: "accounts_inv c s1" "sys_account s1 who = sys_account s who"
    and prov: "ed c \<le> free (account who s) \<and> free a < ed c \<longrightarrow> can_dec_provider who s"
    and cons: "(reserved a \<noteq> 0 \<or> frozen a \<noteq> 0) \<and> \<not> (reserved (account who s) \<noteq> 0 \<or> frozen (account who s) \<noteq> 0) \<longrightarrow>
      fb \<and> ed c \<le> free (account who s) \<and> ed c \<le> free a"
  shows "\<exists>s'. try_mutate_account c who fb f s = (Inr (r, dust_of c a), s')"
proof -
  let ?d = "account who s"
  let ?dp = "ed c \<le> free ?d" and ?dc = "reserved ?d \<noteq> 0 \<or> frozen ?d \<noteq> 0"
  let ?np = "ed c \<le> free a" and ?nc = "reserved a \<noteq> 0 \<or> frozen a \<noteq> 0"
  define m where m_def: "m = (if ?d = account_data_default then None else Some ?d)"
  have info: "get_info who s1 = get_info who s" using s1(2) by (simp add: get_info_def)
  then have acc: "account who s1 = ?d" by (simp add: account_def stored_get_def)
  have pre: "refs_pre c who ?dp ?dc s1"
    using account_inv(3,4) [OF assms(1) s1(1), of who] assms(1) accounts_inv_refs [OF s1(1)]
    by (auto simp: refs_pre_def acc cfg_ok_def)
  have "?dp \<and> \<not> ?np \<longrightarrow> can_dec_provider who s1"
    using prov info by (auto simp: can_dec_provider_def is_provider_required_def providers_def consumers_def)
  from adjust_refs_succeeds [OF pre this cons] obtain s2 where
    adj: "adjust_refs c who fb ?dp ?np ?dc ?nc s1 = (Inr (), s2)" by blast
  have "\<exists>ma en. mutate_maybe_account c who fb f m s = (Inr (ma, en, dust_of c a, r), s2)"
    using f adj unfolding mutate_maybe_account_alt m_def
    by (cases "?d = account_data_default") (auto simp: Let_def ebind_def eret_def dust_of_def)
  then show ?thesis by (auto simp: try_mutate_account_eq [OF assms(1,2) m_def])
qed

lemma try_mutate_account_succeeds:
  assumes "cfg_ok c" and "accounts_inv c s"
    and "f (account who s) (account who s = account_data_default) s = (Inr (a, r), s1)"
    and "accounts_inv c s1" "sys_account s1 who = sys_account s who"
    and "ed c \<le> free (account who s) \<and> free a < ed c \<longrightarrow> can_dec_provider who s"
    and "reserved a \<noteq> 0 \<or> frozen a \<noteq> 0 \<longrightarrow> reserved (account who s) \<noteq> 0 \<or> frozen (account who s) \<noteq> 0"
  shows "\<exists>s'. try_mutate_account c who fb f s = (Inr (r, dust_of c a), s')"
  by (rule try_mutate_account_total [where f = f, OF assms(1-6)]) (use assms(7) in blast)

section \<open>Frames\<close>

lemma bal_fields_event [simp]:
  "total_issuance (deposit_event e s) = total_issuance s"
  "inactive_issuance (deposit_event e s) = inactive_issuance s"
  "locks (deposit_event e s) = locks s" "reserves (deposit_event e s) = reserves s"
  "holds (deposit_event e s) = holds s" "freezes (deposit_event e s) = freezes s"
  by (simp_all add: deposit_event_def)

lemma account_event [simp]: "account who (deposit_event e s) = account who s"
  by (simp add: account_def stored_get_def)

lemma account_update [simp]: "account who (s\<lparr>total_issuance := n\<rparr>) = account who s"
  by (simp add: account_def stored_get_def get_info_def)

lemma accounts_inv_update [simp]: "accounts_inv c (total_issuance_update f s) = accounts_inv c s"
  by (simp add: accounts_inv_def refs_ok_def)

lemma circulating_update [simp]: "circulating (total_issuance_update f s) = circulating s"
  by (simp add: circulating_def)

lemma mutated_balance:
  "mutated c who a s s' \<Longrightarrow> x \<noteq> who \<Longrightarrow> account x s' = account x s"
  by (simp add: mutated_def account_def stored_get_def get_info_def)

lemma mutated_fields:
  assumes "mutated c who a s s'"
  shows "total_issuance s' = total_issuance s" "inactive_issuance s' = inactive_issuance s"
    "locks s' = locks s" "reserves s' = reserves s" "holds s' = holds s" "freezes s' = freezes s"
  using assms more_fields [of s' s] by (simp_all add: mutated_def)

lemma more_lists: "sys_state.more s' = sys_state.more s \<Longrightarrow> same_lists s s'"
  using more_fields [of s' s] by (simp add: same_lists_def)

lemma mutated_lists: "mutated c who a s s' \<Longrightarrow> same_lists s s'"
  using more_lists by (simp add: mutated_def)

lemma lists_frame [simp]:
  "same_lists s (deposit_event e t) = same_lists s t" "same_lists (deposit_event e s) t = same_lists s t"
  "lists_ok (deposit_event e s) = lists_ok s"
  "same_lists s (total_issuance_update f t) = same_lists s t"
  "lists_ok (total_issuance_update f s) = lists_ok s"
  by (simp_all add: same_lists_def lists_ok_def)

end
