(* ===== verification/Fungible.thy ===== *)
theory Fungible
  imports Token_Types
begin

text \<open>
  The default methods of the \<open>fungible\<close> traits
  (\<^verbatim>\<open>substrate/frame/support/src/traits/tokens/fungible/regular.rs\<close>).

  A trait is a record of the methods that its implementor must supply (\<open>fungible_ops\<close>); a default
  method is a definition that takes this record, as \<open>Self\<close> is passed to it in Rust.  The locale
  \<open>fungible_laws\<close> states what the traits promise of the required methods, and the theorems of the
  default methods are proved in it once: every one of them accounts exactly for the tokens that it
  moves.  The balances pallet is an instance of it (theory \<open>Balances\<close>).
\<close>

section \<open>The traits Inspect, Unbalanced, Mutate and Balanced\<close>

record 's fungible_ops =
  fo_total_issuance :: "'s \<Rightarrow> balance"
  fo_minimum_balance :: balance
  fo_balance :: "account_id \<Rightarrow> 's \<Rightarrow> balance"
  fo_reducible_balance :: "account_id \<Rightarrow> preservation \<Rightarrow> fortitude \<Rightarrow> 's \<Rightarrow> balance"
  fo_can_deposit :: "account_id \<Rightarrow> balance \<Rightarrow> provenance \<Rightarrow> 's \<Rightarrow> deposit_consequence"
  fo_can_withdraw :: "account_id \<Rightarrow> balance \<Rightarrow> 's \<Rightarrow> withdraw_consequence"
  fo_handle_dust :: "balance \<Rightarrow> 's \<Rightarrow> 's"
  fo_write_balance :: "account_id \<Rightarrow> balance \<Rightarrow> ('s, dispatch_error, balance option) em"
  fo_set_total_issuance :: "balance \<Rightarrow> 's \<Rightarrow> 's"
  fo_done_mint_into :: "account_id \<Rightarrow> balance \<Rightarrow> 's \<Rightarrow> 's"
  fo_done_burn_from :: "account_id \<Rightarrow> balance \<Rightarrow> 's \<Rightarrow> 's"
  fo_done_shelve :: "account_id \<Rightarrow> balance \<Rightarrow> 's \<Rightarrow> 's"
  fo_done_restore :: "account_id \<Rightarrow> balance \<Rightarrow> 's \<Rightarrow> 's"
  fo_done_transfer :: "account_id \<Rightarrow> account_id \<Rightarrow> balance \<Rightarrow> 's \<Rightarrow> 's"
  fo_done_rescind :: "balance \<Rightarrow> 's \<Rightarrow> 's"
  fo_done_issue :: "balance \<Rightarrow> 's \<Rightarrow> 's"
  fo_done_deposit :: "account_id \<Rightarrow> balance \<Rightarrow> 's \<Rightarrow> 's"
  fo_done_withdraw :: "account_id \<Rightarrow> balance \<Rightarrow> 's \<Rightarrow> 's"
  fo_on_drop_credit :: "balance \<Rightarrow> 's \<Rightarrow> 's"
  fo_on_drop_debt :: "balance \<Rightarrow> 's \<Rightarrow> 's"

section \<open>Default methods of Unbalanced\<close>

definition handle_raw_dust :: "'s fungible_ops \<Rightarrow> balance \<Rightarrow> 's \<Rightarrow> 's" where
  "handle_raw_dust F amount = fo_handle_dust F (min amount (fo_minimum_balance F - 1))"

definition handle_maybe_dust :: "'s fungible_ops \<Rightarrow> balance option \<Rightarrow> 's \<Rightarrow> 's" where
  "handle_maybe_dust F maybe_dust s =
     (case maybe_dust of None \<Rightarrow> s | Some dust \<Rightarrow> fo_handle_dust F dust s)"

definition decrease_balance ::
  "'s fungible_ops \<Rightarrow> account_id \<Rightarrow> balance \<Rightarrow> precision \<Rightarrow> preservation \<Rightarrow> fortitude
     \<Rightarrow> ('s, dispatch_error, balance) em" where
  "decrease_balance F who amount0 precision preservation force =
     ebind (eget (fo_balance F who)) (\<lambda>old_balance.
     ebind (eget (fo_reducible_balance F who preservation force)) (\<lambda>reducible.
     ebind (eensure (precision = BestEffort \<or> reducible \<ge> amount0) (DE_Token TE_FundsUnavailable)) (\<lambda>_.
     let amount = (case precision of BestEffort \<Rightarrow> min amount0 reducible | Exact \<Rightarrow> amount0) in
     ebind (eoption (checked_sub old_balance amount) (DE_Token TE_FundsUnavailable)) (\<lambda>new_balance.
     ebind (fo_write_balance F who new_balance) (\<lambda>maybe_dust.
     ebind (emod (handle_maybe_dust F maybe_dust)) (\<lambda>_.
     eret (old_balance - new_balance)))))))"

definition increase_balance ::
  "'s fungible_ops \<Rightarrow> account_id \<Rightarrow> balance \<Rightarrow> precision \<Rightarrow> ('s, dispatch_error, balance) em" where
  "increase_balance F who amount precision =
     ebind (eget (fo_balance F who)) (\<lambda>old_balance.
     ebind (if precision = BestEffort then eret (sat_add u128_max old_balance amount)
            else eoption (checked_add u128_max old_balance amount) (DE_Arithmetic AE_Overflow))
       (\<lambda>new_balance.
     if new_balance < fo_minimum_balance F
     then (if precision = BestEffort then eret 0 else ethrow (DE_Token TE_BelowMinimum))
     else if new_balance = old_balance then eret 0
     else
       ebind (fo_write_balance F who new_balance) (\<lambda>maybe_dust.
       ebind (emod (handle_maybe_dust F maybe_dust)) (\<lambda>_.
       eret (new_balance - old_balance)))))"

section \<open>Default methods of Mutate\<close>

definition mint_into ::
  "'s fungible_ops \<Rightarrow> account_id \<Rightarrow> balance \<Rightarrow> ('s, dispatch_error, balance) em" where
  "mint_into F who amount =
     ebind (eget (fo_total_issuance F)) (\<lambda>ti.
     ebind (eoption (checked_add u128_max ti amount) (DE_Arithmetic AE_Overflow)) (\<lambda>_.
     ebind (increase_balance F who amount Exact) (\<lambda>actual.
     ebind (eget (fo_total_issuance F)) (\<lambda>ti'.
     ebind (emod (fo_set_total_issuance F (sat_add u128_max ti' actual))) (\<lambda>_.
     ebind (emod (fo_done_mint_into F who amount)) (\<lambda>_.
     eret actual))))))"

definition burn_from ::
  "'s fungible_ops \<Rightarrow> account_id \<Rightarrow> balance \<Rightarrow> preservation \<Rightarrow> precision \<Rightarrow> fortitude
     \<Rightarrow> ('s, dispatch_error, balance) em" where
  "burn_from F who amount preservation precision force =
     ebind (eget (fo_reducible_balance F who preservation force)) (\<lambda>reducible.
     let actual = min reducible amount in
     ebind (eensure (actual = amount \<or> precision = BestEffort) (DE_Token TE_FundsUnavailable)) (\<lambda>_.
     ebind (eget (fo_total_issuance F)) (\<lambda>ti.
     ebind (eoption (checked_sub ti actual) (DE_Arithmetic AE_Overflow)) (\<lambda>_.
     ebind (decrease_balance F who actual BestEffort preservation force) (\<lambda>actual'.
     ebind (eget (fo_total_issuance F)) (\<lambda>ti'.
     ebind (emod (fo_set_total_issuance F (ti' - actual'))) (\<lambda>_.
     ebind (emod (fo_done_burn_from F who actual')) (\<lambda>_.
     eret actual'))))))))"

definition shelve ::
  "'s fungible_ops \<Rightarrow> account_id \<Rightarrow> balance \<Rightarrow> ('s, dispatch_error, balance) em" where
  "shelve F who amount =
     ebind (eget (fo_reducible_balance F who Expendable Polite)) (\<lambda>reducible.
     let actual = min reducible amount in
     ebind (eensure (actual = amount) (DE_Token TE_FundsUnavailable)) (\<lambda>_.
     ebind (eget (fo_total_issuance F)) (\<lambda>ti.
     ebind (eoption (checked_sub ti actual) (DE_Arithmetic AE_Overflow)) (\<lambda>_.
     ebind (decrease_balance F who actual BestEffort Expendable Polite) (\<lambda>actual'.
     ebind (eget (fo_total_issuance F)) (\<lambda>ti'.
     ebind (emod (fo_set_total_issuance F (ti' - actual'))) (\<lambda>_.
     ebind (emod (fo_done_shelve F who actual')) (\<lambda>_.
     eret actual'))))))))"

definition restore ::
  "'s fungible_ops \<Rightarrow> account_id \<Rightarrow> balance \<Rightarrow> ('s, dispatch_error, balance) em" where
  "restore F who amount =
     ebind (eget (fo_total_issuance F)) (\<lambda>ti.
     ebind (eoption (checked_add u128_max ti amount) (DE_Arithmetic AE_Overflow)) (\<lambda>_.
     ebind (increase_balance F who amount Exact) (\<lambda>actual.
     ebind (eget (fo_total_issuance F)) (\<lambda>ti'.
     ebind (emod (fo_set_total_issuance F (sat_add u128_max ti' actual))) (\<lambda>_.
     ebind (emod (fo_done_restore F who amount)) (\<lambda>_.
     eret actual))))))"

definition transfer ::
  "'s fungible_ops \<Rightarrow> account_id \<Rightarrow> account_id \<Rightarrow> balance \<Rightarrow> preservation
     \<Rightarrow> ('s, dispatch_error, balance) em" where
  "transfer F source dest amount preservation =
     ebind (eget (fo_can_withdraw F source amount)) (\<lambda>wc.
     ebind (esum (withdraw_into_result wc (preservation \<noteq> Expendable))) (\<lambda>_.
     ebind (eget (fo_can_deposit F dest amount Extant)) (\<lambda>dc.
     ebind (esum (deposit_into_result dc)) (\<lambda>_.
     if source = dest then eret amount
     else
       ebind (decrease_balance F source amount BestEffort preservation Polite) (\<lambda>_.
       ebind (eresult (increase_balance F dest amount BestEffort)) (\<lambda>_.
       ebind (emod (fo_done_transfer F source dest amount)) (\<lambda>_.
       eret amount)))))))"

definition set_balance ::
  "'s fungible_ops \<Rightarrow> account_id \<Rightarrow> balance \<Rightarrow> 's \<Rightarrow> balance \<times> 's" where
  "set_balance F who amount s =
     (let b = fo_balance F who s in
      if b > amount
      then (case burn_from F who (b - amount) Expendable BestEffort Force s of
              (Inr d, s') \<Rightarrow> (b - d, s') | (Inl _, s') \<Rightarrow> (b, s'))
      else (case mint_into F who (amount - b) s of
              (Inr d, s') \<Rightarrow> (sat_add u128_max b d, s') | (Inl _, s') \<Rightarrow> (b, s')))"

section \<open>Default methods of Balanced\<close>

text \<open>
  An imbalance that goes out of scope is dropped, and dropping a nonzero one calls its handler
  (\<^verbatim>\<open>fungible/imbalance.rs\<close>).
\<close>

definition drop_credit :: "'s fungible_ops \<Rightarrow> credit \<Rightarrow> 's \<Rightarrow> 's" where
  "drop_credit F c s = (if credit_peek c \<noteq> 0 then fo_on_drop_credit F (credit_peek c) s else s)"

definition drop_debt :: "'s fungible_ops \<Rightarrow> debt \<Rightarrow> 's \<Rightarrow> 's" where
  "drop_debt F d s = (if debt_peek d \<noteq> 0 then fo_on_drop_debt F (debt_peek d) s else s)"

definition rescind :: "'s fungible_ops \<Rightarrow> balance \<Rightarrow> 's \<Rightarrow> debt \<times> 's" where
  "rescind F amount s =
     (let old = fo_total_issuance F s;
          new = old - amount;
          s1 = fo_set_total_issuance F new s;
          delta = old - new
      in (Debt delta, fo_done_rescind F delta s1))"

definition issue :: "'s fungible_ops \<Rightarrow> balance \<Rightarrow> 's \<Rightarrow> credit \<times> 's" where
  "issue F amount s =
     (let old = fo_total_issuance F s;
          new = sat_add u128_max old amount;
          s1 = fo_set_total_issuance F new s;
          delta = new - old
      in (Credit delta, fo_done_issue F delta s1))"

definition pair_imbalances ::
  "'s fungible_ops \<Rightarrow> balance \<Rightarrow> ('s, dispatch_error, debt \<times> credit) em" where
  "pair_imbalances F amount =
     ebind (elift (issue F amount)) (\<lambda>issued.
     ebind (elift (rescind F amount)) (\<lambda>rescinded.
     if credit_peek issued \<noteq> debt_peek rescinded \<or> credit_peek issued \<noteq> amount
     then ebind (emod (drop_debt F rescinded)) (\<lambda>_.
          ebind (emod (drop_credit F issued)) (\<lambda>_.
          ethrow (DE_Other ''Failed to issue and rescind equal amounts'')))
     else eret (rescinded, issued)))"

definition deposit ::
  "'s fungible_ops \<Rightarrow> account_id \<Rightarrow> balance \<Rightarrow> precision \<Rightarrow> ('s, dispatch_error, debt) em" where
  "deposit F who value precision =
     ebind (increase_balance F who value precision) (\<lambda>increase.
     ebind (emod (fo_done_deposit F who increase)) (\<lambda>_.
     eret (Debt increase)))"

definition withdraw ::
  "'s fungible_ops \<Rightarrow> account_id \<Rightarrow> balance \<Rightarrow> precision \<Rightarrow> preservation \<Rightarrow> fortitude
     \<Rightarrow> ('s, dispatch_error, credit) em" where
  "withdraw F who value precision preservation force =
     ebind (decrease_balance F who value precision preservation force) (\<lambda>decrease.
     ebind (emod (fo_done_withdraw F who decrease)) (\<lambda>_.
     eret (Credit decrease)))"

text \<open>
  \<open>resolve\<close> gives the credit back on failure.  After a success the offset of the credit and the debt
  is dropped by \<open>try_drop\<close>; a nonzero rest would run its handler.
\<close>

definition resolve :: "'s fungible_ops \<Rightarrow> account_id \<Rightarrow> credit \<Rightarrow> ('s, credit, unit) em" where
  "resolve F who c s =
     (case deposit F who (credit_peek c) Exact s of
        (Inl _, s1) \<Rightarrow> (Inl c, s1)
      | (Inr d, s1) \<Rightarrow>
          (Inr (),
           (case imbalance_offset (credit_peek c) (debt_peek d) of
              SO_None \<Rightarrow> s1
            | SO_Same x \<Rightarrow> drop_credit F (Credit x) s1
            | SO_Other y \<Rightarrow> drop_debt F (Debt y) s1)))"

definition settle ::
  "'s fungible_ops \<Rightarrow> account_id \<Rightarrow> debt \<Rightarrow> preservation \<Rightarrow> ('s, debt, credit) em" where
  "settle F who d preservation s =
     (case withdraw F who (debt_peek d) Exact preservation Polite s of
        (Inl _, s1) \<Rightarrow> (Inl d, s1)
      | (Inr c, s1) \<Rightarrow>
          (case imbalance_offset (credit_peek c) (debt_peek d) of
             SO_None \<Rightarrow> (Inr (Credit 0), s1)
           | SO_Same dust \<Rightarrow> (Inr (Credit dust), s1)
           | SO_Other rest \<Rightarrow> (Inl (Debt rest), s1)))"


section \<open>What the traits promise\<close>

text \<open>
  \<open>circulating\<close> is the sum of all balances of the implementor.  The gap between the recorded total
  issuance and this sum is the total of the imbalances in circulation: credits count positive,
  debts negative.
\<close>

definition gap :: "'s fungible_ops \<Rightarrow> ('s \<Rightarrow> nat) \<Rightarrow> 's \<Rightarrow> int" where
  "gap F circulating s = int (fo_total_issuance F s) - int (circulating s)"

definition token_frame :: "'s fungible_ops \<Rightarrow> ('s \<Rightarrow> bool) \<Rightarrow> ('s \<Rightarrow> nat) \<Rightarrow> 's \<Rightarrow> 's \<Rightarrow> bool" where
  "token_frame F I circulating s s' \<longleftrightarrow>
     (I s \<longrightarrow> I s' \<and> fo_total_issuance F s' = fo_total_issuance F s \<and> circulating s' = circulating s \<and>
              (\<forall>x. fo_balance F x s' = fo_balance F x s))"


section \<open>Runs of the default methods\<close>

lemma decrease_balance_InrE:
  assumes "decrease_balance F who a p v f s = (Inr r, s')"
  obtains d s1 where "r \<le> fo_balance F who s"
    and "r = (case p of BestEffort \<Rightarrow> min a (fo_reducible_balance F who v f s) | Exact \<Rightarrow> a)"
    and "r \<le> fo_reducible_balance F who v f s"
    and "fo_write_balance F who (fo_balance F who s - r) s = (Inr d, s1)"
    and "s' = handle_maybe_dust F d s1"
  using assms by (cases p) (auto simp: decrease_balance_def Let_def split: if_splits)

lemma decrease_balance_InlE:
  assumes "decrease_balance F who a p v f s = (Inl e, s')"
  obtains "s' = s" | amt where "fo_write_balance F who amt s = (Inl e, s')"
  using assms
  by (cases p) (auto simp: decrease_balance_def Let_def ebind_Inl_iff split: if_splits option.splits)

lemma increase_balance_InrE:
  assumes "increase_balance F who a p s = (Inr r, s')"
  obtains "r = 0" "s' = s" "p = BestEffort" "sat_add u128_max (fo_balance F who s) a < fo_minimum_balance F"
  | "r = 0" "s' = s" "fo_balance F who s = (case p of BestEffort \<Rightarrow> sat_add u128_max (fo_balance F who s) a | Exact \<Rightarrow> fo_balance F who s + a)"
  | new d s1 where "new = (case p of BestEffort \<Rightarrow> sat_add u128_max (fo_balance F who s) a | Exact \<Rightarrow> fo_balance F who s + a)"
    "new \<le> u128_max" "fo_minimum_balance F \<le> new" "new \<noteq> fo_balance F who s"
    "fo_write_balance F who new s = (Inr d, s1)" "s' = handle_maybe_dust F d s1"
    "r = new - fo_balance F who s"
  using assms
  by (cases p) (auto simp: increase_balance_def not_less split: if_splits option.splits)

lemma increase_balance_InlE:
  assumes "increase_balance F who a p s = (Inl e, s')"
  obtains "s' = s" "p = Exact"
  | new where "new = (case p of BestEffort \<Rightarrow> sat_add u128_max (fo_balance F who s) a | Exact \<Rightarrow> fo_balance F who s + a)"
    "new \<le> u128_max" "fo_minimum_balance F \<le> new" "new \<noteq> fo_balance F who s"
    "fo_write_balance F who new s = (Inl e, s')"
  using assms
  by (cases p) (auto simp: increase_balance_def ebind_Inl_iff not_less split: if_splits option.splits)

locale fungible_laws =
  fixes ops :: "'c \<Rightarrow> 's fungible_ops"
    and inv :: "'c \<Rightarrow> 's \<Rightarrow> bool"
    and circulating :: "'s \<Rightarrow> nat"
  assumes issuance_bound: "inv c s \<Longrightarrow> fo_total_issuance (ops c) s \<le> u128_max"
    and balance_bound: "inv c s \<Longrightarrow> fo_balance (ops c) who s \<le> u128_max"
    and balance_le_supply: "inv c s \<Longrightarrow> fo_balance (ops c) who s \<le> circulating s"
    and reducible_le: "inv c s \<Longrightarrow> fo_reducible_balance (ops c) who p f s \<le> fo_balance (ops c) who s"
    and can_withdraw_ok:
      "inv c s \<Longrightarrow>
       withdraw_into_result (fo_can_withdraw (ops c) who amt s) (p \<noteq> Expendable) = Inr x \<Longrightarrow>
       amt \<le> fo_reducible_balance (ops c) who p Polite s"
    and can_deposit_ok:
      "inv c s \<Longrightarrow> fo_can_deposit (ops c) who amt Extant s = DC_Success \<Longrightarrow> amt \<noteq> 0 \<Longrightarrow>
       fo_balance (ops c) who s + amt \<le> u128_max \<and>
       fo_minimum_balance (ops c) \<le> fo_balance (ops c) who s + amt"
    and write_ok:
      "inv c s \<Longrightarrow> amt \<le> u128_max \<Longrightarrow> fo_write_balance (ops c) who amt s = (Inr d, s') \<Longrightarrow>
       inv c s' \<and> fo_total_issuance (ops c) s' = fo_total_issuance (ops c) s \<and>
       circulating s' + fo_balance (ops c) who s + opt_val id d = circulating s + amt \<and>
       fo_balance (ops c) who s' = amt - opt_val id d \<and>
       (\<forall>x. x \<noteq> who \<longrightarrow> fo_balance (ops c) x s' = fo_balance (ops c) x s) \<and>
       (\<forall>v. d = Some v \<longrightarrow> v = amt \<and> amt < fo_minimum_balance (ops c))"
    and write_err:
      "inv c s \<Longrightarrow> fo_write_balance (ops c) who amt s = (Inl e, s') \<Longrightarrow>
       token_frame (ops c) (inv c) circulating s s'"
    and write_increase_ok:
      "inv c s \<Longrightarrow> amt \<le> u128_max \<Longrightarrow> fo_balance (ops c) who s < amt \<Longrightarrow>
       fo_minimum_balance (ops c) \<le> amt \<Longrightarrow>
       \<exists>s'. fo_write_balance (ops c) who amt s = (Inr None, s')"
    and handle_dust_ok:
      "inv c s \<Longrightarrow> int du \<le> gap (ops c) circulating s \<Longrightarrow>
       inv c (fo_handle_dust (ops c) du s) \<and>
       gap (ops c) circulating (fo_handle_dust (ops c) du s) = gap (ops c) circulating s - int du \<and>
       fo_balance (ops c) who s \<le> fo_balance (ops c) who (fo_handle_dust (ops c) du s)"
    and set_issuance_ok:
      "inv c s \<Longrightarrow> amt \<le> u128_max \<Longrightarrow>
       inv c (fo_set_total_issuance (ops c) amt s) \<and>
       fo_total_issuance (ops c) (fo_set_total_issuance (ops c) amt s) = amt \<and>
       circulating (fo_set_total_issuance (ops c) amt s) = circulating s \<and>
       fo_balance (ops c) who (fo_set_total_issuance (ops c) amt s) = fo_balance (ops c) who s"
    and on_drop_credit_ok:
      "inv c s \<Longrightarrow>
       inv c (fo_on_drop_credit (ops c) amt s) \<and>
       fo_total_issuance (ops c) (fo_on_drop_credit (ops c) amt s) = fo_total_issuance (ops c) s - amt \<and>
       circulating (fo_on_drop_credit (ops c) amt s) = circulating s"
    and on_drop_debt_ok:
      "inv c s \<Longrightarrow>
       inv c (fo_on_drop_debt (ops c) amt s) \<and>
       fo_total_issuance (ops c) (fo_on_drop_debt (ops c) amt s)
         = sat_add u128_max (fo_total_issuance (ops c) s) amt \<and>
       circulating (fo_on_drop_debt (ops c) amt s) = circulating s"
    and hooks_frame:
      "token_frame (ops c) (inv c) circulating s (fo_done_mint_into (ops c) who amt s)"
      "token_frame (ops c) (inv c) circulating s (fo_done_burn_from (ops c) who amt s)"
      "token_frame (ops c) (inv c) circulating s (fo_done_shelve (ops c) who amt s)"
      "token_frame (ops c) (inv c) circulating s (fo_done_restore (ops c) who amt s)"
      "token_frame (ops c) (inv c) circulating s (fo_done_transfer (ops c) who dest amt s)"
      "token_frame (ops c) (inv c) circulating s (fo_done_rescind (ops c) amt s)"
      "token_frame (ops c) (inv c) circulating s (fo_done_issue (ops c) amt s)"
      "token_frame (ops c) (inv c) circulating s (fo_done_deposit (ops c) who amt s)"
      "token_frame (ops c) (inv c) circulating s (fo_done_withdraw (ops c) who amt s)"
begin

lemma handle_maybe_dust_ok:
  assumes "inv c s" and "int (opt_val id d) \<le> gap (ops c) circulating s"
  shows "inv c (handle_maybe_dust (ops c) d s)"
    and "gap (ops c) circulating (handle_maybe_dust (ops c) d s)
           = gap (ops c) circulating s - int (opt_val id d)"
    and "fo_balance (ops c) who s \<le> fo_balance (ops c) who (handle_maybe_dust (ops c) d s)"
  using assms handle_dust_ok by (cases d; auto simp: handle_maybe_dust_def)+

text \<open>
  \<open>decrease_balance\<close> returns the amount by which the gap grows: the caller holds a credit for it.
  The dust that the write may leave is destroyed and is not part of the returned amount.
\<close>

lemma decrease_ok:
  assumes "inv c s" and "0 \<le> gap (ops c) circulating s"
    and run: "decrease_balance (ops c) who a p v f s = (Inr r, s')"
  shows "inv c s'" and "gap (ops c) circulating s' = gap (ops c) circulating s + int r"
    and "x \<noteq> who \<Longrightarrow> fo_balance (ops c) x s \<le> fo_balance (ops c) x s'"
proof -
  from run obtain d s1 where r: "r \<le> fo_balance (ops c) who s"
    and w: "fo_write_balance (ops c) who (fo_balance (ops c) who s - r) s = (Inr d, s1)"
    and s': "s' = handle_maybe_dust (ops c) d s1"
    by (rule decrease_balance_InrE)
  have "fo_balance (ops c) who s - r \<le> u128_max"
    using balance_bound [OF \<open>inv c s\<close>, of who] by linarith
  note W = write_ok [OF \<open>inv c s\<close> this w]
  have g1: "gap (ops c) circulating s1 = gap (ops c) circulating s + int r + int (opt_val id d)"
    using W r by (auto simp: gap_def)
  with assms(2) have "int (opt_val id d) \<le> gap (ops c) circulating s1" by simp
  note D = handle_maybe_dust_ok [OF _ this]
  show "inv c s'" and "gap (ops c) circulating s' = gap (ops c) circulating s + int r"
    using D(1,2) W g1 s' by auto
  show "x \<noteq> who \<Longrightarrow> fo_balance (ops c) x s \<le> fo_balance (ops c) x s'"
    using D(3) [of x] W s' by auto
qed

text \<open>A decrease that leaves the minimum leaves no dust.\<close>

lemma decrease_keeps:
  assumes "inv c s" and run: "decrease_balance (ops c) who a p v f s = (Inr r, s')"
    and min: "fo_minimum_balance (ops c) \<le> fo_balance (ops c) who s - r"
  shows "fo_balance (ops c) x s' = (if x = who then fo_balance (ops c) who s - r else fo_balance (ops c) x s)"
    and "fo_total_issuance (ops c) s' = fo_total_issuance (ops c) s"
proof -
  from run obtain d s1 where w: "fo_write_balance (ops c) who (fo_balance (ops c) who s - r) s = (Inr d, s1)"
    and s': "s' = handle_maybe_dust (ops c) d s1"
    by (rule decrease_balance_InrE)
  have "fo_balance (ops c) who s - r \<le> u128_max" using balance_bound [OF \<open>inv c s\<close>, of who] by linarith
  note W = write_ok [OF \<open>inv c s\<close> this w]
  then have "d = None" using min by (cases d) auto
  with W s' show "fo_balance (ops c) x s' = (if x = who then fo_balance (ops c) who s - r else fo_balance (ops c) x s)"
    "fo_total_issuance (ops c) s' = fo_total_issuance (ops c) s" by (auto simp: handle_maybe_dust_def)
qed

lemma decrease_err:
  assumes "inv c s" and "decrease_balance (ops c) who a p v f s = (Inl e, s')"
  shows "token_frame (ops c) (inv c) circulating s s'"
  using assms(2) by (rule decrease_balance_InlE) (use assms(1) write_err in \<open>auto simp: token_frame_def\<close>)

lemma increase_ok:
  assumes "inv c s" and run: "increase_balance (ops c) who a p s = (Inr r, s')"
  shows "inv c s'" and "gap (ops c) circulating s' = gap (ops c) circulating s - int r"
    and "fo_balance (ops c) who s' = fo_balance (ops c) who s + r" and "r \<le> a"
    and "p = Exact \<Longrightarrow> r = a" and "x \<noteq> who \<Longrightarrow> fo_balance (ops c) x s' = fo_balance (ops c) x s"
    and "fo_total_issuance (ops c) s' = fo_total_issuance (ops c) s"
proof -
  have "inv c s' \<and> gap (ops c) circulating s' = gap (ops c) circulating s - int r \<and>
        fo_balance (ops c) who s' = fo_balance (ops c) who s + r \<and> r \<le> a \<and> (p = Exact \<longrightarrow> r = a) \<and>
        (x \<noteq> who \<longrightarrow> fo_balance (ops c) x s' = fo_balance (ops c) x s) \<and>
        fo_total_issuance (ops c) s' = fo_total_issuance (ops c) s"
    using run
  proof (cases rule: increase_balance_InrE)
    case (3 new d s1)
    note W = write_ok [OF \<open>inv c s\<close> 3(2,5)]
    have "fo_balance (ops c) who s \<le> new"
      using 3(1) balance_bound [OF \<open>inv c s\<close>, of who] by (cases p) (auto simp: sat_add_def)
    moreover have "new \<le> fo_balance (ops c) who s + a"
      using 3(1) by (cases p) (auto simp: sat_add_def)
    moreover have "d = None" using W 3(3) by (cases d) auto
    ultimately show ?thesis
      using W 3 by (auto simp: gap_def handle_maybe_dust_def)
  qed (use assms(1) in \<open>auto split: precision.splits\<close>)
  then show "inv c s'" and "gap (ops c) circulating s' = gap (ops c) circulating s - int r"
    and "fo_balance (ops c) who s' = fo_balance (ops c) who s + r" and "r \<le> a"
    and "p = Exact \<Longrightarrow> r = a" and "x \<noteq> who \<Longrightarrow> fo_balance (ops c) x s' = fo_balance (ops c) x s"
    and "fo_total_issuance (ops c) s' = fo_total_issuance (ops c) s"
    by blast+
qed

lemma increase_err:
  assumes "inv c s" and "increase_balance (ops c) who a p s = (Inl e, s')"
  shows "token_frame (ops c) (inv c) circulating s s'"
  using assms(2) by (cases rule: increase_balance_InlE) (use assms(1) write_err in \<open>auto simp: token_frame_def\<close>)

text \<open>A best-effort increase to at least the minimum balance does not fail.\<close>

lemma increase_succeeds:
  assumes "inv c s" and "fo_balance (ops c) who s + a \<le> u128_max"
    and "a \<noteq> 0 \<Longrightarrow> fo_minimum_balance (ops c) \<le> fo_balance (ops c) who s + a"
  obtains s' where "increase_balance (ops c) who a BestEffort s = (Inr a, s')"
proof (cases "a = 0")
  case True
  then have "increase_balance (ops c) who a BestEffort s = (Inr a, s)"
    using assms(2) by (simp add: increase_balance_def ebind_def eget_def eret_def)
  then show ?thesis by (rule that)
next
  case False
  then obtain s' where "fo_write_balance (ops c) who (fo_balance (ops c) who s + a) s = (Inr None, s')"
    using write_increase_ok [OF assms(1,2), of who] assms(3) by auto
  with False assms have "increase_balance (ops c) who a BestEffort s = (Inr a, s')"
    by (simp add: increase_balance_def ebind_def eget_def eret_def emod_def handle_maybe_dust_def)
  then show ?thesis by (rule that)
qed

end

section \<open>The default methods account for every token\<close>

context fungible_laws
begin

lemma gap_set_issuance:
  assumes "inv c s" and "amt \<le> u128_max"
  shows "gap (ops c) circulating (fo_set_total_issuance (ops c) amt s)
    = gap (ops c) circulating s + int amt - int (fo_total_issuance (ops c) s)"
  using set_issuance_ok [OF assms] by (simp add: gap_def)

lemma frame_gap:
  assumes "token_frame (ops c) (inv c) circulating s s'" and "inv c s"
  shows "inv c s'" and "gap (ops c) circulating s' = gap (ops c) circulating s"
    and "fo_total_issuance (ops c) s' = fo_total_issuance (ops c) s"
    and "fo_balance (ops c) x s' = fo_balance (ops c) x s"
  using assms by (auto simp: token_frame_def gap_def)

lemma frame_refl [simp]: "token_frame (ops c) (inv c) circulating s s"
  by (simp add: token_frame_def)

text \<open>Issuance that is set to what was recorded plus the amount minted, as \<open>mint_into\<close> and \<open>restore\<close> do.\<close>

lemma issue_into_ok:
  assumes "inv c s" and "fo_total_issuance (ops c) s + a \<le> u128_max"
    and inc: "increase_balance (ops c) who a Exact s = (Inr r, s1)"
    and s2: "s2 = fo_set_total_issuance (ops c) (sat_add u128_max (fo_total_issuance (ops c) s1) r) s1"
    and fr: "\<And>t. token_frame (ops c) (inv c) circulating t (h t)"
  shows "r = a" and "inv c (h s2)"
    and "gap (ops c) circulating (h s2) = gap (ops c) circulating s"
    and "fo_balance (ops c) who (h s2) = fo_balance (ops c) who s + a"
    and "fo_total_issuance (ops c) (h s2) = fo_total_issuance (ops c) s + a"
    and "x \<noteq> who \<Longrightarrow> fo_balance (ops c) x (h s2) = fo_balance (ops c) x s"
proof -
  note I = increase_ok [OF assms(1) inc]
  show r: "r = a" using I(5) by simp
  have ti: "sat_add u128_max (fo_total_issuance (ops c) s1) r = fo_total_issuance (ops c) s + a"
    using I(7) r assms(2) by simp
  note S = set_issuance_ok [OF I(1), of "fo_total_issuance (ops c) s + a"]
  have s2i: "inv c s2" using S assms(2) s2 ti by simp
  note H = frame_gap [OF fr [of s2] s2i]
  show "inv c (h s2)" by (rule H)
  show "gap (ops c) circulating (h s2) = gap (ops c) circulating s"
    using gap_set_issuance [OF I(1) assms(2)] H(2) I(2,7) r s2 ti by simp
  show "fo_total_issuance (ops c) (h s2) = fo_total_issuance (ops c) s + a"
    using S assms(2) s2 ti H(3) by simp
  show "fo_balance (ops c) who (h s2) = fo_balance (ops c) who s + a"
    using S [THEN conjunct2, THEN conjunct2, THEN conjunct2] assms(2) H(4) I(3) r s2 ti by simp
  show "x \<noteq> who \<Longrightarrow> fo_balance (ops c) x (h s2) = fo_balance (ops c) x s"
    using set_issuance_ok [OF I(1) assms(2), of x] H(4) [of x] I(6) [of x] s2 ti by simp
qed

lemma mint_into_ok:
  assumes "inv c s" and run: "mint_into (ops c) who a s = (Inr r, s')"
  shows "r = a" and "inv c s'" and "gap (ops c) circulating s' = gap (ops c) circulating s"
    and "fo_balance (ops c) who s' = fo_balance (ops c) who s + a"
    and "fo_total_issuance (ops c) s' = fo_total_issuance (ops c) s + a"
    and "x \<noteq> who \<Longrightarrow> fo_balance (ops c) x s' = fo_balance (ops c) x s"
proof -
  from run obtain s1 where ov: "fo_total_issuance (ops c) s + a \<le> u128_max"
    and inc: "increase_balance (ops c) who a Exact s = (Inr r, s1)"
    and s': "s' = fo_done_mint_into (ops c) who a
        (fo_set_total_issuance (ops c) (sat_add u128_max (fo_total_issuance (ops c) s1) r) s1)"
    by (auto simp: mint_into_def)
  note M = issue_into_ok [OF assms(1) ov inc refl hooks_frame(1) [where who = who and amt = a], folded s']
  show "r = a" and "inv c s'" and "gap (ops c) circulating s' = gap (ops c) circulating s"
    and "fo_balance (ops c) who s' = fo_balance (ops c) who s + a"
    and "fo_total_issuance (ops c) s' = fo_total_issuance (ops c) s + a"
    and "x \<noteq> who \<Longrightarrow> fo_balance (ops c) x s' = fo_balance (ops c) x s"
    by (rule M; assumption)+
qed

lemma restore_ok:
  assumes "inv c s" and run: "restore (ops c) who a s = (Inr r, s')"
  shows "r = a" and "inv c s'" and "gap (ops c) circulating s' = gap (ops c) circulating s"
proof -
  from run obtain s1 where ov: "fo_total_issuance (ops c) s + a \<le> u128_max"
    and inc: "increase_balance (ops c) who a Exact s = (Inr r, s1)"
    and s': "s' = fo_done_restore (ops c) who a
        (fo_set_total_issuance (ops c) (sat_add u128_max (fo_total_issuance (ops c) s1) r) s1)"
    by (auto simp: restore_def)
  note M = issue_into_ok [OF assms(1) ov inc refl hooks_frame(4) [where who = who and amt = a], folded s']
  show "r = a" and "inv c s'" and "gap (ops c) circulating s' = gap (ops c) circulating s"
    by (rule M)+
qed

lemma mint_into_err:
  assumes "inv c s" and "mint_into (ops c) who a s = (Inl e, s')"
  shows "token_frame (ops c) (inv c) circulating s s'"
  using assms(2) increase_err [OF assms(1)] by (auto simp: mint_into_def ebind_Inl_iff)

lemma restore_err:
  assumes "inv c s" and "restore (ops c) who a s = (Inl e, s')"
  shows "token_frame (ops c) (inv c) circulating s s'"
  using assms(2) increase_err [OF assms(1)] by (auto simp: restore_def ebind_Inl_iff)

text \<open>Issuance that is reduced by what was taken from an account, as \<open>burn_from\<close> and \<open>shelve\<close> do.\<close>

lemma rescind_from_ok:
  assumes "inv c s" and "0 \<le> gap (ops c) circulating s"
    and dec: "decrease_balance (ops c) who a BestEffort v f s = (Inr r, s1)"
    and s2: "s2 = fo_set_total_issuance (ops c) (fo_total_issuance (ops c) s1 - r) s1"
    and fr: "\<And>t. token_frame (ops c) (inv c) circulating t (h t)"
  shows "inv c (h s2)" and "gap (ops c) circulating (h s2) = gap (ops c) circulating s"
    and "r = min a (fo_reducible_balance (ops c) who v f s)"
proof -
  note D = decrease_ok [OF assms(1,2) dec]
  have le: "fo_total_issuance (ops c) s1 - r \<le> u128_max"
    using issuance_bound [OF D(1)] by linarith
  have r_le: "r \<le> fo_total_issuance (ops c) s1"
    using D(2) assms(2) by (simp add: gap_def)
  have s2i: "inv c s2" using set_issuance_ok [OF D(1) le] s2 by simp
  note H = frame_gap [OF fr [of s2] s2i]
  show "inv c (h s2)" by (rule H)
  show "gap (ops c) circulating (h s2) = gap (ops c) circulating s"
    using gap_set_issuance [OF D(1) le] H(2) D(2) s2 r_le by simp
  show "r = min a (fo_reducible_balance (ops c) who v f s)"
    using dec by (rule decrease_balance_InrE) simp
qed

lemma burn_from_ok:
  assumes "inv c s" and "0 \<le> gap (ops c) circulating s"
    and run: "burn_from (ops c) who a v p f s = (Inr r, s')"
  shows "inv c s'" and "gap (ops c) circulating s' = gap (ops c) circulating s"
    and "r = min a (fo_reducible_balance (ops c) who v f s)" and "p = Exact \<Longrightarrow> r = a"
proof -
  let ?R = "fo_reducible_balance (ops c) who v f s"
  from run obtain s1 where ex: "min ?R a = a \<or> p = BestEffort"
    and dec: "decrease_balance (ops c) who (min ?R a) BestEffort v f s = (Inr r, s1)"
    and s': "s' = fo_done_burn_from (ops c) who r
        (fo_set_total_issuance (ops c) (fo_total_issuance (ops c) s1 - r) s1)"
    by (auto simp: burn_from_def Let_def)
  note M = rescind_from_ok [OF assms(1,2) dec refl hooks_frame(2) [where who = who and amt = r], folded s']
  show "inv c s'" and "gap (ops c) circulating s' = gap (ops c) circulating s"
    by (rule M)+
  show r: "r = min a ?R" using M(3) by (simp add: min.commute)
  show "p = Exact \<Longrightarrow> r = a" using ex r by (auto simp: min.commute)
qed

lemma burn_from_err:
  assumes "inv c s" and "burn_from (ops c) who a v p f s = (Inl e, s')"
  shows "token_frame (ops c) (inv c) circulating s s'"
  using assms(2) decrease_err [OF assms(1)] by (auto simp: burn_from_def Let_def ebind_Inl_iff)

lemma shelve_ok:
  assumes "inv c s" and "0 \<le> gap (ops c) circulating s"
    and run: "shelve (ops c) who a s = (Inr r, s')"
  shows "inv c s'" and "gap (ops c) circulating s' = gap (ops c) circulating s" and "r = a"
proof -
  let ?R = "fo_reducible_balance (ops c) who Expendable Polite s"
  from run obtain s1 where ex: "min ?R a = a"
    and dec: "decrease_balance (ops c) who (min ?R a) BestEffort Expendable Polite s = (Inr r, s1)"
    and s': "s' = fo_done_shelve (ops c) who r
        (fo_set_total_issuance (ops c) (fo_total_issuance (ops c) s1 - r) s1)"
    by (auto simp: shelve_def Let_def)
  note M = rescind_from_ok [OF assms(1,2) dec refl hooks_frame(3) [where who = who and amt = r], folded s']
  show "inv c s'" and "gap (ops c) circulating s' = gap (ops c) circulating s"
    by (rule M)+
  show "r = a" using M(3) ex by (simp add: min.commute)
qed

lemma shelve_err:
  assumes "inv c s" and "shelve (ops c) who a s = (Inl e, s')"
  shows "token_frame (ops c) (inv c) circulating s s'"
  using assms(2) decrease_err [OF assms(1)] by (auto simp: shelve_def Let_def ebind_Inl_iff)

text \<open>
  A transfer moves exactly the amount: the best-effort cap of \<open>decrease_balance\<close> never takes effect,
  and the increase of the destination, whose result the code ignores, never fails.
\<close>

lemma transfer_run:
  assumes "inv c s" and "0 \<le> gap (ops c) circulating s"
    and run: "transfer (ops c) src dest a v s = (Inr r, s')" and "src \<noteq> dest"
  obtains s1 s2 where "decrease_balance (ops c) src a BestEffort v Polite s = (Inr a, s1)"
    and "increase_balance (ops c) dest a BestEffort s1 = (Inr a, s2)"
    and "s' = fo_done_transfer (ops c) src dest a s2" and "r = a"
proof -
  from run assms(4) obtain x d s1 r2 s2
    where cw: "withdraw_into_result (fo_can_withdraw (ops c) src a s) (v \<noteq> Expendable) = Inr x"
      and cd: "fo_can_deposit (ops c) dest a Extant s = DC_Success"
      and dec: "decrease_balance (ops c) src a BestEffort v Polite s = (Inr d, s1)"
      and inc: "increase_balance (ops c) dest a BestEffort s1 = (r2, s2)"
      and s': "s' = fo_done_transfer (ops c) src dest a s2" and r: "r = a"
    by (auto simp: transfer_def eq_commute [of "Inr _" "withdraw_into_result _ _"]
        eq_commute [of "Inr _" "deposit_into_result _"])
  have "d = a"
    using dec can_withdraw_ok [OF assms(1) cw] by (auto elim!: decrease_balance_InrE)
  note D = decrease_ok [OF assms(1,2) dec]
  have fits: "fo_balance (ops c) dest s1 + a \<le> u128_max"
    using balance_le_supply [OF D(1), of dest] issuance_bound [OF D(1)] D(2) assms(2) \<open>d = a\<close>
    by (simp add: gap_def)
  have "fo_minimum_balance (ops c) \<le> fo_balance (ops c) dest s1 + a" if "a \<noteq> 0"
    using can_deposit_ok [OF assms(1) cd that] D(3) [of dest] assms(4) by auto
  then obtain s2' where "increase_balance (ops c) dest a BestEffort s1 = (Inr a, s2')"
    using increase_succeeds [OF D(1) fits] by blast
  with inc dec \<open>d = a\<close> s' r that show ?thesis by auto
qed

lemma transfer_ok:
  assumes "inv c s" and "0 \<le> gap (ops c) circulating s"
    and run: "transfer (ops c) src dest a v s = (Inr r, s')"
  shows "inv c s'" and "gap (ops c) circulating s' = gap (ops c) circulating s" and "r = a"
proof -
  have "inv c s' \<and> gap (ops c) circulating s' = gap (ops c) circulating s \<and> r = a"
  proof (cases "src = dest")
    case True
    with run assms(1) show ?thesis by (auto simp: transfer_def)
  next
    case False
    with assms obtain s1 s2 where dec: "decrease_balance (ops c) src a BestEffort v Polite s = (Inr a, s1)"
      and inc: "increase_balance (ops c) dest a BestEffort s1 = (Inr a, s2)"
      and s': "s' = fo_done_transfer (ops c) src dest a s2" and "r = a"
      by (rule transfer_run)
    note D = decrease_ok [OF assms(1,2) dec]
    note I = increase_ok [OF D(1) inc]
    from frame_gap [OF hooks_frame(5) I(1)] I(2) D(2) s' \<open>r = a\<close> show ?thesis by simp
  qed
  then show "inv c s'" and "gap (ops c) circulating s' = gap (ops c) circulating s" and "r = a"
    by blast+
qed

lemma transfer_err:
  assumes "inv c s" and "transfer (ops c) src dest a v s = (Inl e, s')"
  shows "token_frame (ops c) (inv c) circulating s s'"
  using assms(2) decrease_err [OF assms(1)]
  by (auto simp: transfer_def ebind_Inl_iff split: if_splits)

lemma set_balance_ok:
  assumes "inv c s" and "0 \<le> gap (ops c) circulating s"
    and run: "set_balance (ops c) who a s = (b, s')"
  shows "inv c s'" and "gap (ops c) circulating s' = gap (ops c) circulating s"
proof -
  have "inv c s' \<and> gap (ops c) circulating s' = gap (ops c) circulating s"
  proof (cases "fo_balance (ops c) who s > a")
    case True
    let ?m = "burn_from (ops c) who (fo_balance (ops c) who s - a) Expendable BestEffort Force"
    obtain r s1 where m: "?m s = (r, s1)" by fastforce
    with True run have "s' = s1" by (auto simp: set_balance_def Let_def split: sum.splits)
    with m show ?thesis
      using burn_from_ok(1,2) [OF assms(1,2)] frame_gap(1,2) [OF burn_from_err [OF assms(1)] assms(1)]
      by (cases r) simp_all
  next
    case False
    let ?m = "mint_into (ops c) who (a - fo_balance (ops c) who s)"
    obtain r s1 where m: "?m s = (r, s1)" by fastforce
    with False run have "s' = s1" by (auto simp: set_balance_def Let_def split: sum.splits)
    with m show ?thesis
      using mint_into_ok(2,3) [OF assms(1)] frame_gap(1,2) [OF mint_into_err [OF assms(1)] assms(1)]
      by (cases r) simp_all
  qed
  then show "inv c s'" and "gap (ops c) circulating s' = gap (ops c) circulating s"
    by blast+
qed

end


section \<open>Imbalances\<close>

context fungible_laws
begin

lemma issue_ok:
  assumes "inv c s" and run: "issue (ops c) a s = (k, s')"
  shows "inv c s'"
    and "gap (ops c) circulating s' = gap (ops c) circulating s + int (credit_peek k)"
    and "credit_peek k \<le> a"
    and "fo_total_issuance (ops c) s' = sat_add u128_max (fo_total_issuance (ops c) s) a"
    and "credit_peek k = sat_add u128_max (fo_total_issuance (ops c) s) a - fo_total_issuance (ops c) s"
proof -
  let ?ti = "fo_total_issuance (ops c) s" and ?new = "sat_add u128_max (fo_total_issuance (ops c) s) a"
  let ?s1 = "fo_set_total_issuance (ops c) ?new s"
  from run have k: "k = Credit (?new - ?ti)" and s': "s' = fo_done_issue (ops c) (?new - ?ti) ?s1"
    by (auto simp: issue_def Let_def)
  note S = set_issuance_ok [OF assms(1) sat_add_le, of ?ti a]
  note H = frame_gap [OF hooks_frame(7), of c ?s1 "?new - ?ti", folded s']
  have "?ti \<le> ?new" using issuance_bound [OF assms(1)] by (simp add: sat_add_def)
  then show "gap (ops c) circulating s' = gap (ops c) circulating s + int (credit_peek k)"
    using gap_set_issuance [OF assms(1) sat_add_le, of ?ti a] H(2) S k by simp
  show "inv c s'" and "fo_total_issuance (ops c) s' = ?new"
    using H(1,3) S by simp_all
  show "credit_peek k \<le> a" and "credit_peek k = ?new - ?ti"
    using k sat_add_le_sum [of u128_max ?ti a] by simp_all
qed

lemma rescind_ok:
  assumes "inv c s" and run: "rescind (ops c) a s = (d, s')"
  shows "inv c s'"
    and "gap (ops c) circulating s' = gap (ops c) circulating s - int (debt_peek d)"
    and "debt_peek d = min a (fo_total_issuance (ops c) s)"
    and "fo_total_issuance (ops c) s' = fo_total_issuance (ops c) s - a"
proof -
  let ?ti = "fo_total_issuance (ops c) s"
  let ?s1 = "fo_set_total_issuance (ops c) (?ti - a) s"
  from run have d: "d = Debt (?ti - (?ti - a))" and s': "s' = fo_done_rescind (ops c) (?ti - (?ti - a)) ?s1"
    by (auto simp: rescind_def Let_def)
  have le: "?ti - a \<le> u128_max" using issuance_bound [OF assms(1)] by linarith
  note S = set_issuance_ok [OF assms(1) le]
  note H = frame_gap [OF hooks_frame(6), of c ?s1 "?ti - (?ti - a)", folded s']
  show "gap (ops c) circulating s' = gap (ops c) circulating s - int (debt_peek d)"
    using gap_set_issuance [OF assms(1) le] H(2) S d by simp
  show "inv c s'" and "fo_total_issuance (ops c) s' = ?ti - a"
    using H(1,3) S by simp_all
  show "debt_peek d = min a ?ti" using d by auto
qed

lemma pair_imbalances_ok:
  assumes "inv c s" and run: "pair_imbalances (ops c) a s = (Inr (d, k), s')"
  shows "inv c s'" and "gap (ops c) circulating s' = gap (ops c) circulating s"
    and "debt_peek d = a" and "credit_peek k = a"
proof -
  from run obtain s1 where i: "issue (ops c) a s = (k, s1)" and r: "rescind (ops c) a s1 = (d, s')"
    and eq: "credit_peek k = a" "credit_peek k = debt_peek d"
    by (auto simp: pair_imbalances_def split: if_splits)
  note I = issue_ok [OF assms(1) i]
  note R = rescind_ok [OF I(1) r]
  show "inv c s'" by (rule R(1))
  show "credit_peek k = a" by (rule eq(1))
  show "debt_peek d = a" using eq by argo
  show "gap (ops c) circulating s' = gap (ops c) circulating s" using R(2) I(2) eq(2) by linarith
qed

text \<open>When the pair cannot be made the two halves are dropped, and the issuance is what it was.\<close>

lemma pair_imbalances_err:
  assumes "inv c s" and run: "pair_imbalances (ops c) a s = (Inl e, s')"
  shows "inv c s'" and "fo_total_issuance (ops c) s' = fo_total_issuance (ops c) s"
proof -
  from run obtain s1 s2 k d where i: "issue (ops c) a s = (k, s1)" and r: "rescind (ops c) a s1 = (d, s2)"
    and s': "s' = drop_credit (ops c) k (drop_debt (ops c) d s2)"
    by (auto simp: pair_imbalances_def ebind_Inl_iff split: if_splits)
  note I = issue_ok [OF assms(1) i]
  note R = rescind_ok [OF I(1) r]
  let ?s3 = "drop_debt (ops c) d s2"
  have 3: "inv c ?s3" "fo_total_issuance (ops c) ?s3 = fo_total_issuance (ops c) s1"
  proof -
    show "inv c ?s3" using R(1) on_drop_debt_ok [OF R(1), of "debt_peek d"] by (simp add: drop_debt_def)
    have "fo_total_issuance (ops c) ?s3 = sat_add u128_max (fo_total_issuance (ops c) s2) (debt_peek d)"
      using on_drop_debt_ok [OF R(1), of "debt_peek d"] issuance_bound [OF R(1)]
      by (simp add: drop_debt_def)
    also have "\<dots> = fo_total_issuance (ops c) s1"
      using R(3,4) issuance_bound [OF I(1)] by (simp add: sat_add_def)
    finally show "fo_total_issuance (ops c) ?s3 = fo_total_issuance (ops c) s1" .
  qed
  then show "inv c s'" using s' on_drop_credit_ok by (simp add: drop_credit_def)
  have "fo_total_issuance (ops c) s' = fo_total_issuance (ops c) s1 - credit_peek k"
    using s' 3(2) on_drop_credit_ok [OF 3(1), of "credit_peek k"] by (simp add: drop_credit_def)
  also have "\<dots> = fo_total_issuance (ops c) s"
    using I(4,5) issuance_bound [OF assms(1)] by (simp add: sat_add_def)
  finally show "fo_total_issuance (ops c) s' = fo_total_issuance (ops c) s" .
qed

lemma deposit_ok:
  assumes "inv c s" and run: "deposit (ops c) who v p s = (Inr d, s')"
  shows "inv c s'" and "gap (ops c) circulating s' = gap (ops c) circulating s - int (debt_peek d)"
    and "fo_balance (ops c) who s' = fo_balance (ops c) who s + debt_peek d"
    and "p = Exact \<Longrightarrow> debt_peek d = v"
proof -
  from run obtain r s1 where inc: "increase_balance (ops c) who v p s = (Inr r, s1)"
    and s': "s' = fo_done_deposit (ops c) who r s1" and d: "d = Debt r"
    by (auto simp: deposit_def)
  note I = increase_ok [OF assms(1) inc]
  note H = frame_gap [OF hooks_frame(8) [where who = who and amt = r] I(1), folded s']
  show "inv c s'" and "gap (ops c) circulating s' = gap (ops c) circulating s - int (debt_peek d)"
    and "p = Exact \<Longrightarrow> debt_peek d = v"
    using H I d by simp_all
  show "fo_balance (ops c) who s' = fo_balance (ops c) who s + debt_peek d"
    using H(4) [of who] I(3) d by simp
qed

lemma deposit_err:
  assumes "inv c s" and "deposit (ops c) who v p s = (Inl e, s')"
  shows "token_frame (ops c) (inv c) circulating s s'"
  using assms increase_err by (auto simp: deposit_def ebind_Inl_iff)

lemma withdraw_ok:
  assumes "inv c s" and "0 \<le> gap (ops c) circulating s"
    and run: "withdraw (ops c) who v p pr f s = (Inr k, s')"
  shows "inv c s'" and "gap (ops c) circulating s' = gap (ops c) circulating s + int (credit_peek k)"
    and "p = Exact \<Longrightarrow> credit_peek k = v"
proof -
  from run obtain r s1 where dec: "decrease_balance (ops c) who v p pr f s = (Inr r, s1)"
    and s': "s' = fo_done_withdraw (ops c) who r s1" and k: "k = Credit r"
    by (auto simp: withdraw_def)
  note D = decrease_ok [OF assms(1,2) dec]
  note H = frame_gap [OF hooks_frame(9) [where who = who and amt = r] D(1), folded s']
  show "inv c s'" and "gap (ops c) circulating s' = gap (ops c) circulating s + int (credit_peek k)"
    using H D k by simp_all
  show "p = Exact \<Longrightarrow> credit_peek k = v"
    using dec k by (auto elim: decrease_balance_InrE)
qed

lemma withdraw_err:
  assumes "inv c s" and "withdraw (ops c) who v p pr f s = (Inl e, s')"
  shows "token_frame (ops c) (inv c) circulating s s'"
  using assms decrease_err by (auto simp: withdraw_def ebind_Inl_iff)

text \<open>A credit that is resolved disappears from circulation with its whole amount, or is returned.\<close>

lemma resolve_ok:
  assumes "inv c s" and run: "resolve (ops c) who k s = (Inr u, s')"
  shows "inv c s'" and "gap (ops c) circulating s' = gap (ops c) circulating s - int (credit_peek k)"
    and "fo_balance (ops c) who s' = fo_balance (ops c) who s + credit_peek k"
proof -
  from run obtain d s1 where dep: "deposit (ops c) who (credit_peek k) Exact s = (Inr d, s1)"
    and s': "s' = (case imbalance_offset (credit_peek k) (debt_peek d) of SO_None \<Rightarrow> s1
        | SO_Same x \<Rightarrow> drop_credit (ops c) (Credit x) s1
        | SO_Other y \<Rightarrow> drop_debt (ops c) (Debt y) s1)"
    by (auto simp: resolve_def split: prod.splits sum.splits)
  note D = deposit_ok [OF assms(1) dep]
  from D(4) s' have "s' = s1" by (simp add: imbalance_offset_def)
  with D show "inv c s'" and "gap (ops c) circulating s' = gap (ops c) circulating s - int (credit_peek k)"
    and "fo_balance (ops c) who s' = fo_balance (ops c) who s + credit_peek k"
    by simp_all
qed

lemma resolve_err:
  assumes "inv c s" and run: "resolve (ops c) who k s = (Inl k', s')"
  shows "k' = k" and "token_frame (ops c) (inv c) circulating s s'"
  using run deposit_err [OF assms(1)] by (auto simp: resolve_def split: prod.splits sum.splits)

lemma settle_ok:
  assumes "inv c s" and "0 \<le> gap (ops c) circulating s"
    and run: "settle (ops c) who d pr s = (Inr k, s')"
  shows "k = Credit 0" and "inv c s'"
    and "gap (ops c) circulating s' = gap (ops c) circulating s + int (debt_peek d)"
proof -
  obtain r s1 where w: "withdraw (ops c) who (debt_peek d) Exact pr Polite s = (r, s1)" by fastforce
  with run obtain k1 where "r = Inr k1" by (cases r) (auto simp: settle_def)
  with w withdraw_ok [OF assms(1,2)] have k1: "credit_peek k1 = debt_peek d" and "inv c s1"
    and "gap (ops c) circulating s1 = gap (ops c) circulating s + int (debt_peek d)"
    by fastforce+
  with run w \<open>r = Inr k1\<close> show "k = Credit 0" and "inv c s'"
    and "gap (ops c) circulating s' = gap (ops c) circulating s + int (debt_peek d)"
    by (auto simp: settle_def imbalance_offset_def)
qed

end

section \<open>Implementors that burn dust\<close>

text \<open>
  Where dust is not given to an account, the balances after a transfer are determined: the
  destination gains the amount, the source loses it and, if what is left is below the minimum
  balance, may be emptied.
\<close>

locale fungible_burning = fungible_laws +
  fixes burning :: "'c \<Rightarrow> bool"
  assumes handle_dust_frame:
    "burning c \<Longrightarrow> inv c s \<Longrightarrow> fo_balance (ops c) who (fo_handle_dust (ops c) du s) = fo_balance (ops c) who s"
begin

lemma handle_maybe_dust_frame:
  "burning c \<Longrightarrow> inv c s \<Longrightarrow> fo_balance (ops c) who (handle_maybe_dust (ops c) d s) = fo_balance (ops c) who s"
  using handle_dust_frame by (auto simp: handle_maybe_dust_def split: option.splits)

lemma decrease_balances:
  assumes "burning c" and "inv c s" and run: "decrease_balance (ops c) who a p v f s = (Inr r, s')"
  shows "x \<noteq> who \<Longrightarrow> fo_balance (ops c) x s' = fo_balance (ops c) x s"
    and "fo_balance (ops c) who s' = fo_balance (ops c) who s - r \<or>
         fo_balance (ops c) who s' = 0 \<and> fo_balance (ops c) who s - r < fo_minimum_balance (ops c)"
proof -
  from run obtain d s1 where r: "r \<le> fo_balance (ops c) who s"
    and w: "fo_write_balance (ops c) who (fo_balance (ops c) who s - r) s = (Inr d, s1)"
    and s': "s' = handle_maybe_dust (ops c) d s1"
    by (rule decrease_balance_InrE)
  have "fo_balance (ops c) who s - r \<le> u128_max"
    using balance_bound [OF \<open>inv c s\<close>, of who] by linarith
  note W = write_ok [OF \<open>inv c s\<close> this w]
  from W have "inv c s1" by simp
  note F = handle_maybe_dust_frame [OF assms(1) this, of _ d, folded s']
  show "x \<noteq> who \<Longrightarrow> fo_balance (ops c) x s' = fo_balance (ops c) x s"
    using W F [of x] by simp
  show "fo_balance (ops c) who s' = fo_balance (ops c) who s - r \<or>
        fo_balance (ops c) who s' = 0 \<and> fo_balance (ops c) who s - r < fo_minimum_balance (ops c)"
    using W F [of who] by (cases d) auto
qed

lemma transfer_balances:
  assumes "burning c" and "inv c s" and "0 \<le> gap (ops c) circulating s" and "src \<noteq> dest"
    and run: "transfer (ops c) src dest a v s = (Inr r, s')"
  shows "fo_balance (ops c) dest s' = fo_balance (ops c) dest s + a"
    and "fo_balance (ops c) src s' = fo_balance (ops c) src s - a \<or>
         fo_balance (ops c) src s' = 0 \<and> fo_balance (ops c) src s - a < fo_minimum_balance (ops c)"
    and "a \<le> fo_balance (ops c) src s"
    and "x \<noteq> src \<Longrightarrow> x \<noteq> dest \<Longrightarrow> fo_balance (ops c) x s' = fo_balance (ops c) x s"
proof -
  from assms obtain s1 s2 where dec: "decrease_balance (ops c) src a BestEffort v Polite s = (Inr a, s1)"
    and inc: "increase_balance (ops c) dest a BestEffort s1 = (Inr a, s2)"
    and s': "s' = fo_done_transfer (ops c) src dest a s2" and "r = a"
    using transfer_run [of c s src dest a v r s'] by metis
  note D = decrease_balances [OF assms(1,2) dec] decrease_ok(1) [OF assms(2,3) dec]
  note I = increase_ok [OF D(3) inc]
  note H = frame_gap(4) [OF hooks_frame(5) [where who = src and dest = dest and amt = a] I(1), folded s']
  show "fo_balance (ops c) dest s' = fo_balance (ops c) dest s + a"
    using H [of dest] I(3) D(1) [of dest] assms(4) by simp
  show "fo_balance (ops c) src s' = fo_balance (ops c) src s - a \<or>
        fo_balance (ops c) src s' = 0 \<and> fo_balance (ops c) src s - a < fo_minimum_balance (ops c)"
    using H [of src] I(6) [of src] D(2) assms(4) by simp
  show "a \<le> fo_balance (ops c) src s" using dec by (rule decrease_balance_InrE)
  show "x \<noteq> src \<Longrightarrow> x \<noteq> dest \<Longrightarrow> fo_balance (ops c) x s' = fo_balance (ops c) x s"
    using H [of x] I(6) [of x] D(1) [of x] by simp
qed

end

end
