(* ===== verification/Balances_Fungible.thy ===== *)
theory Balances_Fungible
  imports Balances_Accounts Fungible
begin

text \<open>
  The balances pallet, second part: the implementation of the \<open>fungible\<close> traits
  (\<^verbatim>\<open>substrate/frame/balances/src/impl_fungible.rs\<close>), the proof that it obeys the laws of
  \<open>fungible_laws\<close>, and what follows for minting, burning and transferring.
\<close>

section \<open>Inspect\<close>

definition active_issuance :: "bal_state \<Rightarrow> balance" where
  "active_issuance s = total_issuance s - inactive_issuance s"

definition total_balance :: "account_id \<Rightarrow> bal_state \<Rightarrow> balance" where
  "total_balance who s = total (account who s)"

definition bal_balance :: "account_id \<Rightarrow> bal_state \<Rightarrow> balance" where
  "bal_balance who s = free (account who s)"

definition reducible_balance ::
  "bal_config \<Rightarrow> account_id \<Rightarrow> preservation \<Rightarrow> fortitude \<Rightarrow> bal_state \<Rightarrow> balance" where
  "reducible_balance c who preservation force s =
     (let a = account who s;
          untouchable0 = (if force = Polite then frozen a - reserved a else 0);
          untouchable =
            (if preservation = Preserve
                \<or> preservation = Protect \<and> free a \<noteq> 0 \<and> providers who s = 1
                \<or> preservation = Expendable \<and> free a \<noteq> 0 \<and> \<not> can_dec_provider who s
             then max untouchable0 (ed c) else untouchable0)
      in free a - untouchable)"

definition can_deposit ::
  "bal_config \<Rightarrow> account_id \<Rightarrow> balance \<Rightarrow> provenance \<Rightarrow> bal_state \<Rightarrow> deposit_consequence" where
  "can_deposit c who amount provenance s =
     (if amount = 0 then DC_Success
      else if provenance = Minted \<and> checked_add u128_max (total_issuance s) amount = None then DC_Overflow
      else
        let a = account who s in
        case checked_add u128_max (free a) amount of
          None \<Rightarrow> DC_Overflow
        | Some new_free \<Rightarrow>
            if new_free < ed c then DC_BelowMinimum
            else (case checked_add u128_max (reserved a) new_free of
                    Some _ \<Rightarrow> DC_Success
                  | None \<Rightarrow> DC_Overflow))"

definition can_withdraw ::
  "bal_config \<Rightarrow> account_id \<Rightarrow> balance \<Rightarrow> bal_state \<Rightarrow> withdraw_consequence" where
  "can_withdraw c who amount s =
     (if amount = 0 then WC_Success
      else if checked_sub (total_issuance s) amount = None then WC_Underflow
      else
        let a = account who s in
        case checked_sub (free a) amount of
          None \<Rightarrow> WC_BalanceLow
        | Some new_free_balance \<Rightarrow>
            if amount > reducible_balance c who Expendable Polite s then WC_Frozen
            else if new_free_balance < ed c \<and> \<not> can_dec_provider who s then WC_WouldDie
            else
              let success = (if new_free_balance < ed c then WC_ReducedToZero new_free_balance
                             else WC_Success);
                  new_total_balance = sat_add u128_max new_free_balance (reserved a)
              in if new_total_balance < frozen a then WC_Frozen else success)"

section \<open>Unbalanced, Mutate, Balanced\<close>

definition write_balance :: "bal_config \<Rightarrow> account_id \<Rightarrow> balance \<Rightarrow> balance option bal_em" where
  "write_balance c who amount =
     ebind (eget (reducible_balance c who Expendable Force)) (\<lambda>max_reduction.
     ebind (mutate_account c who False (\<lambda>a.
       if free a - amount \<le> max_reduction then (a\<lparr>free := amount\<rparr>, Inr ())
       else (a, Inl (DE_Module BE_InsufficientBalance)))) (\<lambda>(result, maybe_dust).
     ebind (esum result) (\<lambda>_. eret maybe_dust)))"

definition set_total_issuance :: "balance \<Rightarrow> bal_state \<Rightarrow> bal_state" where
  "set_total_issuance amount s = s\<lparr>total_issuance := amount\<rparr>"

definition deactivate :: "balance \<Rightarrow> bal_state \<Rightarrow> bal_state" where
  "deactivate amount s =
     s\<lparr>inactive_issuance := min (sat_add u128_max (inactive_issuance s) amount) (total_issuance s)\<rparr>"

definition reactivate :: "balance \<Rightarrow> bal_state \<Rightarrow> bal_state" where
  "reactivate amount s = s\<lparr>inactive_issuance := inactive_issuance s - amount\<rparr>"

text \<open>
  \<open>OnDropCredit = NegativeImbalance\<close> and \<open>OnDropDebt = PositiveImbalance\<close>; their handlers are in
  \<^verbatim>\<open>impl_currency.rs\<close>.
\<close>

definition negative_imbalance_handle :: "balance \<Rightarrow> bal_state \<Rightarrow> bal_state" where
  "negative_imbalance_handle amount s =
     deposit_event (BurnedDebt amount) (s\<lparr>total_issuance := total_issuance s - amount\<rparr>)"

definition positive_imbalance_handle :: "balance \<Rightarrow> bal_state \<Rightarrow> bal_state" where
  "positive_imbalance_handle amount s =
     deposit_event (MintedCredit amount)
       (s\<lparr>total_issuance := sat_add u128_max (total_issuance s) amount\<rparr>)"

text \<open>\<open>DustRemoval = ()\<close>: the credit made of the dust is dropped.\<close>

definition drop_dust :: "balance \<Rightarrow> bal_state \<Rightarrow> bal_state" where
  "drop_dust dust s = (if dust \<noteq> 0 then negative_imbalance_handle dust s else s)"

definition handle_dust :: "bal_config \<Rightarrow> balance \<Rightarrow> bal_state \<Rightarrow> bal_state" where
  "handle_dust c dust = dust_removal c dust"

definition balances_ops :: "bal_config \<Rightarrow> bal_state fungible_ops" where
  "balances_ops c = \<lparr>
     fo_total_issuance = total_issuance,
     fo_minimum_balance = ed c,
     fo_balance = bal_balance,
     fo_reducible_balance = reducible_balance c,
     fo_can_deposit = can_deposit c,
     fo_can_withdraw = can_withdraw c,
     fo_handle_dust = handle_dust c,
     fo_write_balance = write_balance c,
     fo_set_total_issuance = set_total_issuance,
     fo_done_mint_into = (\<lambda>who amount. deposit_event (Ev_Minted who amount)),
     fo_done_burn_from = (\<lambda>who amount. deposit_event (Burned who amount)),
     fo_done_shelve = (\<lambda>who amount. deposit_event (Suspended who amount)),
     fo_done_restore = (\<lambda>who amount. deposit_event (Restored who amount)),
     fo_done_transfer = (\<lambda>source dest amount. deposit_event (Transfer source dest amount)),
     fo_done_rescind = (\<lambda>amount. deposit_event (Rescinded amount)),
     fo_done_issue = (\<lambda>amount s. if amount \<noteq> 0 then deposit_event (Issued amount) s else s),
     fo_done_deposit = (\<lambda>who amount. deposit_event (Deposit who amount)),
     fo_done_withdraw = (\<lambda>who amount. deposit_event (Withdraw who amount)),
     fo_on_drop_credit = negative_imbalance_handle,
     fo_on_drop_debt = positive_imbalance_handle\<rparr>"

definition try_mutate_account_handling_dust ::
  "bal_config \<Rightarrow> account_id \<Rightarrow> bool \<Rightarrow> ('r \<Rightarrow> bal_state \<Rightarrow> bal_state)
     \<Rightarrow> (account_data \<Rightarrow> bool \<Rightarrow> (account_data \<times> 'r) bal_em) \<Rightarrow> 'r bal_em" where
  "try_mutate_account_handling_dust c who force_consumer_bump dr f =
     ebind (try_mutate_account_drop c who force_consumer_bump dr f) (\<lambda>(r, maybe_dust).
     ebind (emod (\<lambda>s. case maybe_dust of None \<Rightarrow> s | Some dust \<Rightarrow> handle_raw_dust (balances_ops c) dust s)) (\<lambda>_.
     eret r))"

definition mutate_account_handling_dust ::
  "bal_config \<Rightarrow> account_id \<Rightarrow> bool \<Rightarrow> ('r \<Rightarrow> bal_state \<Rightarrow> bal_state) \<Rightarrow> (account_data \<Rightarrow> account_data \<times> 'r)
     \<Rightarrow> 'r bal_em" where
  "mutate_account_handling_dust c who force_consumer_bump dr f =
     ebind (mutate_account_drop c who force_consumer_bump dr f) (\<lambda>(r, maybe_dust).
     ebind (emod (\<lambda>s. case maybe_dust of None \<Rightarrow> s | Some dust \<Rightarrow> handle_raw_dust (balances_ops c) dust s)) (\<lambda>_.
     eret r))"

section \<open>The balances pallet obeys the laws\<close>

lemma bal_inv_D:
  assumes "bal_inv c s"
  shows "cfg_ok c" "accounts_inv c s" "total_issuance s \<le> u128_max" "lists_ok s"
  using assms by (simp_all add: bal_inv_def)

lemma balances_ops_sel [simp]:
  "fo_total_issuance (balances_ops c) = total_issuance"
  "fo_minimum_balance (balances_ops c) = ed c"
  "fo_balance (balances_ops c) = bal_balance"
  "fo_reducible_balance (balances_ops c) = reducible_balance c"
  "fo_can_deposit (balances_ops c) = can_deposit c"
  "fo_can_withdraw (balances_ops c) = can_withdraw c"
  "fo_handle_dust (balances_ops c) = dust_removal c"
  "fo_write_balance (balances_ops c) = write_balance c"
  "fo_set_total_issuance (balances_ops c) = set_total_issuance"
  "fo_on_drop_credit (balances_ops c) = negative_imbalance_handle"
  "fo_on_drop_debt (balances_ops c) = positive_imbalance_handle"
  "fo_done_mint_into (balances_ops c) who amt = deposit_event (Ev_Minted who amt)"
  "fo_done_burn_from (balances_ops c) who amt = deposit_event (Burned who amt)"
  "fo_done_shelve (balances_ops c) who amt = deposit_event (Suspended who amt)"
  "fo_done_restore (balances_ops c) who amt = deposit_event (Restored who amt)"
  "fo_done_transfer (balances_ops c) who dest amt = deposit_event (Transfer who dest amt)"
  "fo_done_rescind (balances_ops c) amt = deposit_event (Rescinded amt)"
  "fo_done_issue (balances_ops c) amt s = (if amt \<noteq> 0 then deposit_event (Issued amt) s else s)"
  "fo_done_deposit (balances_ops c) who amt = deposit_event (Deposit who amt)"
  "fo_done_withdraw (balances_ops c) who amt = deposit_event (Withdraw who amt)"
  by (simp_all add: balances_ops_def handle_dust_def fun_eq_iff)

lemma mutated_same:
  assumes "bal_inv c s" and "mutated c who (account who s) s s'"
  shows "bal_inv c s' \<and> total_issuance s' = total_issuance s \<and> circulating s' = circulating s \<and>
         (\<forall>x. account x s' = account x s)"
  using assms account_inv(2) [of c s who] mutated_balance [OF assms(2)] mutated_fields(1) [OF assms(2)]
    lists_ok_same [OF mutated_lists [OF assms(2)]]
  by (auto simp: mutated_def bal_inv_def) (metis)

lemma write_balance_law:
  assumes inv: "bal_inv c s" and amt: "amt \<le> u128_max"
    and run: "write_balance c who amt s = (Inr d, s')"
  shows "bal_inv c s' \<and> total_issuance s' = total_issuance s \<and>
       circulating s' + bal_balance who s + opt_val id d = circulating s + amt \<and>
       bal_balance who s' = amt - opt_val id d \<and>
       (\<forall>x. x \<noteq> who \<longrightarrow> bal_balance x s' = bal_balance x s) \<and>
       (\<forall>v. d = Some v \<longrightarrow> v = amt \<and> amt < ed c)"
proof -
  note I = bal_inv_D [OF inv]
  let ?a = "account who s"
  let ?m = "reducible_balance c who Expendable Force s"
  have run': "try_mutate_account c who False (\<lambda>a _. eret (if free a - amt \<le> ?m then (a\<lparr>free := amt\<rparr>, Inr ())
         else (a, Inl (DE_Module BE_InsufficientBalance)))) s = (Inr (Inr (), d), s')"
    using run unfolding write_balance_def mutate_account_def by (auto simp: eget_def)
  have le: "free ?a - amt \<le> ?m"
    using try_mutate_account_run(1) [OF I(1,2) _ I(2) refl run', of ?a "Inl (DE_Module BE_InsufficientBalance)"]
      account_inv(1) [OF I(1,2)]
    by (cases "free ?a - amt \<le> ?m") (simp_all add: eret_def)
  have "data_ok (?a\<lparr>free := amt\<rparr>)" using account_inv(1) [OF I(1,2)] amt by (simp add: data_ok_def)
  then have M: "d = dust_of c (?a\<lparr>free := amt\<rparr>)" "mutated c who (?a\<lparr>free := amt\<rparr>) s s'"
    using try_mutate_account_run(1) [OF I(1,2) _ I(2) refl run'] le by (simp_all add: eret_def)
  from M(2) have "bal_inv c s'" "total_issuance s' = total_issuance s"
    using I mutated_fields(1) [OF M(2)] lists_ok_same [OF mutated_lists [OF M(2)]]
    by (auto simp: mutated_def bal_inv_def)
  moreover have "bal_balance who s' = amt - opt_val id d"
    using M by (auto simp: mutated_def bal_balance_def settled_def dust_of_def)
  moreover have "v = amt \<and> amt < ed c" if "d = Some v" for v
    using that M(1) by (simp add: dust_of_def split: if_splits)
  moreover have "\<forall>x. x \<noteq> who \<longrightarrow> bal_balance x s' = bal_balance x s"
    using mutated_balance [OF M(2)] by (simp add: bal_balance_def)
  moreover have "circulating s' + bal_balance who s + opt_val id d = circulating s + amt"
    using M settled_dust [of c "?a\<lparr>free := amt\<rparr>"] by (simp add: mutated_def tokens_def bal_balance_def)
  ultimately show ?thesis by blast
qed


lemma write_balance_err:
  assumes inv: "bal_inv c s" and run: "write_balance c who amt s = (Inl e, s')"
  shows "bal_inv c s' \<and> total_issuance s' = total_issuance s \<and> circulating s' = circulating s \<and>
         (\<forall>x. account x s' = account x s)"
proof -
  note I = bal_inv_D [OF inv]
  let ?a = "account who s" and ?m = "reducible_balance c who Expendable Force s"
  let ?f = "\<lambda>a. if free a - amt \<le> ?m then (a\<lparr>free := amt\<rparr>, Inr ()) else (a, Inl (DE_Module BE_InsufficientBalance))"
  consider e' where "try_mutate_account c who False (\<lambda>a _. eret (?f a)) s = (Inl e', s')"
    | d where "try_mutate_account c who False (\<lambda>a _. eret (?f a)) s
                 = (Inr (Inl e, d), s')"
    using run unfolding write_balance_def mutate_account_def by (auto simp: eget_def ebind_Inl_iff)
  then have "mutated c who ?a s s'"
  proof cases
    case 1
    show ?thesis
      by (rule try_mutate_account_run(2) [OF I(1,2) _ I(2) refl 1, of "fst (?f ?a)" "snd (?f ?a)"])
        (simp add: eret_def)
  next
    case 2
    show ?thesis
      using try_mutate_account_run(1) [OF I(1,2) _ I(2) refl 2, of "fst (?f ?a)" "snd (?f ?a)"]
        account_inv(1) [OF I(1,2)]
      by (cases "free ?a - amt \<le> ?m") (auto simp: eret_def)
  qed
  then show ?thesis by (rule mutated_same [OF inv])
qed

lemma write_balance_grow:
  assumes inv: "bal_inv c s" and "bal_balance who s < amt" and "ed c \<le> amt"
  shows "\<exists>s'. write_balance c who amt s = (Inr None, s')"
proof -
  note I = bal_inv_D [OF inv]
  let ?m = "reducible_balance c who Expendable Force s"
  have "\<exists>s'. try_mutate_account c who False (\<lambda>a _. eret (if free a - amt \<le> ?m then (a\<lparr>free := amt\<rparr>, Inr ())
      else (a, Inl (DE_Module BE_InsufficientBalance)))) s = (Inr (Inr (), None), s')"
    using try_mutate_account_succeeds [where f = "\<lambda>a _. eret (if free a - amt \<le> ?m then (a\<lparr>free := amt\<rparr>, Inr ())
        else (a, Inl (DE_Module BE_InsufficientBalance)))" and a = "(account who s)\<lparr>free := amt\<rparr>" and r = "Inr ()",
        OF I(1,2) _ I(2) refl, of who False] assms(2,3)
    by (simp add: eret_def bal_balance_def dust_of_def)
  then show ?thesis
    unfolding write_balance_def mutate_account_def by (auto simp: ebind_def eget_def esum_def eret_def)
qed

lemma can_withdraw_reducible:
  assumes "bal_inv c s"
    and "withdraw_into_result (can_withdraw c who amt s) (p \<noteq> Expendable) = Inr x"
  shows "amt \<le> reducible_balance c who p Polite s"
  using assms(2)
  by (cases p) (auto simp: can_withdraw_def reducible_balance_def Let_def checked_sub_def can_dec_provider_def
      is_provider_required_def split: if_splits)

lemma can_deposit_room:
  assumes "can_deposit c who amt Extant s = DC_Success" "amt \<noteq> 0"
  shows "bal_balance who s + amt \<le> u128_max" and "ed c \<le> bal_balance who s + amt"
  using assms by (auto simp: can_deposit_def Let_def checked_add_def bal_balance_def split: if_splits)

lemma bal_inv_frame [simp]:
  "bal_inv c (deposit_event e s) = bal_inv c s"
  "n \<le> u128_max \<Longrightarrow> bal_inv c s \<Longrightarrow> bal_inv c (s\<lparr>total_issuance := n\<rparr>)"
  by (simp_all add: bal_inv_def)

lemma bal_balance_frame [simp]:
  "bal_balance who (deposit_event e s) = bal_balance who s"
  "bal_balance who (s\<lparr>total_issuance := n\<rparr>) = bal_balance who s"
  by (simp_all add: bal_balance_def)

lemma dust_removal_law:
  assumes "bal_inv c s" and "int du \<le> gap (balances_ops c) circulating s"
  shows "bal_inv c (dust_removal c du s) \<and>
       gap (balances_ops c) circulating (dust_removal c du s) = gap (balances_ops c) circulating s - int du \<and>
       bal_balance who s \<le> bal_balance who (dust_removal c du s)"
  using assms lists_ok_same [of s "dust_removal c du s"]
  by (auto simp: bal_inv_def cfg_ok_def dust_ok_def gap_def bal_balance_def Let_def)

interpretation bf: fungible_burning balances_ops bal_inv circulating "\<lambda>c. dust_removal c = drop_dust"
proof (unfold_locales, goal_cases)
  case (3 c s who)
  then show ?case
    using circulating_ge [OF accounts_inv_refs, of c s who]
    by (simp add: bal_inv_def bal_balance_def tokens_def)
next
  case (4 c s who p f)
  then show ?case by (simp add: reducible_balance_def bal_balance_def Let_def)
next
  case (5 c s who amt p x)
  then show ?case by (simp add: can_withdraw_reducible)
next
  case (6 c s who amt)
  then show ?case by (simp add: can_deposit_room)
next
  case (7 c s amt who d s')
  then show ?case using write_balance_law by simp
next
  case (8 c s who amt e s')
  then show ?case using write_balance_err by (simp add: token_frame_def bal_balance_def)
next
  case (9 c s amt who)
  then show ?case using write_balance_grow by simp
next
  case (10 c s du who)
  then show ?case using dust_removal_law by simp
next
  case (2 c s who)
  then show ?case using account_inv(1) by (auto simp: bal_inv_def bal_balance_def data_ok_def)
qed (auto simp: set_total_issuance_def negative_imbalance_handle_def positive_imbalance_handle_def
    token_frame_def bal_inv_def bal_balance_def sat_add_def drop_dust_def)

text \<open>Dropping the dust is a handler the invariant allows.\<close>

lemma drop_dust_ok: "dust_removal c = drop_dust \<Longrightarrow> dust_ok c"
  by (auto simp: dust_ok_def drop_dust_def negative_imbalance_handle_def)

section \<open>The issuance covers the balances\<close>

text \<open>
  \<open>issuance_gap\<close> is the issuance that no account holds: what the imbalances in circulation stand for.
  A state is \<open>sound\<close> when the invariant holds and the issuance covers what the accounts hold.
\<close>

definition issuance_gap :: "bal_state \<Rightarrow> int" where
  "issuance_gap s = int (total_issuance s) - int (circulating s)"

definition sound :: "bal_config \<Rightarrow> bal_state \<Rightarrow> bool" where
  "sound c s \<longleftrightarrow> bal_inv c s \<and> circulating s \<le> total_issuance s"

lemma gap_balances [simp]: "gap (balances_ops c) circulating s = issuance_gap s"
  by (simp add: gap_def issuance_gap_def)

lemma sound_iff: "sound c s \<longleftrightarrow> bal_inv c s \<and> 0 \<le> gap (balances_ops c) circulating s"
  by (simp add: sound_def issuance_gap_def)

lemma sound_gap: "sound c s \<longleftrightarrow> bal_inv c s \<and> 0 \<le> issuance_gap s"
  by (simp add: sound_iff)

end
