(* ===== verification/Fungible_Hold.thy ===== *)
theory Fungible_Hold
  imports Fungible
begin

text \<open>
  The traits for balances on hold and for freezes
  (\<^verbatim>\<open>substrate/frame/support/src/traits/tokens/fungible/hold.rs\<close> and \<^verbatim>\<open>freeze.rs\<close>).  As in
  \<open>Fungible\<close>, the required methods are the fields of a record and each provided method is a definition
  over it; \<open>hold_laws\<close> states what the provided methods rely on, and their accounting is proved once.
\<close>

section \<open>The traits\<close>

record 's hold_ops =
  ho_base :: "'s fungible_ops"
  ho_reducible_total_balance_on_hold :: "account_id \<Rightarrow> fortitude \<Rightarrow> 's \<Rightarrow> balance"
  ho_balance_on_hold :: "reason_id \<Rightarrow> account_id \<Rightarrow> 's \<Rightarrow> balance"
  ho_hold_available :: "reason_id \<Rightarrow> account_id \<Rightarrow> 's \<Rightarrow> bool"
  ho_set_balance_on_hold :: "reason_id \<Rightarrow> account_id \<Rightarrow> balance \<Rightarrow> ('s, dispatch_error, unit) em"
  ho_done_hold :: "reason_id \<Rightarrow> account_id \<Rightarrow> balance \<Rightarrow> 's \<Rightarrow> 's"
  ho_done_release :: "reason_id \<Rightarrow> account_id \<Rightarrow> balance \<Rightarrow> 's \<Rightarrow> 's"
  ho_done_burn_held :: "reason_id \<Rightarrow> account_id \<Rightarrow> balance \<Rightarrow> 's \<Rightarrow> 's"
  ho_done_transfer_on_hold :: "reason_id \<Rightarrow> account_id \<Rightarrow> account_id \<Rightarrow> balance \<Rightarrow> 's \<Rightarrow> 's"
  ho_done_transfer_and_hold :: "reason_id \<Rightarrow> account_id \<Rightarrow> account_id \<Rightarrow> balance \<Rightarrow> 's \<Rightarrow> 's"
  ho_done_slash :: "reason_id \<Rightarrow> account_id \<Rightarrow> balance \<Rightarrow> 's \<Rightarrow> 's"

definition ensure_can_hold ::
  "'s hold_ops \<Rightarrow> reason_id \<Rightarrow> account_id \<Rightarrow> balance \<Rightarrow> ('s, dispatch_error, unit) em" where
  "ensure_can_hold H reason who amount =
     ebind (eget (fo_reducible_balance (ho_base H) who Protect Force)) (\<lambda>red.
     ebind (eensure (amount \<le> red) (DE_Token TE_FundsUnavailable)) (\<lambda>_.
     ebind (eget (ho_hold_available H reason who)) (\<lambda>av.
     eensure av (DE_Token TE_CannotCreateHold))))"

definition can_hold :: "'s hold_ops \<Rightarrow> reason_id \<Rightarrow> account_id \<Rightarrow> balance \<Rightarrow> 's \<Rightarrow> bool" where
  "can_hold H reason who amount s =
     (case fst (ensure_can_hold H reason who amount s) of Inl _ \<Rightarrow> False | Inr _ \<Rightarrow> True)"

definition decrease_balance_on_hold ::
  "'s hold_ops \<Rightarrow> reason_id \<Rightarrow> account_id \<Rightarrow> balance \<Rightarrow> precision \<Rightarrow> ('s, dispatch_error, balance) em" where
  "decrease_balance_on_hold H reason who amount0 precision =
     ebind (eget (ho_balance_on_hold H reason who)) (\<lambda>old_balance.
     let amount = (if precision = BestEffort then min amount0 old_balance else amount0) in
     ebind (eoption (checked_sub old_balance amount) (DE_Token TE_FundsUnavailable)) (\<lambda>new_balance.
     ebind (ho_set_balance_on_hold H reason who new_balance) (\<lambda>_.
     eret amount)))"

definition increase_balance_on_hold ::
  "'s hold_ops \<Rightarrow> reason_id \<Rightarrow> account_id \<Rightarrow> balance \<Rightarrow> precision \<Rightarrow> ('s, dispatch_error, balance) em" where
  "increase_balance_on_hold H reason who amount0 precision =
     ebind (eget (ho_balance_on_hold H reason who)) (\<lambda>old_balance.
     ebind (if precision = BestEffort then eret (sat_add u128_max old_balance amount0)
            else eoption (checked_add u128_max old_balance amount0) (DE_Arithmetic AE_Overflow)) (\<lambda>new_balance.
     let amount = new_balance - old_balance in
     ebind (if amount \<noteq> 0 then ho_set_balance_on_hold H reason who new_balance else eret ()) (\<lambda>_.
     eret amount)))"

definition hold ::
  "'s hold_ops \<Rightarrow> reason_id \<Rightarrow> account_id \<Rightarrow> balance \<Rightarrow> ('s, dispatch_error, unit) em" where
  "hold H reason who amount =
     ebind (ensure_can_hold H reason who amount) (\<lambda>_.
     ebind (decrease_balance (ho_base H) who amount Exact Protect Force) (\<lambda>_.
     ebind (increase_balance_on_hold H reason who amount BestEffort) (\<lambda>_.
     emod (ho_done_hold H reason who amount))))"

definition release ::
  "'s hold_ops \<Rightarrow> reason_id \<Rightarrow> account_id \<Rightarrow> balance \<Rightarrow> precision \<Rightarrow> ('s, dispatch_error, balance) em" where
  "release H reason who amount0 precision =
     ebind (eget (fo_can_deposit (ho_base H) who amount0 Extant)) (\<lambda>dc.
     ebind (eensure (dc = DC_Success) (DE_Token TE_CannotCreate)) (\<lambda>_.
     ebind (decrease_balance_on_hold H reason who amount0 precision) (\<lambda>amount.
     ebind (increase_balance (ho_base H) who amount BestEffort) (\<lambda>actual.
     ebind (emod (ho_done_release H reason who actual)) (\<lambda>_.
     eret actual)))))"

definition set_on_hold ::
  "'s hold_ops \<Rightarrow> reason_id \<Rightarrow> account_id \<Rightarrow> balance \<Rightarrow> ('s, dispatch_error, unit) em" where
  "set_on_hold H reason who amount =
     ebind (eget (ho_balance_on_hold H reason who)) (\<lambda>current_amount.
     if current_amount < amount then hold H reason who (amount - current_amount)
     else if current_amount > amount
     then ebind (release H reason who (current_amount - amount) Exact) (\<lambda>_. eret ())
     else eret ())"

definition release_all ::
  "'s hold_ops \<Rightarrow> reason_id \<Rightarrow> account_id \<Rightarrow> precision \<Rightarrow> ('s, dispatch_error, balance) em" where
  "release_all H reason who precision =
     ebind (eget (ho_balance_on_hold H reason who)) (\<lambda>amount. release H reason who amount precision)"

definition burn_held ::
  "'s hold_ops \<Rightarrow> reason_id \<Rightarrow> account_id \<Rightarrow> balance \<Rightarrow> precision \<Rightarrow> fortitude
     \<Rightarrow> ('s, dispatch_error, balance) em" where
  "burn_held H reason who amount0 precision force =
     ebind (eget (ho_reducible_total_balance_on_hold H who force)) (\<lambda>liquid.
     ebind (if precision = BestEffort then eret (min amount0 liquid)
            else ebind (eensure (amount0 \<le> liquid) (DE_Token TE_Frozen)) (\<lambda>_. eret amount0)) (\<lambda>amount1.
     ebind (decrease_balance_on_hold H reason who amount1 precision) (\<lambda>amount.
     ebind (emod (\<lambda>s. fo_set_total_issuance (ho_base H) (fo_total_issuance (ho_base H) s - amount) s)) (\<lambda>_.
     ebind (emod (ho_done_burn_held H reason who amount)) (\<lambda>_.
     eret amount)))))"

definition burn_all_held ::
  "'s hold_ops \<Rightarrow> reason_id \<Rightarrow> account_id \<Rightarrow> precision \<Rightarrow> fortitude \<Rightarrow> ('s, dispatch_error, balance) em" where
  "burn_all_held H reason who precision force =
     ebind (eget (ho_balance_on_hold H reason who)) (\<lambda>amount. burn_held H reason who amount precision force)"

definition transfer_on_hold ::
  "'s hold_ops \<Rightarrow> reason_id \<Rightarrow> account_id \<Rightarrow> account_id \<Rightarrow> balance \<Rightarrow> precision \<Rightarrow> restriction \<Rightarrow> fortitude
     \<Rightarrow> ('s, dispatch_error, balance) em" where
  "transfer_on_hold H reason source dest amount0 precision mode force =
     ebind (eget (ho_balance_on_hold H reason source)) (\<lambda>held.
     ebind (eget (ho_reducible_total_balance_on_hold H source force)) (\<lambda>liquid.
     ebind (if precision = BestEffort then eret (min (min amount0 liquid) held)
            else ebind (eensure (amount0 \<le> liquid) (DE_Token TE_Frozen)) (\<lambda>_.
                 ebind (eensure (amount0 \<le> held) (DE_Token TE_FundsUnavailable)) (\<lambda>_. eret amount0))) (\<lambda>amount1.
     ebind (eget (fo_can_deposit (ho_base H) dest amount1 Extant)) (\<lambda>dc.
     ebind (eensure (dc = DC_Success) (DE_Token TE_CannotCreate)) (\<lambda>_.
     ebind (eget (ho_hold_available H reason dest)) (\<lambda>av.
     ebind (eensure (mode = RFree \<or> av) (DE_Token TE_CannotCreateHold)) (\<lambda>_.
     ebind (decrease_balance_on_hold H reason source amount1 precision) (\<lambda>amount.
     ebind (if mode = OnHold then increase_balance_on_hold H reason dest amount precision
            else increase_balance (ho_base H) dest amount precision) (\<lambda>actual.
     ebind (emod (ho_done_transfer_on_hold H reason source dest actual)) (\<lambda>_.
     eret actual))))))))))"

definition transfer_and_hold ::
  "'s hold_ops \<Rightarrow> reason_id \<Rightarrow> account_id \<Rightarrow> account_id \<Rightarrow> balance \<Rightarrow> precision \<Rightarrow> preservation \<Rightarrow> fortitude
     \<Rightarrow> ('s, dispatch_error, balance) em" where
  "transfer_and_hold H reason source dest amount precision expendability force =
     ebind (eget (ho_hold_available H reason dest)) (\<lambda>av.
     ebind (eensure av (DE_Token TE_CannotCreateHold)) (\<lambda>_.
     ebind (eget (fo_can_deposit (ho_base H) dest amount Extant)) (\<lambda>dc.
     ebind (eensure (dc = DC_Success) (DE_Token TE_CannotCreate)) (\<lambda>_.
     ebind (decrease_balance (ho_base H) source amount precision expendability force) (\<lambda>actual.
     ebind (increase_balance_on_hold H reason dest actual precision) (\<lambda>_.
     ebind (emod (ho_done_transfer_and_hold H reason source dest actual)) (\<lambda>_.
     eret actual)))))))"

text \<open>The credit that \<open>slash\<close> returns is the caller's; an error of the decrease counts as nothing taken.\<close>

definition slash_held ::
  "'s hold_ops \<Rightarrow> reason_id \<Rightarrow> account_id \<Rightarrow> balance \<Rightarrow> 's \<Rightarrow> (credit \<times> balance) \<times> 's" where
  "slash_held H reason who amount s =
     (let (r, s1) = decrease_balance_on_hold H reason who amount BestEffort s;
          decrease = (case r of Inl _ \<Rightarrow> 0 | Inr d \<Rightarrow> d)
      in ((Credit decrease, amount - decrease), ho_done_slash H reason who decrease s1))"

section \<open>Freezes\<close>

record 's freeze_ops =
  zo_total_balance :: "account_id \<Rightarrow> 's \<Rightarrow> balance"
  zo_balance_frozen :: "reason_id \<Rightarrow> account_id \<Rightarrow> 's \<Rightarrow> balance"
  zo_set_freeze :: "reason_id \<Rightarrow> account_id \<Rightarrow> balance \<Rightarrow> ('s, dispatch_error, unit) em"
  zo_extend_freeze :: "reason_id \<Rightarrow> account_id \<Rightarrow> balance \<Rightarrow> ('s, dispatch_error, unit) em"

definition balance_freezable :: "'s freeze_ops \<Rightarrow> account_id \<Rightarrow> 's \<Rightarrow> balance" where
  "balance_freezable Z who s = zo_total_balance Z who s"

definition set_frozen ::
  "'s freeze_ops \<Rightarrow> reason_id \<Rightarrow> account_id \<Rightarrow> balance \<Rightarrow> fortitude \<Rightarrow> ('s, dispatch_error, unit) em" where
  "set_frozen Z i who amount fortitude =
     ebind (eget (balance_freezable Z who)) (\<lambda>fz.
     ebind (eensure (fortitude = Force \<or> fz \<ge> amount) (DE_Token TE_FundsUnavailable)) (\<lambda>_.
     zo_set_freeze Z i who amount))"

definition ensure_frozen ::
  "'s freeze_ops \<Rightarrow> reason_id \<Rightarrow> account_id \<Rightarrow> balance \<Rightarrow> fortitude \<Rightarrow> ('s, dispatch_error, unit) em" where
  "ensure_frozen Z i who amount fortitude =
     ebind (eget (balance_freezable Z who)) (\<lambda>fz.
     ebind (eensure (fortitude = Force \<or> fz \<ge> amount) (DE_Token TE_FundsUnavailable)) (\<lambda>_.
     zo_extend_freeze Z i who amount))"

definition decrease_frozen ::
  "'s freeze_ops \<Rightarrow> reason_id \<Rightarrow> account_id \<Rightarrow> balance \<Rightarrow> ('s, dispatch_error, unit) em" where
  "decrease_frozen Z i who amount =
     ebind (eget (zo_balance_frozen Z i who)) (\<lambda>b.
     ebind (eoption (checked_sub b amount) (DE_Arithmetic AE_Underflow)) (\<lambda>a.
     zo_set_freeze Z i who a))"

definition increase_frozen ::
  "'s freeze_ops \<Rightarrow> reason_id \<Rightarrow> account_id \<Rightarrow> balance \<Rightarrow> ('s, dispatch_error, unit) em" where
  "increase_frozen Z i who amount =
     ebind (eget (zo_balance_frozen Z i who)) (\<lambda>b.
     ebind (eoption (checked_add u128_max b amount) (DE_Arithmetic AE_Overflow)) (\<lambda>a.
     set_frozen Z i who a Polite))"

section \<open>The contract of an implementation\<close>

text \<open>
  A change of a balance on hold changes what the accounts hold by the same amount as long as the main
  balance is \<open>firm\<close>, or the hold grows; otherwise the main balance may be lost with the hold.
\<close>

definition firm :: "'s fungible_ops \<Rightarrow> account_id \<Rightarrow> 's \<Rightarrow> bool" where
  "firm F who s \<longleftrightarrow> fo_balance F who s = 0 \<or> fo_minimum_balance F \<le> fo_balance F who s"

definition same_holds :: "'s hold_ops \<Rightarrow> 's \<Rightarrow> 's \<Rightarrow> bool" where
  "same_holds H s s' \<longleftrightarrow> (\<forall>r x. ho_balance_on_hold H r x s' = ho_balance_on_hold H r x s)"

locale hold_laws = fungible_laws +
  fixes hops :: "'a \<Rightarrow> 'b hold_ops"
  assumes base: "ho_base (hops c) = ops c"
    and set_hold_ok:
      "inv c s \<Longrightarrow> ho_set_balance_on_hold (hops c) reason who amt s = (Inr u, s') \<Longrightarrow>
       inv c s' \<and> fo_total_issuance (ops c) s' = fo_total_issuance (ops c) s \<and>
       (\<forall>x. x \<noteq> who \<longrightarrow> fo_balance (ops c) x s' = fo_balance (ops c) x s) \<and>
       circulating s' + ho_balance_on_hold (hops c) reason who s \<le> circulating s + amt \<and>
       (firm (ops c) who s \<or> ho_balance_on_hold (hops c) reason who s < amt \<longrightarrow>
          circulating s' + ho_balance_on_hold (hops c) reason who s = circulating s + amt \<and>
          fo_balance (ops c) who s' = fo_balance (ops c) who s)"
    and set_hold_lookup:
      "inv c s \<Longrightarrow> ho_set_balance_on_hold (hops c) reason who amt s = (Inr u, s') \<Longrightarrow>
       ho_balance_on_hold (hops c) reason who s' = amt \<and>
       (\<forall>r x. r \<noteq> reason \<or> x \<noteq> who \<longrightarrow> ho_balance_on_hold (hops c) r x s' = ho_balance_on_hold (hops c) r x s)"
    and set_hold_err:
      "inv c s \<Longrightarrow> ho_set_balance_on_hold (hops c) reason who amt s = (Inl e, s') \<Longrightarrow>
       token_frame (ops c) (inv c) circulating s s' \<and> same_holds (hops c) s s'"
    and write_holds:
      "inv c s \<Longrightarrow> fo_write_balance (ops c) who amt s = (w, s') \<Longrightarrow> same_holds (hops c) s s'"
    and dust_holds:
      "inv c s \<Longrightarrow> int du \<le> gap (ops c) circulating s \<Longrightarrow>
       same_holds (hops c) s (fo_handle_dust (ops c) du s)"
    and issuance_holds: "inv c s \<Longrightarrow> same_holds (hops c) s (fo_set_total_issuance (ops c) amt s)"
    and hold_hooks_frame:
      "token_frame (ops c) (inv c) circulating s (ho_done_hold (hops c) reason who amt s)"
      "token_frame (ops c) (inv c) circulating s (ho_done_release (hops c) reason who amt s)"
      "token_frame (ops c) (inv c) circulating s (ho_done_burn_held (hops c) reason who amt s)"
      "token_frame (ops c) (inv c) circulating s (ho_done_transfer_on_hold (hops c) reason who dest amt s)"
      "token_frame (ops c) (inv c) circulating s (ho_done_transfer_and_hold (hops c) reason who dest amt s)"
      "token_frame (ops c) (inv c) circulating s (ho_done_slash (hops c) reason who amt s)"
    and hold_hooks_holds:
      "same_holds (hops c) s (ho_done_hold (hops c) reason who amt s)"
      "same_holds (hops c) s (ho_done_release (hops c) reason who amt s)"
      "same_holds (hops c) s (ho_done_burn_held (hops c) reason who amt s)"
      "same_holds (hops c) s (ho_done_transfer_on_hold (hops c) reason who dest amt s)"
      "same_holds (hops c) s (ho_done_transfer_and_hold (hops c) reason who dest amt s)"
      "same_holds (hops c) s (ho_done_slash (hops c) reason who amt s)"
begin

lemma same_holds_trans: "same_holds (hops c) s t \<Longrightarrow> same_holds (hops c) t u \<Longrightarrow> same_holds (hops c) s u"
  by (simp add: same_holds_def)

lemma decrease_holds:
  assumes "inv c s" and "0 \<le> gap (ops c) circulating s"
    and run: "decrease_balance (ops c) who a p v f s = (Inr r, s')"
  shows "same_holds (hops c) s s'"
proof -
  from run obtain d s1 where r: "r \<le> fo_balance (ops c) who s"
    and w: "fo_write_balance (ops c) who (fo_balance (ops c) who s - r) s = (Inr d, s1)"
    and s': "s' = handle_maybe_dust (ops c) d s1"
    by (rule decrease_balance_InrE)
  have "fo_balance (ops c) who s - r \<le> u128_max"
    using balance_bound [OF \<open>inv c s\<close>, of who] by linarith
  note W = write_ok [OF \<open>inv c s\<close> this w]
  then have "int (opt_val id d) \<le> gap (ops c) circulating s1"
    using assms(2) r by (auto simp: gap_def)
  then have "same_holds (hops c) s1 s'"
    using dust_holds W by (cases d) (auto simp: s' handle_maybe_dust_def same_holds_def)
  with write_holds [OF assms(1) w] show ?thesis by (rule same_holds_trans)
qed

lemma increase_holds:
  assumes "inv c s" and run: "increase_balance (ops c) who a p s = (Inr r, s')"
  shows "same_holds (hops c) s s'"
  using run
proof (cases rule: increase_balance_InrE)
  case (3 new d s1)
  note W = write_ok [OF \<open>inv c s\<close> 3(2,5)]
  have "d = None" using W 3(3) by (cases d) auto
  then show ?thesis using write_holds [OF assms(1) 3(5)] 3 by (simp add: handle_maybe_dust_def)
qed (auto simp: same_holds_def)

lemma decrease_hold_run:
  assumes "inv c s" and run: "decrease_balance_on_hold (hops c) reason who a p s = (Inr r, s')"
  shows "inv c s'" and "gap (ops c) circulating s + int r \<le> gap (ops c) circulating s'"
    and "r \<le> ho_balance_on_hold (hops c) reason who s" and "r \<le> a" and "p = Exact \<Longrightarrow> r = a"
    and "p = BestEffort \<Longrightarrow> r = min a (ho_balance_on_hold (hops c) reason who s)"
    and "fo_total_issuance (ops c) s' = fo_total_issuance (ops c) s"
    and "ho_balance_on_hold (hops c) reason who s' = ho_balance_on_hold (hops c) reason who s - r"
    and "x \<noteq> who \<Longrightarrow> fo_balance (ops c) x s' = fo_balance (ops c) x s"
    and "rr \<noteq> reason \<or> x \<noteq> who \<Longrightarrow> ho_balance_on_hold (hops c) rr x s' = ho_balance_on_hold (hops c) rr x s"
    and "firm (ops c) who s \<Longrightarrow> gap (ops c) circulating s' = gap (ops c) circulating s + int r \<and>
            fo_balance (ops c) who s' = fo_balance (ops c) who s"
proof -
  let ?old = "ho_balance_on_hold (hops c) reason who s"
  have r: "r = (if p = BestEffort then min a ?old else a)" "r \<le> ?old"
    and set: "ho_set_balance_on_hold (hops c) reason who (?old - r) s = (Inr (), s')"
    using run by (auto simp: decrease_balance_on_hold_def Let_def checked_sub_def split: if_splits)
  note S = set_hold_ok [OF assms(1) set] and L = set_hold_lookup [OF assms(1) set]
  show "r \<le> ?old" "r \<le> a" "p = Exact \<Longrightarrow> r = a" "p = BestEffort \<Longrightarrow> r = min a ?old" using r by auto
  show "inv c s'" "fo_total_issuance (ops c) s' = fo_total_issuance (ops c) s"
    "x \<noteq> who \<Longrightarrow> fo_balance (ops c) x s' = fo_balance (ops c) x s" using S by auto
  show "ho_balance_on_hold (hops c) reason who s' = ?old - r"
    "rr \<noteq> reason \<or> x \<noteq> who \<Longrightarrow> ho_balance_on_hold (hops c) rr x s' = ho_balance_on_hold (hops c) rr x s"
    using L by auto
  show "gap (ops c) circulating s + int r \<le> gap (ops c) circulating s'"
    using S r(2) by (auto simp: gap_def)
  show "firm (ops c) who s \<Longrightarrow> gap (ops c) circulating s' = gap (ops c) circulating s + int r \<and>
      fo_balance (ops c) who s' = fo_balance (ops c) who s"
    using S r(2) by (auto simp: gap_def)
qed

lemma decrease_hold_err:
  assumes "inv c s" and "decrease_balance_on_hold (hops c) reason who a p s = (Inl e, s')"
  shows "token_frame (ops c) (inv c) circulating s s' \<and> same_holds (hops c) s s'"
  using assms set_hold_err [OF assms(1)]
  by (auto simp: decrease_balance_on_hold_def Let_def ebind_Inl_iff checked_sub_def same_holds_def split: if_splits)

lemma increase_hold_run:
  assumes "inv c s" and run: "increase_balance_on_hold (hops c) reason who a p s = (Inr r, s')"
  shows "inv c s'" and "gap (ops c) circulating s' = gap (ops c) circulating s - int r"
    and "r \<le> a" and "p = Exact \<or> ho_balance_on_hold (hops c) reason who s + a \<le> u128_max \<Longrightarrow> r = a"
    and "fo_balance (ops c) x s' = fo_balance (ops c) x s"
    and "fo_total_issuance (ops c) s' = fo_total_issuance (ops c) s"
    and "ho_balance_on_hold (hops c) reason who s' = ho_balance_on_hold (hops c) reason who s + r"
    and "rr \<noteq> reason \<or> y \<noteq> who \<Longrightarrow> ho_balance_on_hold (hops c) rr y s' = ho_balance_on_hold (hops c) rr y s"
proof -
  let ?old = "ho_balance_on_hold (hops c) reason who s"
  obtain new where new: "new = sat_add u128_max ?old a" "p = Exact \<Longrightarrow> ?old + a \<le> u128_max" and r: "r = new - ?old"
    and set: "if r \<noteq> 0 then ho_set_balance_on_hold (hops c) reason who new s = (Inr (), s') else s' = s"
    using run by (cases p) (auto simp: increase_balance_on_hold_def Let_def checked_add_def split: if_splits)
  show "r \<le> a" "p = Exact \<or> ?old + a \<le> u128_max \<Longrightarrow> r = a" using new r by (auto simp: sat_add_def)
  have "inv c s' \<and> gap (ops c) circulating s' = gap (ops c) circulating s - int r \<and>
    fo_balance (ops c) x s' = fo_balance (ops c) x s \<and>
    fo_total_issuance (ops c) s' = fo_total_issuance (ops c) s \<and>
    ho_balance_on_hold (hops c) reason who s' = ?old + r \<and>
    (rr \<noteq> reason \<or> y \<noteq> who \<longrightarrow> ho_balance_on_hold (hops c) rr y s' = ho_balance_on_hold (hops c) rr y s)"
  proof (cases "r = 0")
    case False
    then have set': "ho_set_balance_on_hold (hops c) reason who new s = (Inr (), s')" and "?old < new"
      using set r by auto
    with set_hold_ok [OF assms(1) set'] set_hold_lookup [OF assms(1) set'] r show ?thesis
      by (cases "x = who") (auto simp: gap_def)
  qed (use set assms(1) in auto)
  then show "inv c s'" "gap (ops c) circulating s' = gap (ops c) circulating s - int r"
    "fo_balance (ops c) x s' = fo_balance (ops c) x s"
    "fo_total_issuance (ops c) s' = fo_total_issuance (ops c) s"
    "ho_balance_on_hold (hops c) reason who s' = ?old + r"
    "rr \<noteq> reason \<or> y \<noteq> who \<Longrightarrow> ho_balance_on_hold (hops c) rr y s' = ho_balance_on_hold (hops c) rr y s"
    by blast+
qed

end


section \<open>The provided methods account for every token\<close>

context hold_laws
begin

text \<open>Placing on hold moves the amount from the main balance to the hold.\<close>

lemma hold_ok:
  assumes "inv c s" and "0 \<le> gap (ops c) circulating s"
    and room: "ho_balance_on_hold (hops c) reason who s + a \<le> u128_max"
    and run: "hold (hops c) reason who a s = (Inr u, s')"
  shows "inv c s'" and "gap (ops c) circulating s' = gap (ops c) circulating s"
    and "ho_balance_on_hold (hops c) reason who s' = ho_balance_on_hold (hops c) reason who s + a"
    and "r \<noteq> reason \<or> x \<noteq> who \<Longrightarrow> ho_balance_on_hold (hops c) r x s' = ho_balance_on_hold (hops c) r x s"
    and "a \<le> fo_reducible_balance (ops c) who Protect Force s"
proof -
  from run obtain d s1 r2 s2 where red: "a \<le> fo_reducible_balance (ops c) who Protect Force s"
    and dec: "decrease_balance (ops c) who a Exact Protect Force s = (Inr d, s1)"
    and inc: "increase_balance_on_hold (hops c) reason who a BestEffort s1 = (Inr r2, s2)"
    and s': "s' = ho_done_hold (hops c) reason who a s2"
    by (auto simp: hold_def ensure_can_hold_def base)
  have "d = a" using dec by (rule decrease_balance_InrE) auto
  note D = decrease_ok [OF assms(1,2) dec] and DH = decrease_holds [OF assms(1,2) dec]
  note I = increase_hold_run [OF D(1) inc]
  have old: "ho_balance_on_hold (hops c) r x s1 = ho_balance_on_hold (hops c) r x s" for r x
    using DH by (simp add: same_holds_def)
  have r2: "r2 = a" using I(4) room by (simp add: old)
  note H = frame_gap [OF hold_hooks_frame(1) [where reason = reason and who = who and amt = a] I(1), folded s']
  note HH = hold_hooks_holds(1) [of c s2 reason who a, folded s', unfolded same_holds_def, rule_format]
  show "inv c s'" by (rule H)
  show "gap (ops c) circulating s' = gap (ops c) circulating s"
    using H(2) I(2) D(2) r2 \<open>d = a\<close> by simp
  show "ho_balance_on_hold (hops c) reason who s' = ho_balance_on_hold (hops c) reason who s + a"
    using HH I(7) r2 old by simp
  show "r \<noteq> reason \<or> x \<noteq> who \<Longrightarrow> ho_balance_on_hold (hops c) r x s' = ho_balance_on_hold (hops c) r x s"
    using HH I(8) [of r x] old by simp
  show "a \<le> fo_reducible_balance (ops c) who Protect Force s" by (rule red)
qed

lemma hold_balance:
  assumes "inv c s" and "0 \<le> gap (ops c) circulating s" and run: "hold (hops c) reason who a s = (Inr u, s')"
    and min: "fo_minimum_balance (ops c) \<le> fo_balance (ops c) who s - a"
  shows "fo_balance (ops c) x s' = (if x = who then fo_balance (ops c) who s - a else fo_balance (ops c) x s)"
    and "fo_total_issuance (ops c) s' = fo_total_issuance (ops c) s"
proof -
  from run obtain d s1 r2 s2 where dec: "decrease_balance (ops c) who a Exact Protect Force s = (Inr d, s1)"
    and inc: "increase_balance_on_hold (hops c) reason who a BestEffort s1 = (Inr r2, s2)"
    and s': "s' = ho_done_hold (hops c) reason who a s2"
    by (auto simp: hold_def ensure_can_hold_def base)
  have d: "d = a" using dec by (rule decrease_balance_InrE) auto
  note D = decrease_ok [OF assms(1,2) dec]
  note K = decrease_keeps [OF assms(1) dec, unfolded d, OF min]
  note I = increase_hold_run [OF D(1) inc]
  note H = frame_gap [OF hold_hooks_frame(1) [where reason = reason and who = who and amt = a] I(1), folded s']
  show "fo_balance (ops c) x s' = (if x = who then fo_balance (ops c) who s - a else fo_balance (ops c) x s)"
    using H(4) [of x] I(5) K(1) by simp
  show "fo_total_issuance (ops c) s' = fo_total_issuance (ops c) s" using H(3) I(6) K(2) by simp
qed

text \<open>
  A release in full gives back to the main balance what it takes from the hold.  A best-effort release
  may take from the hold an amount that is too small to be deposited.
\<close>

lemma release_run:
  assumes run: "release (hops c) reason who a p s = (Inr r, s')"
  obtains am s1 s2 where "fo_can_deposit (ops c) who a Extant s = DC_Success"
    and "decrease_balance_on_hold (hops c) reason who a p s = (Inr am, s1)"
    and "increase_balance (ops c) who am BestEffort s1 = (Inr r, s2)"
    and "s' = ho_done_release (hops c) reason who r s2"
  using run by (auto simp: release_def base)

lemma release_ok:
  assumes "inv c s" and "firm (ops c) who s"
    and run: "release (hops c) reason who a Exact s = (Inr r, s')"
  shows "r = a" and "inv c s'" and "gap (ops c) circulating s' = gap (ops c) circulating s"
    and "fo_balance (ops c) who s' = fo_balance (ops c) who s + a"
    and "a \<le> ho_balance_on_hold (hops c) reason who s"
    and "ho_balance_on_hold (hops c) reason who s' = ho_balance_on_hold (hops c) reason who s - a"
    and "fo_total_issuance (ops c) s' = fo_total_issuance (ops c) s"
proof -
  from run obtain am s1 s2 where cd: "fo_can_deposit (ops c) who a Extant s = DC_Success"
    and dec: "decrease_balance_on_hold (hops c) reason who a Exact s = (Inr am, s1)"
    and inc: "increase_balance (ops c) who am BestEffort s1 = (Inr r, s2)"
    and s': "s' = ho_done_release (hops c) reason who r s2"
    by (rule release_run)
  note D = decrease_hold_run [OF assms(1) dec]
  note firm = D(11) [OF assms(2)]
  have am: "am = a" using D(5) by simp
  have "fo_balance (ops c) who s1 + a \<le> u128_max"
    using can_deposit_ok [OF assms(1) cd] firm balance_bound [OF assms(1), of who] by (cases "a = 0") auto
  then obtain s2' where "increase_balance (ops c) who a BestEffort s1 = (Inr a, s2')"
    using increase_succeeds [OF D(1), of who a] can_deposit_ok [OF assms(1) cd] firm by auto
  with inc am show r: "r = a" by simp
  note I = increase_ok [OF D(1) inc] and IH = increase_holds [OF D(1) inc]
  note H = frame_gap [OF hold_hooks_frame(2) [where reason = reason and who = who and amt = r] I(1), folded s']
  show "inv c s'" by (rule H)
  show "gap (ops c) circulating s' = gap (ops c) circulating s"
    using H(2) I(2) firm r am by simp
  show "fo_balance (ops c) who s' = fo_balance (ops c) who s + a"
    using H(4) [of who] I(3) firm r am by simp
  show "a \<le> ho_balance_on_hold (hops c) reason who s" using D(3) am by simp
  show "ho_balance_on_hold (hops c) reason who s' = ho_balance_on_hold (hops c) reason who s - a"
    using IH hold_hooks_holds(2) [of c s2 reason who r] D(8) am by (simp add: s' same_holds_def)
  show "fo_total_issuance (ops c) s' = fo_total_issuance (ops c) s"
    using H(3) I(7) D(7) by simp
qed

lemma burn_held_ok:
  assumes "inv c s" and "0 \<le> gap (ops c) circulating s" and "firm (ops c) who s"
    and run: "burn_held (hops c) reason who a p f s = (Inr r, s')"
  shows "inv c s'" and "gap (ops c) circulating s' = gap (ops c) circulating s"
    and "fo_balance (ops c) who s' = fo_balance (ops c) who s"
    and "r \<le> a" and "p = Exact \<Longrightarrow> r = a" and "r \<le> ho_reducible_total_balance_on_hold (hops c) who f s"
    and "ho_balance_on_hold (hops c) reason who s' = ho_balance_on_hold (hops c) reason who s - r"
    and "fo_total_issuance (ops c) s' = fo_total_issuance (ops c) s - r"
proof -
  define a1 where "a1 = (if p = BestEffort then min a (ho_reducible_total_balance_on_hold (hops c) who f s) else a)"
  with run obtain s1 where a1: "a1 \<le> a" "a1 \<le> ho_reducible_total_balance_on_hold (hops c) who f s" "p = Exact \<Longrightarrow> a1 = a"
    and dec: "decrease_balance_on_hold (hops c) reason who a1 p s = (Inr r, s1)"
    and s': "s' = ho_done_burn_held (hops c) reason who r
               (fo_set_total_issuance (ops c) (fo_total_issuance (ops c) s1 - r) s1)"
    by (cases p) (auto simp: burn_held_def base)
  note D = decrease_hold_run [OF assms(1) dec]
  note firm = D(11) [OF assms(3)]
  have le: "fo_total_issuance (ops c) s1 - r \<le> u128_max" using issuance_bound [OF D(1)] by linarith
  note S = set_issuance_ok [OF D(1) le]
  let ?s2 = "fo_set_total_issuance (ops c) (fo_total_issuance (ops c) s1 - r) s1"
  note H = frame_gap [OF hold_hooks_frame(3) [where reason = reason and who = who and amt = r], of c ?s2, folded s']
  have r: "r \<le> fo_total_issuance (ops c) s1"
    using assms(2) firm unfolding gap_def by linarith
  show "inv c s'" using H S by blast
  show "gap (ops c) circulating s' = gap (ops c) circulating s"
    using H(2) S gap_set_issuance [OF D(1) le] firm r by simp
  show "fo_balance (ops c) who s' = fo_balance (ops c) who s"
    using H(4) [of who] set_issuance_ok [OF D(1) le, of who] firm by simp
  show "r \<le> a" "p = Exact \<Longrightarrow> r = a" "r \<le> ho_reducible_total_balance_on_hold (hops c) who f s"
    using a1 D(4,5) by auto
  show "ho_balance_on_hold (hops c) reason who s' = ho_balance_on_hold (hops c) reason who s - r"
    using hold_hooks_holds(3) [of c ?s2 reason who r] issuance_holds [OF D(1)] D(8)
    by (simp add: s' same_holds_def)
  show "fo_total_issuance (ops c) s' = fo_total_issuance (ops c) s - r"
    using H(3) S D(7) by simp
qed

lemma slash_held_ok:
  assumes "inv c s" and "firm (ops c) who s"
    and run: "slash_held (hops c) reason who a s = ((k, rest), s')"
  shows "inv c s'" and "gap (ops c) circulating s' = gap (ops c) circulating s + int (credit_peek k)"
    and "credit_peek k + rest = a" and "fo_balance (ops c) who s' = fo_balance (ops c) who s"
proof -
  obtain x s1 where dec: "decrease_balance_on_hold (hops c) reason who a BestEffort s = (x, s1)"
    by (rule prod.exhaust)
  define d where d: "d = (case x of Inl _ \<Rightarrow> 0 | Inr d \<Rightarrow> d)"
  from run dec have s': "s' = ho_done_slash (hops c) reason who d s1" and k: "k = Credit d" and rest: "rest = a - d"
    by (auto simp: slash_held_def Let_def d)
  have "inv c s1 \<and> gap (ops c) circulating s1 = gap (ops c) circulating s + int d \<and> d \<le> a \<and>
        fo_balance (ops c) who s1 = fo_balance (ops c) who s"
  proof (cases x)
    case (Inl e)
    with decrease_hold_err [OF assms(1)] dec assms(1) show ?thesis
      by (auto simp: d token_frame_def gap_def)
  next
    case (Inr y)
    note D = decrease_hold_run [OF assms(1) dec [unfolded Inr]]
    show ?thesis using D(1,4) D(11) [OF assms(2)] by (simp add: d Inr)
  qed
  with frame_gap [OF hold_hooks_frame(6) [where reason = reason and who = who and amt = d], of c s1, folded s']
  show "inv c s'" "gap (ops c) circulating s' = gap (ops c) circulating s + int (credit_peek k)"
    "credit_peek k + rest = a" "fo_balance (ops c) who s' = fo_balance (ops c) who s"
    by (auto simp: k rest)
qed


lemma transfer_on_hold_ok:
  assumes "inv c s" and "firm (ops c) src s"
    and room: "mode = OnHold \<Longrightarrow> ho_balance_on_hold (hops c) reason dest s + a \<le> u128_max"
    and run: "transfer_on_hold (hops c) reason src dest a p mode f s = (Inr r, s')"
  shows "inv c s'" and "gap (ops c) circulating s' = gap (ops c) circulating s"
    and "r \<le> a" and "p = Exact \<Longrightarrow> r = a" and "r \<le> ho_balance_on_hold (hops c) reason src s"
    and "mode = RFree \<Longrightarrow> fo_balance (ops c) dest s' = fo_balance (ops c) dest s + r"
    and "src \<noteq> dest \<Longrightarrow> ho_balance_on_hold (hops c) reason src s' = ho_balance_on_hold (hops c) reason src s - r"
    and "src \<noteq> dest \<Longrightarrow> mode = OnHold \<Longrightarrow>
           ho_balance_on_hold (hops c) reason dest s' = ho_balance_on_hold (hops c) reason dest s + r"
proof -
  let ?hold = "ho_balance_on_hold (hops c) reason"
  define a1 where "a1 = (if p = BestEffort
     then min (min a (ho_reducible_total_balance_on_hold (hops c) src f s)) (?hold src s) else a)"
  with run obtain am s1 s2 where a1: "a1 \<le> a" "p = Exact \<Longrightarrow> a1 = a"
    and cd: "fo_can_deposit (ops c) dest a1 Extant s = DC_Success"
    and dec: "decrease_balance_on_hold (hops c) reason src a1 p s = (Inr am, s1)"
    and inc: "(if mode = OnHold then increase_balance_on_hold (hops c) reason dest am p
               else increase_balance (ops c) dest am p) s1 = (Inr r, s2)"
    and s': "s' = ho_done_transfer_on_hold (hops c) reason src dest r s2"
    by (cases p; cases mode) (auto simp: transfer_on_hold_def base)
  note D = decrease_hold_run [OF assms(1) dec]
  note firm = D(11) [OF assms(2)]
  have am: "am = a1" using D(5,6) a1_def by (cases p) auto
  have bal: "fo_balance (ops c) dest s1 = fo_balance (ops c) dest s" using D(9) firm by (cases "dest = src") auto
  have held: "?hold dest s1 \<le> ?hold dest s" using D(8) D(10) [of reason dest] by (cases "dest = src") auto
  have "inv c s2 \<and> gap (ops c) circulating s2 = gap (ops c) circulating s1 - int r \<and> r = am \<and>
     (if mode = OnHold then ?hold dest s2 = ?hold dest s1 + r \<and> (\<forall>x. x \<noteq> dest \<longrightarrow> ?hold x s2 = ?hold x s1)
      else fo_balance (ops c) dest s2 = fo_balance (ops c) dest s1 + r \<and> same_holds (hops c) s1 s2)"
  proof (cases mode)
    case RFree
    then have inc': "increase_balance (ops c) dest am p s1 = (Inr r, s2)" using inc by simp
    note I = increase_ok [OF D(1) inc']
    have "r = am"
    proof (cases p)
      case BestEffort
      have "fo_balance (ops c) dest s1 + am \<le> u128_max"
        using can_deposit_ok [OF assms(1) cd] bal balance_bound [OF assms(1), of dest] am by (cases "am = 0") auto
      then obtain s2' where "increase_balance (ops c) dest am BestEffort s1 = (Inr am, s2')"
        using increase_succeeds [OF D(1), of dest am] can_deposit_ok [OF assms(1) cd] bal am by auto
      with inc' BestEffort show ?thesis by simp
    qed (use I(5) in simp)
    with I increase_holds [OF D(1) inc'] RFree show ?thesis by simp
  next
    case OnHold
    then have inc': "increase_balance_on_hold (hops c) reason dest am p s1 = (Inr r, s2)" using inc by simp
    note I = increase_hold_run [OF D(1) inc']
    have "r = am" using I(4) room [OF OnHold] held a1(1) am by simp
    with I OnHold show ?thesis by simp
  qed note S2 = this
  note H = frame_gap [OF hold_hooks_frame(4) [where reason = reason and who = src and dest = dest and amt = r], of c s2,
      folded s']
  note HH = hold_hooks_holds(4) [of c s2 reason src dest r, folded s', unfolded same_holds_def, rule_format]
  show "inv c s'" using H S2 by blast
  show "gap (ops c) circulating s' = gap (ops c) circulating s" using H(2) S2 firm by simp
  show "r \<le> a" "p = Exact \<Longrightarrow> r = a" "r \<le> ?hold src s" using S2 a1 am D(3) by auto
  show "mode = RFree \<Longrightarrow> fo_balance (ops c) dest s' = fo_balance (ops c) dest s + r"
    using S2 H(4) [of dest] bal by simp
  show "src \<noteq> dest \<Longrightarrow> ?hold src s' = ?hold src s - r"
    using S2 HH D(8) by (cases mode) (auto simp: same_holds_def)
  show "src \<noteq> dest \<Longrightarrow> mode = OnHold \<Longrightarrow> ?hold dest s' = ?hold dest s + r"
    using S2 HH D(10) [of reason dest] by auto
qed

lemma transfer_and_hold_ok:
  assumes "inv c s" and "0 \<le> gap (ops c) circulating s"
    and room: "ho_balance_on_hold (hops c) reason dest s + a \<le> u128_max"
    and run: "transfer_and_hold (hops c) reason src dest a p v f s = (Inr r, s')"
  shows "inv c s'" and "gap (ops c) circulating s' = gap (ops c) circulating s"
    and "r \<le> a" and "p = Exact \<Longrightarrow> r = a"
    and "ho_balance_on_hold (hops c) reason dest s' = ho_balance_on_hold (hops c) reason dest s + r"
proof -
  from run obtain s1 r2 s2
    where dec: "decrease_balance (ops c) src a p v f s = (Inr r, s1)"
    and inc: "increase_balance_on_hold (hops c) reason dest r p s1 = (Inr r2, s2)"
    and s': "s' = ho_done_transfer_and_hold (hops c) reason src dest r s2"
    by (auto simp: transfer_and_hold_def base)
  have "r = (case p of BestEffort \<Rightarrow> min a (fo_reducible_balance (ops c) src v f s) | Exact \<Rightarrow> a)"
    using dec by (rule decrease_balance_InrE)
  then show ra: "r \<le> a" "p = Exact \<Longrightarrow> r = a" by (cases p; simp)+
  note D = decrease_ok [OF assms(1,2) dec] and DH = decrease_holds [OF assms(1,2) dec]
  note I = increase_hold_run [OF D(1) inc]
  have r2: "r2 = r" using I(4) room DH ra by (simp add: same_holds_def)
  note H = frame_gap [OF hold_hooks_frame(5) [where reason = reason and who = src and dest = dest and amt = r] I(1),
      folded s']
  show "inv c s'" by (rule H)
  show "gap (ops c) circulating s' = gap (ops c) circulating s" using H(2) I(2) D(2) r2 by simp
  show "ho_balance_on_hold (hops c) reason dest s' = ho_balance_on_hold (hops c) reason dest s + r"
    using hold_hooks_holds(5) [of c s2 reason src dest r] I(7) r2 DH by (simp add: s' same_holds_def)
qed

end

end
