(* ===== verification/Balances_Holds.thy ===== *)
theory Balances_Holds
  imports Balances_Fungible Fungible_Hold
begin

text \<open>
  The balances pallet, third part: balances on hold (\<^verbatim>\<open>impl_fungible.rs\<close>).  Interprets \<open>hold_laws\<close> on the
  pallet's implementation.
\<close>

section \<open>Lists of identified amounts\<close>

fun set_first_amount :: "nat \<Rightarrow> balance \<Rightarrow> id_amount list \<Rightarrow> id_amount list" where
  "set_first_amount i amount [] = []"
| "set_first_amount i amount (x # xs) =
     (if ia_id x = i then x\<lparr>ia_amount := amount\<rparr> # xs else x # set_first_amount i amount xs)"

definition amount_of :: "nat \<Rightarrow> id_amount list \<Rightarrow> balance" where
  "amount_of i xs = (case find (\<lambda>x. ia_id x = i) xs of None \<Rightarrow> 0 | Some x \<Rightarrow> ia_amount x)"

section \<open>Holds\<close>

definition total_balance_on_hold :: "account_id \<Rightarrow> bal_state \<Rightarrow> balance" where
  "total_balance_on_hold who s = reserved (account who s)"

definition reducible_total_balance_on_hold :: "account_id \<Rightarrow> fortitude \<Rightarrow> bal_state \<Rightarrow> balance" where
  "reducible_total_balance_on_hold who force s =
     (let a = account who s;
          unavailable = (if force = Force then 0 else frozen a - free a)
      in reserved a - unavailable)"

definition balance_on_hold :: "reason_id \<Rightarrow> account_id \<Rightarrow> bal_state \<Rightarrow> balance" where
  "balance_on_hold reason who s = amount_of reason (holds s who)"

definition hold_available :: "bal_config \<Rightarrow> reason_id \<Rightarrow> account_id \<Rightarrow> bal_state \<Rightarrow> bool" where
  "hold_available c reason who s =
     (if providers who s = 0 then False
      else if length (holds s who) \<ge> hold_variants c \<and> \<not> (\<exists>x \<in> set (holds s who). ia_id x = reason) then False
      else True)"

definition set_balance_on_hold ::
  "bal_config \<Rightarrow> reason_id \<Rightarrow> account_id \<Rightarrow> balance \<Rightarrow> unit bal_em" where
  "set_balance_on_hold c reason who amount =
     ebind (eget (account who)) (\<lambda>new_account.
     ebind (eget (\<lambda>s. holds s who)) (\<lambda>hs.
     ebind (case find (\<lambda>x. ia_id x = reason) hs of
              Some item \<Rightarrow>
                eret (max (ia_amount item) amount - min (ia_amount item) amount, amount > ia_amount item,
                      filter (\<lambda>x. ia_amount x \<noteq> 0) (set_first_amount reason amount hs))
            | None \<Rightarrow>
                if amount \<noteq> 0
                then ebind (eensure (length hs < hold_variants c) (DE_Module BE_TooManyHolds)) (\<lambda>_.
                     eret (amount, True, hs @ [\<lparr>ia_id = reason, ia_amount = amount\<rparr>]))
                else eret (amount, True, hs)) (\<lambda>(delta, increase, hs').
     ebind (if increase
            then eoption (checked_add u128_max (reserved new_account) delta) (DE_Arithmetic AE_Overflow)
            else eoption (checked_sub (reserved new_account) delta) (DE_Arithmetic AE_Underflow)) (\<lambda>r.
     ebind (try_mutate_account c who False (\<lambda>_ _. eret (new_account\<lparr>reserved := r\<rparr>, ()))) (\<lambda>(result, maybe_dust).
     ebind (emod (\<lambda>s. s\<lparr>holds := (holds s)(who := hs')\<rparr>)) (\<lambda>_.
     eret result))))))"

definition balances_hold_ops :: "bal_config \<Rightarrow> bal_state hold_ops" where
  "balances_hold_ops c = \<lparr>
     ho_base = balances_ops c,
     ho_reducible_total_balance_on_hold = reducible_total_balance_on_hold,
     ho_balance_on_hold = balance_on_hold,
     ho_hold_available = hold_available c,
     ho_set_balance_on_hold = set_balance_on_hold c,
     ho_done_hold = (\<lambda>reason who amount. deposit_event (Held reason who amount)),
     ho_done_release = (\<lambda>reason who amount. deposit_event (Released reason who amount)),
     ho_done_burn_held = (\<lambda>reason who amount. deposit_event (BurnedHeld reason who amount)),
     ho_done_transfer_on_hold = (\<lambda>reason source dest amount. deposit_event (TransferOnHold reason source dest amount)),
     ho_done_transfer_and_hold = (\<lambda>reason source dest amount. deposit_event (TransferAndHold reason source dest amount)),
     ho_done_slash = (\<lambda>reason who amount s. s)\<rparr>"

section \<open>Lookup after update\<close>

lemma amount_of_set_first [simp]:
  "amount_of j (set_first_amount i amount xs) =
     (if j = i \<and> find (\<lambda>x. ia_id x = i) xs \<noteq> None then amount else amount_of j xs)"
  by (induction xs) (auto simp: amount_of_def)

lemma map_id_set_first [simp]: "map ia_id (set_first_amount i amount xs) = map ia_id xs"
  by (induction xs) auto

lemma amount_of_filter_nonzero:
  "distinct (map ia_id xs) \<Longrightarrow> amount_of j (filter (\<lambda>x. ia_amount x \<noteq> 0) xs) = amount_of j xs"
proof (induction xs)
  case (Cons x xs)
  have "find (\<lambda>y. ia_id y = ia_id x) (filter (\<lambda>y. 0 < ia_amount y) xs) = None"
    using Cons.prems by (simp add: find_None_iff) (metis imageI)
  with Cons show ?case by (auto simp: amount_of_def)
qed simp

lemma amount_of_filter_id: "amount_of j (filter (\<lambda>x. ia_id x \<noteq> i) xs) = (if j = i then 0 else amount_of j xs)"
  by (induction xs) (auto simp: amount_of_def)

lemma amount_of_append:
  "amount_of j (xs @ [\<lparr>ia_id = i, ia_amount = n\<rparr>]) =
     (if j = i \<and> find (\<lambda>x. ia_id x = i) xs = None then n else amount_of j xs)"
  by (induction xs) (auto simp: amount_of_def)

lemma distinct_map_filter_id: "distinct (map ia_id xs) \<Longrightarrow> distinct (map ia_id (filter P xs))"
  by (induction xs) auto

lemma find_None_id: "find (\<lambda>x. ia_id x = i) xs = None \<longleftrightarrow> i \<notin> set (map ia_id xs)"
  by (auto simp: find_None_iff)

section \<open>Frames of the storage lists\<close>

lemma account_holds_update [simp]:
  "account who (holds_update f s) = account who s" "account who (freezes_update f s) = account who s"
  "account who (locks_update g s) = account who s" "account who (reserves_update f s) = account who s"
  by (simp_all add: account_def stored_get_def get_info_def)

lemma accounts_inv_lists [simp]:
  "accounts_inv c (holds_update f s) = accounts_inv c s" "accounts_inv c (freezes_update f s) = accounts_inv c s"
  "accounts_inv c (locks_update g s) = accounts_inv c s" "accounts_inv c (reserves_update f s) = accounts_inv c s"
  by (simp_all add: accounts_inv_def refs_ok_def)

lemma circulating_lists [simp]:
  "circulating (holds_update f s) = circulating s" "circulating (freezes_update f s) = circulating s"
  "circulating (locks_update g s) = circulating s" "circulating (reserves_update f s) = circulating s"
  by (simp_all add: circulating_def)

section \<open>The holds of the pallet obey the laws\<close>

text \<open>
  The list that \<open>set_balance_on_hold\<close> writes, and the reserved balance: it moves by what the hold moves.
\<close>

lemma set_balance_on_hold_run:
  assumes "distinct (map ia_id (holds s who))" and run: "set_balance_on_hold c reason who amt s = (Inr u, s')"
  obtains hs r du s1 where "s' = s1\<lparr>holds := (holds s1)(who := hs)\<rparr>"
    and "try_mutate_account c who False (\<lambda>_ _. eret ((account who s)\<lparr>reserved := r\<rparr>, ())) s = (Inr ((), du), s1)"
    and "r + balance_on_hold reason who s = reserved (account who s) + amt"
    and "reserved (account who s) \<le> u128_max \<longrightarrow> r \<le> u128_max"
    and "amount_of reason hs = amt" and "\<forall>j. j \<noteq> reason \<longrightarrow> amount_of j hs = amount_of j (holds s who)"
    and "distinct (map ia_id hs)"
proof (cases "find (\<lambda>x. ia_id x = reason) (holds s who)")
  case None
  then have zero: "balance_on_hold reason who s = 0" by (simp add: balance_on_hold_def amount_of_def)
  show ?thesis
  proof (cases "amt = 0")
    case True
    with None run obtain du s1 where
      "try_mutate_account c who False (\<lambda>_ _. eret ((account who s)\<lparr>reserved := reserved (account who s)\<rparr>, ())) s
         = (Inr ((), du), s1)" "s' = s1\<lparr>holds := (holds s1)(who := holds s who)\<rparr>"
      by (auto simp: set_balance_on_hold_def checked_add_def split: if_splits)
    with zero assms(1) True show ?thesis
      by (intro that [of s1 "holds s who"]) (auto simp: balance_on_hold_def)
  next
    case False
    let ?hs = "holds s who @ [\<lparr>ia_id = reason, ia_amount = amt\<rparr>]"
    from False None run obtain du s1 where le: "reserved (account who s) + amt \<le> u128_max"
      and "try_mutate_account c who False (\<lambda>_ _. eret ((account who s)\<lparr>reserved := reserved (account who s) + amt\<rparr>, ())) s
         = (Inr ((), du), s1)" "s' = s1\<lparr>holds := (holds s1)(who := ?hs)\<rparr>"
      by (auto simp: set_balance_on_hold_def checked_add_def split: if_splits)
    with zero None assms(1) show ?thesis
      by (intro that [of s1 ?hs]) (auto simp: amount_of_append find_None_id)
  qed
next
  case (Some item)
  then have item: "balance_on_hold reason who s = ia_amount item" by (simp add: balance_on_hold_def amount_of_def)
  define hs where "hs = filter (\<lambda>x. ia_amount x \<noteq> 0) (set_first_amount reason amt (holds s who))"
  have d: "distinct (map ia_id (set_first_amount reason amt (holds s who)))" using assms(1) by simp
  then have hs: "amount_of j hs = (if j = reason then amt else amount_of j (holds s who))" for j
    using Some unfolding hs_def amount_of_filter_nonzero [OF d] by simp
  have dhs: "distinct (map ia_id hs)" unfolding hs_def by (rule distinct_map_filter_id [OF d])
  show ?thesis
  proof (cases "ia_amount item < amt")
    case True
    let ?r = "reserved (account who s) + (amt - ia_amount item)"
    from True Some run obtain du s1 where "?r \<le> u128_max"
      and "try_mutate_account c who False (\<lambda>_ _. eret ((account who s)\<lparr>reserved := ?r\<rparr>, ())) s
         = (Inr ((), du), s1)" "s' = s1\<lparr>holds := (holds s1)(who := hs)\<rparr>"
      by (auto simp: set_balance_on_hold_def checked_add_def hs_def split: if_splits)
    with True item hs dhs show ?thesis by (intro that [of s1 hs ?r]) auto
  next
    case False
    let ?r = "reserved (account who s) - (ia_amount item - amt)"
    from False Some run obtain du s1 where "ia_amount item - amt \<le> reserved (account who s)"
      and "try_mutate_account c who False (\<lambda>_ _. eret ((account who s)\<lparr>reserved := ?r\<rparr>, ())) s
         = (Inr ((), du), s1)" "s' = s1\<lparr>holds := (holds s1)(who := hs)\<rparr>"
      by (auto simp: set_balance_on_hold_def checked_sub_def hs_def split: if_splits)
    with False item hs dhs show ?thesis by (intro that [of s1 hs ?r]) auto
  qed
qed

lemma set_balance_on_hold_err:
  assumes inv: "bal_inv c s" and run: "set_balance_on_hold c reason who amt s = (Inl e, s')"
  shows "bal_inv c s' \<and> total_issuance s' = total_issuance s \<and> circulating s' = circulating s \<and>
    (\<forall>x. account x s' = account x s) \<and> same_lists s s'"
proof -
  note I = bal_inv_D [OF inv]
  have "s' = s \<or> (\<exists>a e. try_mutate_account c who False (\<lambda>_ _. eret (a, ())) s = (Inl e, s'))"
    using run
    by (auto simp: set_balance_on_hold_def ebind_Inl_iff Let_def split: option.splits if_splits)
  then show ?thesis
  proof
    assume "\<exists>a e. try_mutate_account c who False (\<lambda>_ _. eret (a, ())) s = (Inl e, s')"
    then obtain a e' where run': "try_mutate_account c who False (\<lambda>_ _. eret (a, ())) s = (Inl e', s')"
      by blast
    have M: "mutated c who (account who s) s s'"
      by (rule try_mutate_account_run(2) [OF I(1,2) _ I(2) refl run']) (simp add: eret_def)
    with mutated_same [OF inv M] mutated_lists [OF M] show ?thesis by simp
  qed (use inv in auto)
qed

lemma set_balance_on_hold_law:
  assumes inv: "bal_inv c s" and run: "set_balance_on_hold c reason who amt s = (Inr u, s')"
  shows "bal_inv c s' \<and> total_issuance s' = total_issuance s \<and>
       (\<forall>x. x \<noteq> who \<longrightarrow> account x s' = account x s) \<and>
       circulating s' + balance_on_hold reason who s \<le> circulating s + amt \<and>
       (firm (balances_ops c) who s \<or> balance_on_hold reason who s < amt \<longrightarrow>
          circulating s' + balance_on_hold reason who s = circulating s + amt \<and>
          free (account who s') = free (account who s))"
    and "balance_on_hold reason who s' = amt \<and>
       (\<forall>r x. r \<noteq> reason \<or> x \<noteq> who \<longrightarrow> balance_on_hold r x s' = balance_on_hold r x s)"
proof -
  note I = bal_inv_D [OF inv]
  have dist: "distinct (map ia_id (holds s who))" using I(4) by (simp add: lists_ok_def)
  let ?a = "account who s"
  obtain hs r du s1
    where s': "s' = s1\<lparr>holds := (holds s1)(who := hs)\<rparr>"
    and tm: "try_mutate_account c who False (\<lambda>_ _. eret (?a\<lparr>reserved := r\<rparr>, ())) s = (Inr ((), du), s1)"
    and r: "r + balance_on_hold reason who s = reserved ?a + amt"
    and rmax: "reserved ?a \<le> u128_max \<longrightarrow> r \<le> u128_max"
    and hs: "amount_of reason hs = amt" "\<forall>j. j \<noteq> reason \<longrightarrow> amount_of j hs = amount_of j (holds s who)"
      "distinct (map ia_id hs)" by (rule set_balance_on_hold_run [OF dist run])
  let ?a' = "?a\<lparr>reserved := r\<rparr>"
  have "data_ok ?a'" using account_inv(1) [OF I(1,2), of who] rmax by (simp add: data_ok_def)
  then have M: "mutated c who ?a' s s1"
    using try_mutate_account_run(1) [OF I(1,2) _ I(2) refl tm, of ?a' "()"] by (simp add: eret_def)
  note F = mutated_fields [OF M]
  have acc: "account x s' = account x s1" for x by (simp add: s')
  have "accounts_inv c s1" using M by (simp add: mutated_def)
  moreover have "lists_ok s'" using I(4) hs(3) F by (simp add: s' lists_ok_def)
  ultimately have "bal_inv c s'" using I F(1) by (simp add: bal_inv_def s')
  moreover have "total_issuance s' = total_issuance s" using F(1) by (simp add: s')
  moreover have "\<forall>x. x \<noteq> who \<longrightarrow> account x s' = account x s" using mutated_balance [OF M] acc by simp
  moreover have circ: "circulating s' + tokens ?a = circulating s + tokens (settled c ?a')"
    and acc': "account who s' = settled c ?a'" using M by (simp_all add: s' mutated_def)
  moreover have "circulating s' + balance_on_hold reason who s \<le> circulating s + amt"
    using r circ settled_dust [of c ?a'] by (simp add: tokens_def)
  moreover have "circulating s' + balance_on_hold reason who s = circulating s + amt \<and>
      free (account who s') = free (account who s)"
    if "firm (balances_ops c) who s \<or> balance_on_hold reason who s < amt"
  proof -
    have "settled c ?a' = ?a' \<or> free ?a = 0 \<and> r = 0 \<and> settled c ?a' = account_data_default"
      using that r by (auto simp: settled_def firm_def bal_balance_def)
    then show ?thesis using r circ acc' by (elim disjE conjE) (simp_all add: tokens_def)
  qed
  ultimately show "bal_inv c s' \<and> total_issuance s' = total_issuance s \<and>
       (\<forall>x. x \<noteq> who \<longrightarrow> account x s' = account x s) \<and>
       circulating s' + balance_on_hold reason who s \<le> circulating s + amt \<and>
       (firm (balances_ops c) who s \<or> balance_on_hold reason who s < amt \<longrightarrow>
          circulating s' + balance_on_hold reason who s = circulating s + amt \<and>
          free (account who s') = free (account who s))" by blast
  show "balance_on_hold reason who s' = amt \<and>
       (\<forall>r x. r \<noteq> reason \<or> x \<noteq> who \<longrightarrow> balance_on_hold r x s' = balance_on_hold r x s)"
    using hs F by (auto simp: balance_on_hold_def s')
qed

lemma balances_hold_ops_sel [simp]:
  "ho_base (balances_hold_ops c) = balances_ops c"
  "ho_reducible_total_balance_on_hold (balances_hold_ops c) = reducible_total_balance_on_hold"
  "ho_balance_on_hold (balances_hold_ops c) = balance_on_hold"
  "ho_hold_available (balances_hold_ops c) = hold_available c"
  "ho_set_balance_on_hold (balances_hold_ops c) = set_balance_on_hold c"
  by (simp_all add: balances_hold_ops_def)

lemma same_holds_lists: "same_lists s s' \<Longrightarrow> same_holds (balances_hold_ops c) s s'"
  by (simp add: same_holds_def same_lists_def balance_on_hold_def)

lemma write_balance_lists:
  assumes inv: "bal_inv c s" and run: "write_balance c who amt s = (w, s')"
  shows "same_lists s s'"
proof -
  note I = bal_inv_D [OF inv]
  let ?m = "reducible_balance c who Expendable Force s"
  let ?f = "\<lambda>a. if free a - amt \<le> ?m then (a\<lparr>free := amt\<rparr>, Inr ()) else (a, Inl (DE_Module BE_InsufficientBalance))"
  obtain x s1 where tm: "try_mutate_account c who False (\<lambda>a _. eret (?f a)) s = (x, s1)" by (rule prod.exhaust)
  have "s' = s1"
  proof (cases x)
    case (Inr y)
    then show ?thesis using run tm unfolding write_balance_def mutate_account_def
      by (cases y; cases "fst y") (simp_all add: ebind_def eget_def esum_def eret_def ethrow_def)
  qed (use run tm in \<open>simp add: write_balance_def mutate_account_def ebind_def eget_def\<close>)
  from try_mutate_account_more [where f = "\<lambda>a _. eret (?f a)" and a = "fst (?f (account who s))"
      and r = "snd (?f (account who s))", OF I(1,2) _ I(2) refl tm] \<open>s' = s1\<close>
  have "sys_state.more s' = sys_state.more s" by (simp add: eret_def)
  then show ?thesis by (rule more_lists)
qed

interpretation bh: hold_laws balances_ops bal_inv circulating balances_hold_ops
proof (unfold_locales, goal_cases)
  case (2 c s reason who amt u s')
  then show ?case using set_balance_on_hold_law(1) [of c s reason who amt u s'] by (simp add: bal_balance_def)
next
  case (3 c s reason who amt u s')
  then show ?case using set_balance_on_hold_law(2) [of c s reason who amt u s'] by simp
next
  case (4 c s reason who amt e s')
  then show ?case using set_balance_on_hold_err [of c s reason who amt e s'] same_holds_lists [of s s' c]
    by (simp add: token_frame_def bal_balance_def)
next
  case (5 c s who amt w s')
  then show ?case using write_balance_lists [of c s who amt w s'] same_holds_lists [of s s' c] by simp
next
  case (6 c s du)
  then show ?case using same_holds_lists [of s "dust_removal c du s" c]
    by (auto simp: bal_inv_def cfg_ok_def dust_ok_def gap_def Let_def)
qed (simp_all add: balances_hold_ops_def set_total_issuance_def same_holds_def balance_on_hold_def token_frame_def)

end
