(* ===== verification/Balances_Freezes.thy ===== *)
theory Balances_Freezes
  imports Balances_Holds
begin

text \<open>
  The balances pallet, fourth part: the frozen balance of an account, which is updated from its locks and
  freezes (\<open>update_locks\<close> and \<open>update_freezes\<close> of \<^verbatim>\<open>lib.rs\<close>), and the freezes
  (\<^verbatim>\<open>impl_fungible.rs\<close>).
\<close>

section \<open>Locks and freezes\<close>

text \<open>The frozen balance is the largest of the locks and of the freezes.\<close>

definition frozen_max :: "balance_lock list \<Rightarrow> id_amount list \<Rightarrow> balance" where
  "frozen_max ls fs = fold (\<lambda>l b. max b (ia_amount l)) fs (fold (\<lambda>l b. max b (lock_amount l)) ls 0)"

text \<open>
  The closures of \<open>update_locks\<close> and \<open>update_freezes\<close> record the frozen balance they find and the one
  they write; they cannot fail, so both are known whether or not the mutation goes through.
\<close>

definition update_locks :: "bal_config \<Rightarrow> account_id \<Rightarrow> balance_lock list \<Rightarrow> bal_state \<Rightarrow> bal_state" where
  "update_locks c who ls s =
     (let prev_frozen = frozen (account who s);
          after_frozen = frozen_max ls (freezes s who);
          (res, s1) = mutate_account c who True (\<lambda>b. (b\<lparr>frozen := after_frozen\<rparr>, ())) s;
          s2 = (case res of
                  Inr (_, None) \<Rightarrow> s1
                | Inr (_, Some _) \<Rightarrow> deposit_event (Unexpected BalanceUpdated) s1
                | Inl _ \<Rightarrow> deposit_event (Unexpected FailedToMutateAccount) s1);
          s3 = s2\<lparr>locks := (locks s2)(who := ls)\<rparr>
      in if prev_frozen > after_frozen then deposit_event (Unlocked who (prev_frozen - after_frozen)) s3
         else if after_frozen > prev_frozen then deposit_event (Locked who (after_frozen - prev_frozen)) s3
         else s3)"

definition update_freezes :: "bal_config \<Rightarrow> account_id \<Rightarrow> id_amount list \<Rightarrow> unit bal_em" where
  "update_freezes c who fs =
     ebind (eget (\<lambda>s. frozen (account who s))) (\<lambda>prev_frozen.
     ebind (eget (\<lambda>s. frozen_max (locks s who) fs)) (\<lambda>after_frozen.
     ebind (mutate_account c who False (\<lambda>b. (b\<lparr>frozen := after_frozen\<rparr>, ()))) (\<lambda>(_, maybe_dust).
     ebind (emod (\<lambda>s. if maybe_dust \<noteq> None then deposit_event (Unexpected BalanceUpdated) s else s)) (\<lambda>_.
     ebind (emod (\<lambda>s. s\<lparr>freezes := (freezes s)(who := fs)\<rparr>)) (\<lambda>_.
     emod (\<lambda>s.
       if prev_frozen > after_frozen then deposit_event (Thawed who (prev_frozen - after_frozen)) s
       else if after_frozen > prev_frozen then deposit_event (Ev_Frozen who (after_frozen - prev_frozen)) s
       else s))))))"

definition balance_frozen :: "reason_id \<Rightarrow> account_id \<Rightarrow> bal_state \<Rightarrow> balance" where
  "balance_frozen i who s = amount_of i (freezes s who)"

definition can_freeze :: "bal_config \<Rightarrow> reason_id \<Rightarrow> account_id \<Rightarrow> bal_state \<Rightarrow> bool" where
  "can_freeze c i who s =
     (\<not> length (freezes s who) \<ge> max_freezes c \<or> (\<exists>x \<in> set (freezes s who). ia_id x = i))"

definition thaw :: "bal_config \<Rightarrow> reason_id \<Rightarrow> account_id \<Rightarrow> unit bal_em" where
  "thaw c i who =
     ebind (eget (\<lambda>s. freezes s who)) (\<lambda>fs. update_freezes c who (filter (\<lambda>l. ia_id l \<noteq> i) fs))"

definition set_freeze :: "bal_config \<Rightarrow> reason_id \<Rightarrow> account_id \<Rightarrow> balance \<Rightarrow> unit bal_em" where
  "set_freeze c i who amount =
     (if amount = 0 then thaw c i who
      else
        ebind (eget (\<lambda>s. freezes s who)) (\<lambda>fs.
        ebind (case find (\<lambda>x. ia_id x = i) fs of
                 Some _ \<Rightarrow> eret (set_first_amount i amount fs)
               | None \<Rightarrow>
                   ebind (eensure (length fs < max_freezes c) (DE_Module BE_TooManyFreezes)) (\<lambda>_.
                   eret (fs @ [\<lparr>ia_id = i, ia_amount = amount\<rparr>]))) (\<lambda>fs'.
        update_freezes c who fs')))"

definition extend_freeze :: "bal_config \<Rightarrow> reason_id \<Rightarrow> account_id \<Rightarrow> balance \<Rightarrow> unit bal_em" where
  "extend_freeze c i who amount =
     (if amount = 0 then eret ()
      else
        ebind (eget (\<lambda>s. freezes s who)) (\<lambda>fs.
        ebind (case find (\<lambda>x. ia_id x = i) fs of
                 Some x \<Rightarrow> eret (set_first_amount i (max (ia_amount x) amount) fs)
               | None \<Rightarrow>
                   ebind (eensure (length fs < max_freezes c) (DE_Module BE_TooManyFreezes)) (\<lambda>_.
                   eret (fs @ [\<lparr>ia_id = i, ia_amount = amount\<rparr>]))) (\<lambda>fs'.
        update_freezes c who fs')))"

definition balances_freeze_ops :: "bal_config \<Rightarrow> bal_state freeze_ops" where
  "balances_freeze_ops c = \<lparr>
     zo_total_balance = total_balance,
     zo_balance_frozen = balance_frozen,
     zo_set_freeze = set_freeze c,
     zo_extend_freeze = extend_freeze c\<rparr>"

section \<open>The frozen balance follows the locks and freezes\<close>

lemma fold_max_le: "fold (\<lambda>l b. max b (f l)) xs n \<le> (m :: nat) \<longleftrightarrow> n \<le> m \<and> (\<forall>x \<in> set xs. f x \<le> m)"
  by (induction xs arbitrary: n) auto

lemma frozen_max_le:
  "frozen_max ls fs \<le> m \<longleftrightarrow> (\<forall>l \<in> set ls. lock_amount l \<le> m) \<and> (\<forall>f \<in> set fs. ia_amount f \<le> m)"
  by (auto simp: frozen_max_def fold_max_le)

text \<open>States that differ by an event at most.\<close>

definition up_to_event :: "bal_state \<Rightarrow> bal_state \<Rightarrow> bool" where
  "up_to_event t s \<longleftrightarrow> t = s \<or> (\<exists>e. t = deposit_event e s)"

lemma up_to_event_intros [simp, intro]: "up_to_event s s" "up_to_event (deposit_event e s) s"
  by (auto simp: up_to_event_def)

lemma up_to_event_frame:
  assumes "up_to_event t s"
  shows "bal_inv c t = bal_inv c s" "account x t = account x s" "circulating t = circulating s"
    "total_issuance t = total_issuance s" "locks t = locks s" "reserves t = reserves s" "holds t = holds s"
    "freezes t = freezes s"
  using assms by (auto simp: up_to_event_def)

definition same_tokens :: "bal_state \<Rightarrow> bal_state \<Rightarrow> bool" where
  "same_tokens s s' \<longleftrightarrow> total_issuance s' = total_issuance s \<and> circulating s' = circulating s \<and>
     (\<forall>x. free (account x s') = free (account x s) \<and> reserved (account x s') = reserved (account x s))"

lemma same_tokens_frame [simp]:
  "same_tokens s s" "same_tokens s (deposit_event e t) = same_tokens s t"
  "same_tokens s (locks_update g t) = same_tokens s t" "same_tokens s (freezes_update f t) = same_tokens s t"
  by (auto simp: same_tokens_def)

text \<open>Whether the account stores anything: a balance that is dust with nothing reserved is not kept.\<close>

definition stores :: "bal_config \<Rightarrow> account_id \<Rightarrow> bal_state \<Rightarrow> bool" where
  "stores c who s \<longleftrightarrow> ed c \<le> free (account who s) \<or> reserved (account who s) \<noteq> 0"

lemma mutate_frozen_ok:
  assumes inv: "bal_inv c s" and run: "mutate_account c who fb (\<lambda>b. (b\<lparr>frozen := n\<rparr>, ())) s = (Inr (u, du), s')"
  shows "du = None" and "bal_inv c s'" and "same_tokens s s'" and "same_lists s s'"
    and "frozen (account who s') = (if stores c who s then n else 0)"
    and "x \<noteq> who \<Longrightarrow> account x s' = account x s"
proof -
  note I = bal_inv_D [OF inv]
  let ?a = "(account who s)\<lparr>frozen := n\<rparr>"
  have ok: "data_ok ?a" using account_inv(1) [OF I(1,2), of who] by (simp add: data_ok_def)
  have M: "du = dust_of c ?a" "mutated c who ?a s s'"
    using try_mutate_account_run(1) [OF I(1,2) _ I(2) refl run [unfolded mutate_account_def], of ?a "()"] ok
    by (simp_all add: eret_def)
  have sd: "settled c (account who s) = account who s" by (rule account_inv(2) [OF I(1,2)])
  have zero: "account who s = account_data_default" if "\<not> stores c who s"
  proof -
    from that have "settled c (account who s) = account_data_default" by (simp add: stores_def settled_def)
    with sd show ?thesis by simp
  qed
  show "du = None"
  proof (cases "stores c who s")
    case False
    with zero show ?thesis by (simp add: M(1) dust_of_def)
  qed (auto simp: M(1) dust_of_def stores_def)
  show L: "same_lists s s'" by (rule mutated_lists [OF M(2)])
  show inv': "bal_inv c s'"
    using M(2) I lists_ok_same [OF L I(4)] mutated_fields(1) [OF M(2)] by (simp add: bal_inv_def mutated_def)
  have acc: "account who s' = (if stores c who s then ?a else account_data_default)"
    using M(2) by (auto simp: mutated_def settled_def stores_def)
  show "frozen (account who s') = (if stores c who s then n else 0)" using acc by simp
  show oth: "x \<noteq> who \<Longrightarrow> account x s' = account x s" for x by (rule mutated_balance [OF M(2)])
  have fr: "free (account x s') = free (account x s) \<and> reserved (account x s') = reserved (account x s)" for x
    using acc oth [of x] zero by (cases "x = who"; cases "stores c who s") simp_all
  then have "tokens (account who s') = tokens (account who s)" by (simp add: tokens_def)
  then have "circulating s' = circulating s" using M(2) by (simp add: mutated_def)
  with fr mutated_fields(1) [OF M(2)] show "same_tokens s s'" by (simp add: same_tokens_def)
qed

lemma mutate_frozen_err:
  assumes inv: "bal_inv c s" and run: "mutate_account c who fb (\<lambda>b. (b\<lparr>frozen := n\<rparr>, ())) s = (Inl e, s')"
  shows "bal_inv c s'" and "same_tokens s s'" and "same_lists s s'" and "account x s' = account x s"
proof -
  note I = bal_inv_D [OF inv]
  have M: "mutated c who (account who s) s s'"
    by (rule try_mutate_account_run(2) [OF I(1,2) _ I(2) refl run [unfolded mutate_account_def]]) (simp add: eret_def)
  note S = mutated_same [OF inv M]
  show "bal_inv c s'" "same_tokens s s'" "account x s' = account x s" using S by (auto simp: same_tokens_def)
  show "same_lists s s'" by (rule mutated_lists [OF M])
qed

lemma lists_ok_freezes:
  "lists_ok s \<Longrightarrow> distinct (map ia_id fs) \<Longrightarrow> lists_ok (s\<lparr>freezes := (freezes s)(who := fs)\<rparr>)"
  by (simp add: lists_ok_def)

lemma update_freezes_ok:
  assumes inv: "bal_inv c s" and dist: "distinct (map ia_id fs)"
    and run: "update_freezes c who fs s = (Inr u, s')"
  shows "bal_inv c s'" and "same_tokens s s'" and "freezes s' = (freezes s)(who := fs)" and "locks s' = locks s"
    and "holds s' = holds s" and "frozen (account who s') = (if stores c who s then frozen_max (locks s who) fs else 0)"
    and "x \<noteq> who \<Longrightarrow> account x s' = account x s"
proof -
  let ?n = "frozen_max (locks s who) fs"
  obtain w s1 where m0: "mutate_account c who False (\<lambda>b. (b\<lparr>frozen := ?n\<rparr>, ())) s = (w, s1)" by (rule prod.exhaust)
  with run obtain v du where w: "w = Inr (v, du)"
    by (cases w) (auto simp: update_freezes_def ebind_def eget_def)
  note m = m0 [unfolded w]
  note M = mutate_frozen_ok [OF inv m]
  define s2 where "s2 = s1\<lparr>freezes := (freezes s1)(who := fs)\<rparr>"
  have s': "up_to_event s' s2"
    using run m [unfolded M(1)]
    by (auto simp: update_freezes_def ebind_def eget_def emod_def eret_def s2_def split: if_splits)
  have "lists_ok s2" unfolding s2_def by (rule lists_ok_freezes [OF bal_inv_D(4) [OF M(2)] dist])
  then have "bal_inv c s2" using M(2) by (simp add: bal_inv_def s2_def)
  then show "bal_inv c s'" by (simp add: up_to_event_frame(1) [OF s'])
  show "same_tokens s s'" using M(3) by (simp add: same_tokens_def up_to_event_frame [OF s'] s2_def)
  show "freezes s' = (freezes s)(who := fs)" "locks s' = locks s" "holds s' = holds s"
    using M(4) by (simp_all add: up_to_event_frame [OF s'] s2_def same_lists_def)
  show "frozen (account who s') = (if stores c who s then ?n else 0)" "x \<noteq> who \<Longrightarrow> account x s' = account x s"
    using M(5,6) by (simp_all add: up_to_event_frame [OF s'] s2_def)
qed

lemma update_freezes_err:
  assumes inv: "bal_inv c s" and run: "update_freezes c who fs s = (Inl e, s')"
  shows "bal_inv c s'" and "same_tokens s s'" and "same_lists s s'" and "account x s' = account x s"
proof -
  let ?m = "mutate_account c who False (\<lambda>b. (b\<lparr>frozen := frozen_max (locks s who) fs\<rparr>, ())) s"
  obtain w s1 where m0: "?m = (w, s1)" by (rule prod.exhaust)
  with run have "?m = (Inl e, s')"
    by (cases w) (auto simp: update_freezes_def ebind_def eget_def emod_def)
  note M = mutate_frozen_err [OF inv this]
  show "bal_inv c s'" and "same_tokens s s'" and "same_lists s s'" and "account x s' = account x s" by (rule M)+
qed

lemma update_locks_ok:
  assumes inv: "bal_inv c s" and dist: "distinct (map lock_ident ls)"
  shows "bal_inv c (update_locks c who ls s)" and "same_tokens s (update_locks c who ls s)"
    and "locks (update_locks c who ls s) = (locks s)(who := ls)"
    and "freezes (update_locks c who ls s) = freezes s" and "holds (update_locks c who ls s) = holds s"
    and "x \<noteq> who \<Longrightarrow> account x (update_locks c who ls s) = account x s"
proof -
  let ?n = "frozen_max ls (freezes s who)"
  obtain res s1 where m: "mutate_account c who True (\<lambda>b. (b\<lparr>frozen := ?n\<rparr>, ())) s = (res, s1)" by (rule prod.exhaust)
  have M: "bal_inv c s1 \<and> same_tokens s s1 \<and> same_lists s s1 \<and> (x \<noteq> who \<longrightarrow> account x s1 = account x s)"
  proof (cases res)
    case (Inl e)
    with mutate_frozen_err [OF inv m [unfolded Inl]] show ?thesis by simp
  next
    case (Inr y)
    obtain u du where y: "y = (u, du)" by (rule prod.exhaust)
    show ?thesis using mutate_frozen_ok [OF inv m [unfolded Inr y]] by simp
  qed
  define s2 where "s2 = (case res of Inr (_, None) \<Rightarrow> s1 | Inr (_, Some _) \<Rightarrow> deposit_event (Unexpected BalanceUpdated) s1
     | Inl _ \<Rightarrow> deposit_event (Unexpected FailedToMutateAccount) s1)"
  define s3 where "s3 = s2\<lparr>locks := (locks s2)(who := ls)\<rparr>"
  have s': "up_to_event (update_locks c who ls s) s3"
    using m by (simp add: update_locks_def s3_def s2_def Let_def)
  have s2: "up_to_event s2 s1"
    by (auto simp: s2_def split: sum.split option.split)
  have "lists_ok s1" using M by (simp add: bal_inv_def)
  then have "lists_ok s3" using dist by (simp add: lists_ok_def s3_def up_to_event_frame [OF s2])
  then have "bal_inv c s3" using M up_to_event_frame(1) [OF s2, of c] by (simp add: bal_inv_def s3_def)
  then show "bal_inv c (update_locks c who ls s)" by (simp add: up_to_event_frame(1) [OF s'])
  show "same_tokens s (update_locks c who ls s)"
    using M by (simp add: same_tokens_def up_to_event_frame [OF s'] s3_def up_to_event_frame [OF s2])
  show "locks (update_locks c who ls s) = (locks s)(who := ls)"
    "freezes (update_locks c who ls s) = freezes s" "holds (update_locks c who ls s) = holds s"
    "x \<noteq> who \<Longrightarrow> account x (update_locks c who ls s) = account x s"
    using M by (simp_all add: up_to_event_frame [OF s'] s3_def up_to_event_frame [OF s2] same_lists_def)
qed


text \<open>
  What a change of one freeze leaves behind: the entry itself, the other entries, the tokens of every
  account, and a frozen balance that is the largest of the locks and freezes of the account.
\<close>

definition freeze_set :: "bal_config \<Rightarrow> reason_id \<Rightarrow> account_id \<Rightarrow> balance \<Rightarrow> bal_state \<Rightarrow> bal_state \<Rightarrow> bool" where
  "freeze_set c i who amount s s' \<longleftrightarrow>
     bal_inv c s' \<and> same_tokens s s' \<and> locks s' = locks s \<and> holds s' = holds s \<and>
     (\<forall>j x. balance_frozen j x s' = (if j = i \<and> x = who then amount else balance_frozen j x s)) \<and>
     frozen (account who s') = (if stores c who s then frozen_max (locks s' who) (freezes s' who) else 0)"

lemma update_freezes_set:
  assumes inv: "bal_inv c s" and "distinct (map ia_id fs)"
    and "\<And>j. amount_of j fs = (if j = i then amount else amount_of j (freezes s who))"
    and run: "update_freezes c who fs s = (Inr u, s')"
  shows "freeze_set c i who amount s s'"
proof -
  note U = update_freezes_ok [OF inv assms(2) run]
  show ?thesis using U(1,2,5,6) assms(3) by (simp add: freeze_set_def balance_frozen_def U(3,4))
qed

lemma bal_inv_freezes: "bal_inv c s \<Longrightarrow> distinct (map ia_id (freezes s who))"
  by (simp add: bal_inv_def lists_ok_def)

lemma thaw_ok:
  assumes inv: "bal_inv c s" and run: "thaw c i who s = (Inr u, s')"
  shows "freeze_set c i who 0 s s'"
proof (rule update_freezes_set [OF inv])
  show "update_freezes c who (filter (\<lambda>l. ia_id l \<noteq> i) (freezes s who)) s = (Inr u, s')"
    using run by (simp add: thaw_def)
qed (use bal_inv_freezes [OF inv, of who] in \<open>simp_all add: amount_of_filter_id distinct_map_filter_id\<close>)

lemma freeze_list:
  assumes "distinct (map ia_id fs)"
    and "(case find (\<lambda>x. ia_id x = i) fs of
            Some x \<Rightarrow> eret (set_first_amount i (f x) fs)
          | None \<Rightarrow> ebind (eensure b e) (\<lambda>_. eret (fs @ [\<lparr>ia_id = i, ia_amount = amount\<rparr>]))) s = (Inr fs', s1)"
  shows "s1 = s" and "distinct (map ia_id fs')"
    and "amount_of j fs' = (if j = i then case find (\<lambda>x. ia_id x = i) fs of None \<Rightarrow> amount | Some x \<Rightarrow> f x
                            else amount_of j fs)"
proof -
  have "s1 = s \<and> distinct (map ia_id fs') \<and>
    amount_of j fs' = (if j = i then case find (\<lambda>x. ia_id x = i) fs of None \<Rightarrow> amount | Some x \<Rightarrow> f x
                       else amount_of j fs)"
  proof (cases "find (\<lambda>x. ia_id x = i) fs")
    case None
    with find_None_id [of i fs] assms show ?thesis by (auto simp: amount_of_append)
  qed (use assms in auto)
  then show "s1 = s" "distinct (map ia_id fs')"
    "amount_of j fs' = (if j = i then case find (\<lambda>x. ia_id x = i) fs of None \<Rightarrow> amount | Some x \<Rightarrow> f x
                        else amount_of j fs)" by simp_all
qed

lemma set_freeze_ok:
  assumes inv: "bal_inv c s" and run: "set_freeze c i who amount s = (Inr u, s')"
  shows "freeze_set c i who amount s s'"
proof (cases "amount = 0")
  case True
  with run thaw_ok [OF inv] show ?thesis by (simp add: set_freeze_def)
next
  case False
  with run obtain fs' where l: "(case find (\<lambda>x. ia_id x = i) (freezes s who) of
            Some x \<Rightarrow> eret (set_first_amount i amount (freezes s who))
          | None \<Rightarrow> ebind (eensure (length (freezes s who) < max_freezes c) (DE_Module BE_TooManyFreezes))
                      (\<lambda>_. eret (freezes s who @ [\<lparr>ia_id = i, ia_amount = amount\<rparr>]))) s = (Inr fs', s)"
    and up: "update_freezes c who fs' s = (Inr u, s')"
    by (auto simp: set_freeze_def split: option.splits)
  note L = freeze_list [OF bal_inv_freezes [OF inv] l]
  show ?thesis
    by (rule update_freezes_set [OF inv L(2) _ up]) (simp add: L(3) split: option.split)
qed

lemma extend_freeze_ok:
  assumes inv: "bal_inv c s" and "amount \<noteq> 0" and run: "extend_freeze c i who amount s = (Inr u, s')"
  shows "freeze_set c i who (max (balance_frozen i who s) amount) s s'"
proof -
  from run \<open>amount \<noteq> 0\<close> obtain fs' where l: "(case find (\<lambda>x. ia_id x = i) (freezes s who) of
            Some x \<Rightarrow> eret (set_first_amount i (max (ia_amount x) amount) (freezes s who))
          | None \<Rightarrow> ebind (eensure (length (freezes s who) < max_freezes c) (DE_Module BE_TooManyFreezes))
                      (\<lambda>_. eret (freezes s who @ [\<lparr>ia_id = i, ia_amount = amount\<rparr>]))) s = (Inr fs', s)"
    and up: "update_freezes c who fs' s = (Inr u, s')"
    by (auto simp: extend_freeze_def split: option.splits)
  note L = freeze_list [OF bal_inv_freezes [OF inv] l]
  show ?thesis
    by (rule update_freezes_set [OF inv L(2) _ up]) (simp add: L(3) balance_frozen_def amount_of_def [of i "freezes s who"] split: option.split)
qed

end
