(* ===== verification/Balances_Currency.thy ===== *)
theory Balances_Currency
  imports Balances_Freezes
begin

text \<open>
  The balances pallet, fifth part: the \<open>Currency\<close> traits
  (\<^verbatim>\<open>substrate/frame/balances/src/impl_currency.rs\<close>): imbalances, plain and named reserves, locks, and
  the move of reserved balances between accounts (\<open>do_transfer_reserved\<close> of \<^verbatim>\<open>lib.rs\<close>).
\<close>

section \<open>Imbalances\<close>

datatype positive_imbalance = PositiveImbalance (pos_peek: balance)
datatype negative_imbalance = NegativeImbalance (neg_peek: balance)

datatype signed_imbalance = SI_Positive positive_imbalance | SI_Negative negative_imbalance

definition pos_drop_zero :: "positive_imbalance \<Rightarrow> positive_imbalance + unit" where
  "pos_drop_zero p = (if pos_peek p = 0 then Inr () else Inl p)"

definition pos_split :: "positive_imbalance \<Rightarrow> balance \<Rightarrow> positive_imbalance \<times> positive_imbalance" where
  "pos_split p amount =
     (let first = min (pos_peek p) amount; second = pos_peek p - first
      in (PositiveImbalance first, PositiveImbalance second))"

text \<open>\<open>extract\<close> returns what is taken and what \<open>self\<close> becomes.\<close>

definition pos_extract :: "positive_imbalance \<Rightarrow> balance \<Rightarrow> positive_imbalance \<times> positive_imbalance" where
  "pos_extract p amount =
     (let new = min (pos_peek p) amount in (PositiveImbalance new, PositiveImbalance (pos_peek p - new)))"

definition pos_merge :: "positive_imbalance \<Rightarrow> positive_imbalance \<Rightarrow> positive_imbalance" where
  "pos_merge p other = PositiveImbalance (sat_add u128_max (pos_peek p) (pos_peek other))"

definition pos_offset ::
  "positive_imbalance \<Rightarrow> negative_imbalance \<Rightarrow> (positive_imbalance, negative_imbalance) same_or_other" where
  "pos_offset p other =
     (let a = pos_peek p; b = neg_peek other in
      if a > b then SO_Same (PositiveImbalance (a - b))
      else if b > a then SO_Other (NegativeImbalance (b - a))
      else SO_None)"

definition neg_drop_zero :: "negative_imbalance \<Rightarrow> negative_imbalance + unit" where
  "neg_drop_zero n = (if neg_peek n = 0 then Inr () else Inl n)"

definition neg_split :: "negative_imbalance \<Rightarrow> balance \<Rightarrow> negative_imbalance \<times> negative_imbalance" where
  "neg_split n amount =
     (let first = min (neg_peek n) amount; second = neg_peek n - first
      in (NegativeImbalance first, NegativeImbalance second))"

definition neg_extract :: "negative_imbalance \<Rightarrow> balance \<Rightarrow> negative_imbalance \<times> negative_imbalance" where
  "neg_extract n amount =
     (let new = min (neg_peek n) amount in (NegativeImbalance new, NegativeImbalance (neg_peek n - new)))"

definition neg_merge :: "negative_imbalance \<Rightarrow> negative_imbalance \<Rightarrow> negative_imbalance" where
  "neg_merge n other = NegativeImbalance (sat_add u128_max (neg_peek n) (neg_peek other))"

definition neg_offset ::
  "negative_imbalance \<Rightarrow> positive_imbalance \<Rightarrow> (negative_imbalance, positive_imbalance) same_or_other" where
  "neg_offset n other =
     (let a = neg_peek n; b = pos_peek other in
      if a > b then SO_Same (NegativeImbalance (a - b))
      else if b > a then SO_Other (PositiveImbalance (b - a))
      else SO_None)"

fun signed_merge :: "signed_imbalance \<Rightarrow> signed_imbalance \<Rightarrow> signed_imbalance" where
  "signed_merge (SI_Positive one) (SI_Positive other) = SI_Positive (pos_merge one other)"
| "signed_merge (SI_Negative one) (SI_Negative other) = SI_Negative (neg_merge one other)"
| "signed_merge (SI_Positive one) (SI_Negative other) =
     (case pos_offset one other of
        SO_Same positive \<Rightarrow> SI_Positive positive
      | SO_Other negative \<Rightarrow> SI_Negative negative
      | SO_None \<Rightarrow> SI_Positive (PositiveImbalance 0))"
| "signed_merge (SI_Negative one) (SI_Positive other) =
     (case pos_offset other one of
        SO_Same positive \<Rightarrow> SI_Positive positive
      | SO_Other negative \<Rightarrow> SI_Negative negative
      | SO_None \<Rightarrow> SI_Positive (PositiveImbalance 0))"

text \<open>The destructors square up the issuance.\<close>

definition drop_positive :: "positive_imbalance \<Rightarrow> bal_state \<Rightarrow> bal_state" where
  "drop_positive p s =
     (if pos_peek p \<noteq> 0
      then deposit_event (Issued (pos_peek p))
             (s\<lparr>total_issuance := sat_add u128_max (total_issuance s) (pos_peek p)\<rparr>)
      else s)"

definition drop_negative :: "negative_imbalance \<Rightarrow> bal_state \<Rightarrow> bal_state" where
  "drop_negative n s =
     (if neg_peek n \<noteq> 0
      then deposit_event (Rescinded (neg_peek n)) (s\<lparr>total_issuance := total_issuance s - neg_peek n\<rparr>)
      else s)"

fun drop_signed :: "signed_imbalance \<Rightarrow> bal_state \<Rightarrow> bal_state" where
  "drop_signed (SI_Positive p) s = drop_positive p s"
| "drop_signed (SI_Negative n) s = drop_negative n s"

section \<open>Currency\<close>

definition can_slash :: "account_id \<Rightarrow> balance \<Rightarrow> bal_state \<Rightarrow> bool" where
  "can_slash who value s = (if value = 0 then True else free (account who s) \<ge> value)"

definition cur_burn :: "balance \<Rightarrow> bal_state \<Rightarrow> positive_imbalance \<times> bal_state" where
  "cur_burn amount0 s =
     (if amount0 = 0 then (PositiveImbalance 0, s)
      else
        let (issued, amount) = (case checked_sub (total_issuance s) amount0 of
              Some x \<Rightarrow> (x, amount0) | None \<Rightarrow> (0, total_issuance s))
        in (PositiveImbalance amount, deposit_event (Rescinded amount) (s\<lparr>total_issuance := issued\<rparr>)))"

definition cur_issue :: "balance \<Rightarrow> bal_state \<Rightarrow> negative_imbalance \<times> bal_state" where
  "cur_issue amount0 s =
     (if amount0 = 0 then (NegativeImbalance 0, s)
      else
        let (issued, amount) = (case checked_add u128_max (total_issuance s) amount0 of
              Some x \<Rightarrow> (x, amount0) | None \<Rightarrow> (u128_max, u128_max - total_issuance s))
        in (NegativeImbalance amount, deposit_event (Issued amount) (s\<lparr>total_issuance := issued\<rparr>)))"

definition ensure_can_withdraw :: "account_id \<Rightarrow> balance \<Rightarrow> withdraw_reasons \<Rightarrow> balance \<Rightarrow> unit bal_em" where
  "ensure_can_withdraw who amount reasons new_balance =
     (if amount = 0 then eret ()
      else ebind (eget (\<lambda>s. frozen (account who s))) (\<lambda>fz.
           eensure (new_balance \<ge> fz) (DE_Module BE_LiquidityRestrictions)))"

definition cur_transfer ::
  "bal_config \<Rightarrow> account_id \<Rightarrow> account_id \<Rightarrow> balance \<Rightarrow> existence_requirement \<Rightarrow> unit bal_em" where
  "cur_transfer c transactor dest value existence_requirement =
     (if value = 0 \<or> transactor = dest then eret ()
      else
        let keep_alive = (case existence_requirement of KeepAlive \<Rightarrow> Preserve | AllowDeath \<Rightarrow> Expendable)
        in ebind (transfer (balances_ops c) transactor dest value keep_alive) (\<lambda>_. eret ()))"

text \<open>The closures that the operations pass to the mutation of the account have names of their own.\<close>

definition slash_closure ::
  "bal_config \<Rightarrow> account_id \<Rightarrow> balance \<Rightarrow> account_data \<Rightarrow> bool
     \<Rightarrow> (account_data \<times> negative_imbalance \<times> balance) bal_em" where
  "slash_closure c who value account0 is_new =
     ebind (eget (can_dec_provider who)) (\<lambda>can_dec.
     let actual = (if can_dec then min value (free account0) else min value (free account0 - ed c));
         account1 = account0\<lparr>free := free account0 - actual\<rparr>;
         remaining = value - actual
     in eret (account1, (NegativeImbalance actual, remaining)))"

definition cur_slash ::
  "bal_config \<Rightarrow> account_id \<Rightarrow> balance \<Rightarrow> bal_state \<Rightarrow> (negative_imbalance \<times> balance) \<times> bal_state" where
  "cur_slash c who value s =
     (if value = 0 then ((NegativeImbalance 0, 0), s)
      else if total_balance who s = 0 then ((NegativeImbalance 0, value), s)
      else
        case try_mutate_account_handling_dust c who False (\<lambda>(n, _). drop_negative n) (slash_closure c who value) s of
          (Inr (imbalance, remaining), s1) \<Rightarrow>
            ((imbalance, remaining), deposit_event (Slashed who (value - remaining)) s1)
        | (Inl _, s1) \<Rightarrow> ((NegativeImbalance 0, value), s1))"

definition deposit_into_existing_closure ::
  "account_id \<Rightarrow> balance \<Rightarrow> account_data \<Rightarrow> bool \<Rightarrow> (account_data \<times> positive_imbalance) bal_em" where
  "deposit_into_existing_closure who value account0 is_new =
     ebind (eensure (\<not> is_new) (DE_Module BE_DeadAccount)) (\<lambda>_.
     ebind (eoption (checked_add u128_max (free account0) value) (DE_Arithmetic AE_Overflow)) (\<lambda>x.
     ebind (emod (deposit_event (Deposit who value))) (\<lambda>_.
     eret (account0\<lparr>free := x\<rparr>, PositiveImbalance value))))"

definition deposit_into_existing :: "bal_config \<Rightarrow> account_id \<Rightarrow> balance \<Rightarrow> positive_imbalance bal_em" where
  "deposit_into_existing c who value =
     (if value = 0 then eret (PositiveImbalance 0)
      else try_mutate_account_handling_dust c who False drop_positive (deposit_into_existing_closure who value))"

definition deposit_creating_closure ::
  "bal_config \<Rightarrow> account_id \<Rightarrow> balance \<Rightarrow> account_data \<Rightarrow> bool \<Rightarrow> (account_data \<times> positive_imbalance) bal_em" where
  "deposit_creating_closure c who value account0 is_new =
     ebind (eensure (value \<ge> ed c \<or> \<not> is_new) (DE_Module BE_ExistentialDeposit)) (\<lambda>_.
     case checked_add u128_max (free account0) value of
       None \<Rightarrow> eret (account0, PositiveImbalance 0)
     | Some x \<Rightarrow>
         ebind (emod (deposit_event (Deposit who value))) (\<lambda>_.
         eret (account0\<lparr>free := x\<rparr>, PositiveImbalance value)))"

definition deposit_creating ::
  "bal_config \<Rightarrow> account_id \<Rightarrow> balance \<Rightarrow> bal_state \<Rightarrow> positive_imbalance \<times> bal_state" where
  "deposit_creating c who value s =
     (if value = 0 then (PositiveImbalance 0, s)
      else
        case try_mutate_account_handling_dust c who False drop_positive (deposit_creating_closure c who value) s of
          (Inr imbalance, s1) \<Rightarrow> (imbalance, s1)
        | (Inl _, s1) \<Rightarrow> (PositiveImbalance 0, s1))"

definition withdraw_closure ::
  "bal_config \<Rightarrow> account_id \<Rightarrow> balance \<Rightarrow> withdraw_reasons \<Rightarrow> existence_requirement \<Rightarrow> account_data \<Rightarrow> bool
     \<Rightarrow> (account_data \<times> negative_imbalance) bal_em" where
  "withdraw_closure c who value reasons liveness account0 is_new =
     ebind (eoption (checked_sub (free account0) value) (DE_Module BE_InsufficientBalance)) (\<lambda>new_free_account.
     let would_be_dead = (new_free_account < ed c);
         would_kill = (would_be_dead \<and> free account0 \<ge> ed c) in
     ebind (eensure (liveness = AllowDeath \<or> \<not> would_kill) (DE_Module BE_Expendability)) (\<lambda>_.
     ebind (ensure_can_withdraw who value reasons new_free_account) (\<lambda>_.
     ebind (emod (deposit_event (Withdraw who value))) (\<lambda>_.
     eret (account0\<lparr>free := new_free_account\<rparr>, NegativeImbalance value)))))"

definition cur_withdraw ::
  "bal_config \<Rightarrow> account_id \<Rightarrow> balance \<Rightarrow> withdraw_reasons \<Rightarrow> existence_requirement \<Rightarrow> negative_imbalance bal_em"
  where
  "cur_withdraw c who value reasons liveness =
     (if value = 0 then eret (NegativeImbalance 0)
      else try_mutate_account_handling_dust c who False drop_negative (withdraw_closure c who value reasons liveness))"

definition make_free_closure ::
  "bal_config \<Rightarrow> account_id \<Rightarrow> balance \<Rightarrow> account_data \<Rightarrow> bool \<Rightarrow> (account_data \<times> signed_imbalance) bal_em" where
  "make_free_closure c who value account0 is_new =
     ebind (eensure (value \<ge> ed c \<or> \<not> is_new) (DE_Module BE_ExistentialDeposit)) (\<lambda>_.
     let imbalance = (if free account0 \<le> value
                      then SI_Positive (PositiveImbalance (value - free account0))
                      else SI_Negative (NegativeImbalance (free account0 - value))) in
     ebind (emod (deposit_event (BalanceSet who value))) (\<lambda>_.
     eret (account0\<lparr>free := value\<rparr>, imbalance)))"

definition make_free_balance_be ::
  "bal_config \<Rightarrow> account_id \<Rightarrow> balance \<Rightarrow> bal_state \<Rightarrow> signed_imbalance \<times> bal_state" where
  "make_free_balance_be c who value s =
     (case try_mutate_account_handling_dust c who False drop_signed (make_free_closure c who value) s of
        (Inr imbalance, s1) \<Rightarrow> (imbalance, s1)
      | (Inl _, s1) \<Rightarrow> (SI_Positive (PositiveImbalance 0), s1))"

section \<open>Reserves\<close>

definition ensure_can_reserve :: "bal_config \<Rightarrow> account_id \<Rightarrow> balance \<Rightarrow> bool \<Rightarrow> unit bal_em" where
  "ensure_can_reserve c who value check_existential_deposit =
     ebind (eget (\<lambda>s. free (account who s))) (\<lambda>fr.
     ebind (eoption (checked_sub fr value) (DE_Module BE_InsufficientBalance)) (\<lambda>new_free_balance.
     if check_existential_deposit
     then eensure (new_free_balance \<ge> ed c) (DE_Module BE_Expendability)
     else eret ()))"

definition can_reserve :: "bal_config \<Rightarrow> account_id \<Rightarrow> balance \<Rightarrow> bal_state \<Rightarrow> bool" where
  "can_reserve c who value s =
     (if value = 0 then True
      else case fst (ensure_can_reserve c who value True s) of Inl _ \<Rightarrow> False | Inr _ \<Rightarrow> True)"

definition reserve_closure ::
  "bal_config \<Rightarrow> account_id \<Rightarrow> balance \<Rightarrow> account_data \<Rightarrow> bool \<Rightarrow> (account_data \<times> unit) bal_em" where
  "reserve_closure c who value account0 is_new =
     ebind (eoption (checked_sub (free account0) value) (DE_Module BE_InsufficientBalance)) (\<lambda>fr.
     ebind (eoption (checked_add u128_max (reserved account0) value) (DE_Arithmetic AE_Overflow)) (\<lambda>re.
     ebind (ensure_can_reserve c who value False) (\<lambda>_.
     eret (account0\<lparr>free := fr, reserved := re\<rparr>, ()))))"

definition reserve :: "bal_config \<Rightarrow> account_id \<Rightarrow> balance \<Rightarrow> unit bal_em" where
  "reserve c who value =
     (if value = 0 then eret ()
      else
        ebind (try_mutate_account_handling_dust c who False (\<lambda>_ s. s) (reserve_closure c who value)) (\<lambda>_.
        emod (deposit_event (Reserved who value))))"

definition unreserve_closure :: "balance \<Rightarrow> account_data \<Rightarrow> account_data \<times> balance" where
  "unreserve_closure value account0 =
     (let actual = min (reserved account0) value
      in (account0\<lparr>reserved := reserved account0 - actual,
                   free := sat_add u128_max (free account0) actual\<rparr>, actual))"

definition unreserve :: "bal_config \<Rightarrow> account_id \<Rightarrow> balance \<Rightarrow> bal_state \<Rightarrow> balance \<times> bal_state" where
  "unreserve c who value s =
     (if value = 0 then (0, s)
      else if total_balance who s = 0 then (value, s)
      else
        case mutate_account_handling_dust c who False (\<lambda>_ s. s) (unreserve_closure value) s of
          (Inr actual, s1) \<Rightarrow> (value - actual, deposit_event (Unreserved who actual) s1)
        | (Inl _, s1) \<Rightarrow> (value, s1))"

definition slash_reserved_closure :: "balance \<Rightarrow> account_data \<Rightarrow> account_data \<times> negative_imbalance \<times> balance" where
  "slash_reserved_closure value account0 =
     (let actual = min value (reserved account0)
      in (account0\<lparr>reserved := reserved account0 - actual\<rparr>, (NegativeImbalance actual, value - actual)))"

definition slash_reserved ::
  "bal_config \<Rightarrow> account_id \<Rightarrow> balance \<Rightarrow> bal_state \<Rightarrow> (negative_imbalance \<times> balance) \<times> bal_state" where
  "slash_reserved c who value s =
     (if value = 0 then ((NegativeImbalance 0, 0), s)
      else if total_balance who s = 0 then ((NegativeImbalance 0, value), s)
      else
        case mutate_account_handling_dust c who False (\<lambda>(n, _). drop_negative n) (slash_reserved_closure value) s of
          (Inr (imbalance, not_slashed), s1) \<Rightarrow>
            ((imbalance, not_slashed), deposit_event (Slashed who (value - not_slashed)) s1)
        | (Inl _, s1) \<Rightarrow> ((NegativeImbalance 0, value), s1))"

text \<open>The nested mutation: the debit of the reserve inside the credit of the beneficiary.\<close>

definition transfer_reserved_closure ::
  "bal_config \<Rightarrow> account_id \<Rightarrow> balance \<Rightarrow> balance_status \<Rightarrow> account_data \<Rightarrow> bool \<Rightarrow> (account_data \<times> balance option) bal_em"
  where
  "transfer_reserved_closure c slashed actual status to_account is_new =
     ebind (eensure (\<not> is_new) (DE_Module BE_DeadAccount)) (\<lambda>_.
     ebind (try_mutate_account c slashed False (\<lambda>from_account _.
       ebind (case status of
                BS_Free \<Rightarrow>
                  ebind (eoption (checked_add u128_max (free to_account) actual) (DE_Arithmetic AE_Overflow))
                    (\<lambda>x. eret (to_account\<lparr>free := x\<rparr>))
              | BS_Reserved \<Rightarrow>
                  ebind (eoption (checked_add u128_max (reserved to_account) actual) (DE_Arithmetic AE_Overflow))
                    (\<lambda>x. eret (to_account\<lparr>reserved := x\<rparr>))) (\<lambda>to_account'.
       eret (from_account\<lparr>reserved := reserved from_account - actual\<rparr>, to_account')))) (\<lambda>(to_account', maybe_dust_1).
     eret (to_account', maybe_dust_1)))"

definition do_transfer_reserved ::
  "bal_config \<Rightarrow> account_id \<Rightarrow> account_id \<Rightarrow> balance \<Rightarrow> precision \<Rightarrow> fortitude \<Rightarrow> balance_status \<Rightarrow> balance bal_em"
  where
  "do_transfer_reserved c slashed beneficiary value precision fortitude status =
     (if value = 0 then eret 0
      else
        ebind (eget (reducible_total_balance_on_hold slashed fortitude)) (\<lambda>mx.
        let actual = (case precision of BestEffort \<Rightarrow> min value mx | Exact \<Rightarrow> value) in
        ebind (eensure (actual \<le> mx) (DE_Token TE_FundsUnavailable)) (\<lambda>_.
        if slashed = beneficiary
        then (case status of
                BS_Free \<Rightarrow> ebind (elift (unreserve c slashed actual)) (\<lambda>rest. eret (actual - rest))
              | BS_Reserved \<Rightarrow> eret actual)
        else
          ebind (try_mutate_account c beneficiary False (transfer_reserved_closure c slashed actual status))
            (\<lambda>(maybe_dust_1, maybe_dust_2).
          ebind (emod (\<lambda>s. case maybe_dust_1 of None \<Rightarrow> s | Some dust \<Rightarrow> handle_raw_dust (balances_ops c) dust s)) (\<lambda>_.
          ebind (emod (\<lambda>s. case maybe_dust_2 of None \<Rightarrow> s | Some dust \<Rightarrow> handle_raw_dust (balances_ops c) dust s)) (\<lambda>_.
          ebind (emod (deposit_event (ReserveRepatriated slashed beneficiary actual status))) (\<lambda>_.
          eret actual)))))))"

definition repatriate_reserved ::
  "bal_config \<Rightarrow> account_id \<Rightarrow> account_id \<Rightarrow> balance \<Rightarrow> balance_status \<Rightarrow> balance bal_em" where
  "repatriate_reserved c slashed beneficiary value status =
     ebind (do_transfer_reserved c slashed beneficiary value BestEffort Polite status) (\<lambda>actual.
     eret (value - actual))"

section \<open>Named reserves\<close>

text \<open>
  The named reserves of an account are sorted by identifier; on a sorted list the binary search of the
  standard library returns the index of the key or the index at which it would be inserted.  An account
  without an entry in storage and one with an empty list read the same.
\<close>

definition binary_search_by_key :: "reserve_id \<Rightarrow> id_amount list \<Rightarrow> nat + nat" where
  "binary_search_by_key i xs =
     (let n = length (filter (\<lambda>x. ia_id x < i) xs) in
      if n < length xs \<and> ia_id (xs ! n) = i then Inr n else Inl n)"

definition put_reserves :: "account_id \<Rightarrow> id_amount list \<Rightarrow> bal_state \<Rightarrow> bal_state" where
  "put_reserves who rs s = s\<lparr>reserves := (reserves s)(who := rs)\<rparr>"

definition reserved_balance_named :: "reserve_id \<Rightarrow> account_id \<Rightarrow> bal_state \<Rightarrow> balance" where
  "reserved_balance_named i who s =
     (case binary_search_by_key i (reserves s who) of
        Inr index \<Rightarrow> ia_amount (reserves s who ! index)
      | Inl _ \<Rightarrow> 0)"

definition insert_reserve ::
  "bal_config \<Rightarrow> nat \<Rightarrow> id_amount \<Rightarrow> id_amount list \<Rightarrow> id_amount list bal_em" where
  "insert_reserve c index d rs =
     (if length rs < max_reserves c then eret (take index rs @ d # drop index rs)
      else ethrow (DE_Module BE_TooManyReserves))"

definition reserve_named :: "bal_config \<Rightarrow> reserve_id \<Rightarrow> account_id \<Rightarrow> balance \<Rightarrow> unit bal_em" where
  "reserve_named c i who value =
     (if value = 0 then eret ()
      else
        ebind (eget (\<lambda>s. reserves s who)) (\<lambda>rs.
        ebind (case binary_search_by_key i rs of
                 Inr index \<Rightarrow>
                   ebind (eoption (checked_add u128_max (ia_amount (rs ! index)) value) (DE_Arithmetic AE_Overflow))
                     (\<lambda>x. eret (rs[index := (rs ! index)\<lparr>ia_amount := x\<rparr>]))
               | Inl index \<Rightarrow> insert_reserve c index \<lparr>ia_id = i, ia_amount = value\<rparr> rs) (\<lambda>rs'.
        ebind (reserve c who value) (\<lambda>_.
        emod (put_reserves who rs')))))"

definition unreserve_named ::
  "bal_config \<Rightarrow> reserve_id \<Rightarrow> account_id \<Rightarrow> balance \<Rightarrow> bal_state \<Rightarrow> balance \<times> bal_state" where
  "unreserve_named c i who value s =
     (if value = 0 then (0, s)
      else
        let rs = reserves s who in
        case binary_search_by_key i rs of
          Inr index \<Rightarrow>
            let to_change = min (ia_amount (rs ! index)) value;
                (remain, s1) = unreserve c who to_change s;
                actual = to_change - remain;
                amount = ia_amount (rs ! index) - actual;
                rs' = (if amount = 0 then take index rs @ drop (Suc index) rs
                       else rs[index := (rs ! index)\<lparr>ia_amount := amount\<rparr>])
            in (value - actual, put_reserves who rs' s1)
        | Inl _ \<Rightarrow> (value, s))"

definition slash_reserved_named ::
  "bal_config \<Rightarrow> reserve_id \<Rightarrow> account_id \<Rightarrow> balance \<Rightarrow> bal_state
     \<Rightarrow> (negative_imbalance \<times> balance) \<times> bal_state" where
  "slash_reserved_named c i who value s =
     (if value = 0 then ((NegativeImbalance 0, 0), s)
      else
        let rs = reserves s who in
        case binary_search_by_key i rs of
          Inr index \<Rightarrow>
            let to_change = min (ia_amount (rs ! index)) value;
                ((imb, remain), s1) = slash_reserved c who to_change s;
                actual = to_change - remain;
                rs' = rs[index := (rs ! index)\<lparr>ia_amount := ia_amount (rs ! index) - actual\<rparr>]
            in ((imb, value - actual), put_reserves who rs' (deposit_event (Slashed who actual) s1))
        | Inl _ \<Rightarrow> ((NegativeImbalance 0, value), s))"

definition repatriate_into_named ::
  "bal_config \<Rightarrow> reserve_id \<Rightarrow> account_id \<Rightarrow> account_id \<Rightarrow> balance \<Rightarrow> balance_status \<Rightarrow> balance bal_em" where
  "repatriate_into_named c i slashed beneficiary to_change status =
     ebind (eget (\<lambda>s. reserves s beneficiary)) (\<lambda>rs.
     case binary_search_by_key i rs of
       Inr index \<Rightarrow>
         ebind (repatriate_reserved c slashed beneficiary to_change status) (\<lambda>remain.
         let actual = to_change - remain in
         ebind (emod (put_reserves beneficiary
           (rs[index := (rs ! index)\<lparr>ia_amount := sat_add u128_max (ia_amount (rs ! index)) actual\<rparr>]))) (\<lambda>_.
         eret actual))
     | Inl index \<Rightarrow>
         ebind (repatriate_reserved c slashed beneficiary to_change status) (\<lambda>remain.
         let actual = to_change - remain in
         ebind (insert_reserve c index \<lparr>ia_id = i, ia_amount = actual\<rparr> rs) (\<lambda>rs'.
         ebind (emod (put_reserves beneficiary rs')) (\<lambda>_.
         eret actual))))"

definition repatriate_reserved_named ::
  "bal_config \<Rightarrow> reserve_id \<Rightarrow> account_id \<Rightarrow> account_id \<Rightarrow> balance \<Rightarrow> balance_status \<Rightarrow> balance bal_em" where
  "repatriate_reserved_named c i slashed beneficiary value status =
     (if value = 0 then eret 0
      else if slashed = beneficiary
      then (case status of
              BS_Free \<Rightarrow> elift (unreserve_named c i slashed value)
            | BS_Reserved \<Rightarrow> ebind (eget (reserved_balance_named i slashed)) (\<lambda>b. eret (value - b)))
      else
        ebind (eget (\<lambda>s. reserves s slashed)) (\<lambda>rs.
        case binary_search_by_key i rs of
          Inr index \<Rightarrow>
            let to_change = min (ia_amount (rs ! index)) value in
            ebind (if status = BS_Reserved then repatriate_into_named c i slashed beneficiary to_change status
                   else ebind (repatriate_reserved c slashed beneficiary to_change status)
                          (\<lambda>remain. eret (to_change - remain))) (\<lambda>actual.
            ebind (emod (put_reserves slashed
              (rs[index := (rs ! index)\<lparr>ia_amount := ia_amount (rs ! index) - actual\<rparr>]))) (\<lambda>_.
            eret (value - actual)))
        | Inl _ \<Rightarrow> eret value))"

section \<open>Locks\<close>

text \<open>
  The \<open>filter_map\<close> over the locks: the first lock with the identifier takes the new lock, further ones
  find it taken; what is left of it at the end is pushed.
\<close>

fun lock_filter_map ::
  "lock_id \<Rightarrow> (balance_lock \<Rightarrow> balance_lock \<Rightarrow> balance_lock) \<Rightarrow> balance_lock option \<Rightarrow> balance_lock list
     \<Rightarrow> balance_lock list \<times> balance_lock option" where
  "lock_filter_map i f new_lock [] = ([], new_lock)"
| "lock_filter_map i f new_lock (l # ls) =
     (if lock_ident l = i
      then (case new_lock of
              None \<Rightarrow> lock_filter_map i f None ls
            | Some nl \<Rightarrow> (let (r, rest) = lock_filter_map i f None ls in (f l nl # r, rest)))
      else (let (r, rest) = lock_filter_map i f new_lock ls in (l # r, rest)))"

definition merged_locks ::
  "(balance_lock \<Rightarrow> balance_lock \<Rightarrow> balance_lock) \<Rightarrow> balance_lock \<Rightarrow> balance_lock list \<Rightarrow> balance_lock list" where
  "merged_locks f new_lock ls =
     (let (r, rest) = lock_filter_map (lock_ident new_lock) f (Some new_lock) ls
      in r @ (case rest of None \<Rightarrow> [] | Some l \<Rightarrow> [l]))"

definition remove_lock :: "bal_config \<Rightarrow> lock_id \<Rightarrow> account_id \<Rightarrow> bal_state \<Rightarrow> bal_state" where
  "remove_lock c i who s = update_locks c who (filter (\<lambda>l. lock_ident l \<noteq> i) (locks s who)) s"

definition set_lock ::
  "bal_config \<Rightarrow> lock_id \<Rightarrow> account_id \<Rightarrow> balance \<Rightarrow> withdraw_reasons \<Rightarrow> bal_state \<Rightarrow> bal_state" where
  "set_lock c i who amount reasons s =
     (if reasons = 0 \<or> amount = 0 then remove_lock c i who s
      else
        let new_lock = \<lparr>lock_ident = i, lock_amount = amount, lock_reasons = reasons_from reasons\<rparr>
        in update_locks c who (merged_locks (\<lambda>l nl. nl) new_lock (locks s who)) s)"

definition extend_lock ::
  "bal_config \<Rightarrow> lock_id \<Rightarrow> account_id \<Rightarrow> balance \<Rightarrow> withdraw_reasons \<Rightarrow> bal_state \<Rightarrow> bal_state" where
  "extend_lock c i who amount reasons s =
     (if amount = 0 \<or> reasons = 0 then s
      else
        let new_lock = \<lparr>lock_ident = i, lock_amount = amount, lock_reasons = reasons_from reasons\<rparr>
        in update_locks c who (merged_locks (\<lambda>l nl.
             \<lparr>lock_ident = lock_ident l, lock_amount = max (lock_amount l) (lock_amount nl),
              lock_reasons = reasons_bitor (lock_reasons l) (lock_reasons nl)\<rparr>) new_lock (locks s who)) s)"

definition balance_locked :: "lock_id \<Rightarrow> account_id \<Rightarrow> bal_state \<Rightarrow> balance" where
  "balance_locked i who s =
     fold (\<lambda>l acc. (acc + lock_amount l) mod (u128_max + 1)) (filter (\<lambda>l. lock_ident l = i) (locks s who)) 0"

end
