(* ===== verification/Balances_Accounting.thy ===== *)
theory Balances_Accounting
  imports Balances_Currency
begin

text \<open>
  The accounting of the \<open>Currency\<close> operations: what each of them does to the balances, the reserves, the
  locks and the issuance.
\<close>

section \<open>Mutations that handle their dust\<close>

text \<open>
  The specification of \<open>try_mutate_account_handling_dust\<close> for a closure that changes the account and
  raises at most an event: the issuance that no account holds grows by what the account loses.
\<close>

lemma up_to_event_info:
  assumes "up_to_event t s"
  shows "sys_account t = sys_account s" and "accounts_inv c t = accounts_inv c s" and "same_lists s t"
    and "issuance_gap t = issuance_gap s"
  using assms by (auto simp: up_to_event_def deposit_event_def issuance_gap_def accounts_inv_def refs_ok_def
      same_lists_def circulating_def)

lemma dust_of_lt: "dust_of c a = Some v \<Longrightarrow> v < ed c"
  by (simp add: dust_of_def split: if_splits)

lemma raw_dust_ok:
  assumes "bal_inv c s" and "\<And>v. d = Some v \<Longrightarrow> v < ed c \<and> int v \<le> issuance_gap s"
  defines "s' \<equiv> (case d of None \<Rightarrow> s | Some dust \<Rightarrow> handle_raw_dust (balances_ops c) dust s)"
  shows "bal_inv c s'" and "issuance_gap s' = issuance_gap s - int (opt_val id d)" and "same_lists s s'"
    and "free (account x s) \<le> free (account x s')"
proof -
  have raw: "handle_raw_dust (balances_ops c) v s = dust_removal c v s" if "d = Some v" for v
  proof -
    have "min v (ed c - 1) = v" using assms(2) [OF that] by linarith
    then show ?thesis by (simp add: handle_raw_dust_def)
  qed
  have "same_lists s (dust_removal c v s)" if "d = Some v" for v
    using assms(1,2) that by (auto simp: bal_inv_def cfg_ok_def dust_ok_def issuance_gap_def Let_def)
  then show "same_lists s s'" by (auto simp: s'_def raw split: option.split)
  show "bal_inv c s'" "issuance_gap s' = issuance_gap s - int (opt_val id d)"
    "free (account x s) \<le> free (account x s')"
    using dust_removal_law [of c s] assms(1,2)
    by (auto simp: s'_def raw bal_balance_def split: option.split)
qed

lemma handling_dust_ok:
  assumes inv: "bal_inv c s"
    and f: "f (account who s) (account who s = account_data_default) s = (Inr (a, r), s1)"
    and ev: "up_to_event s1 s" and a: "data_ok a"
    and room: "dust_of c a \<noteq> None \<Longrightarrow> 0 \<le> issuance_gap s + int (tokens (account who s)) - int (tokens a)"
    and run: "try_mutate_account_handling_dust c who fb dr f s = (Inr r', s')"
  shows "r' = r" and "bal_inv c s'"
    and "issuance_gap s' = issuance_gap s + int (tokens (account who s)) - int (tokens a)"
    and "same_lists s s'"
    and "dust_of c a = None \<Longrightarrow> account who s' = settled c a"
    and "dust_of c a = None \<Longrightarrow> x \<noteq> who \<Longrightarrow> account x s' = account x s"
    and "dust_of c a = None \<Longrightarrow> total_issuance s' = total_issuance s"
    and "x \<noteq> who \<Longrightarrow> free (account x s) \<le> free (account x s')"
proof -
  note I = bal_inv_D [OF inv]
  note E = up_to_event_info [OF ev]
  note F = up_to_event_frame [OF ev]
  have inv1: "accounts_inv c s1" using I(2) E(2) by simp
  obtain du s2 where tm: "try_mutate_account c who fb f s = (Inr (r', du), s2)"
    and s': "s' = (case du of None \<Rightarrow> s2 | Some dust \<Rightarrow> handle_raw_dust (balances_ops c) dust s2)"
    using run unfolding try_mutate_account_handling_dust_def
    by (auto simp: try_mutate_account_drop_run [where f = f, OF I(1,2) f] split: prod.splits sum.splits)
  have sa: "sys_account s1 who = sys_account s who" by (simp add: E(1))
  have M: "r' = r" "du = dust_of c a" "mutated c who a s1 s2"
    using try_mutate_account_run(1) [where f = f, OF I(1,2) f inv1 sa tm] a by simp_all
  show "r' = r" by (rule M(1))
  have L: "same_lists s s2" using same_lists_trans [OF E(3) mutated_lists [OF M(3)]] .
  have inv2: "bal_inv c s2"
    using I M(3) lists_ok_same [OF L] mutated_fields(1) [OF M(3)] by (simp add: bal_inv_def mutated_def F)
  have acc: "account who s1 = account who s" by (simp add: F)
  have gap2: "issuance_gap s2 = issuance_gap s + int (tokens (account who s)) - int (tokens (settled c a))"
    using M(3) mutated_fields(1) [OF M(3)] by (simp add: mutated_def issuance_gap_def F acc)
  have sd: "tokens (settled c a) + opt_val id du = tokens a" using settled_dust [of c a] M(2) by simp
  have le: "v < ed c \<and> int v \<le> issuance_gap s2" if "du = Some v" for v
    using that room sd gap2 M(2) dust_of_lt [of c a v] by simp
  note D = raw_dust_ok [where d = du, OF inv2 le, folded s', simplified]
  show "bal_inv c s'" "same_lists s s'" using D(1) same_lists_trans [OF L D(3)] by simp_all
  show "issuance_gap s' = issuance_gap s + int (tokens (account who s)) - int (tokens a)"
    using D(2) gap2 sd by simp
  show "x \<noteq> who \<Longrightarrow> free (account x s) \<le> free (account x s')" 
    using D(4) [of x] mutated_balance [OF M(3)] F by simp
  assume "dust_of c a = None"
  then have "s' = s2" using s' M(2) by simp
  then show "total_issuance s' = total_issuance s" "x \<noteq> who \<Longrightarrow> account x s' = account x s" "account who s' = settled c a"
    using mutated_fields(1) [OF M(3)] mutated_balance [OF M(3)] M(3) F by (simp_all add: mutated_def)
qed

text \<open>
  Where the reference counters refuse the mutation nothing changes, but the result of the closure is
  dropped.
\<close>

lemma handling_dust_err:
  assumes inv: "bal_inv c s"
    and f: "f (account who s) (account who s = account_data_default) s = (Inr (a, r), s1)"
    and ev: "up_to_event s1 s"
    and run: "try_mutate_account_handling_dust c who fb dr f s = (Inl e, s')"
  obtains t where "s' = dr r t" and "bal_inv c t" and "issuance_gap t = issuance_gap s"
    and "\<forall>x. account x t = account x s" and "total_issuance t = total_issuance s" and "same_lists s t"
proof -
  note I = bal_inv_D [OF inv]
  note E = up_to_event_info [OF ev]
  note F = up_to_event_frame [OF ev]
  have inv1: "accounts_inv c s1" and binv1: "bal_inv c s1" using I(2) E(2) inv F(1) by simp_all
  obtain t where tm: "try_mutate_account c who fb f s = (Inl e, t)" and s': "s' = dr r t"
    using run unfolding try_mutate_account_handling_dust_def
    by (auto simp: try_mutate_account_drop_run [where f = f, OF I(1,2) f] ebind_Inl_iff split: prod.splits sum.splits)
  have sa: "sys_account s1 who = sys_account s who" by (simp add: E(1))
  have "mutated c who (account who s) s1 t"
    by (rule try_mutate_account_run(2) [where f = f, OF I(1,2) f inv1 sa tm])
  then have M: "mutated c who (account who s1) s1 t" by (simp add: F)
  note S = mutated_same [OF binv1 M]
  have "same_lists s t" using same_lists_trans [OF E(3) mutated_lists [OF M]] .
  with S show ?thesis by (intro that [OF s']) (auto simp: F issuance_gap_def)
qed

lemma handling_dust_closure_err:
  assumes inv: "bal_inv c s"
    and f: "f (account who s) (account who s = account_data_default) s = (Inl e, s1)"
  shows "try_mutate_account_handling_dust c who fb dr f s = (Inl e, s1)"
  using try_mutate_account_drop_closure_err [where f = f, OF bal_inv_D(1,2) [OF inv] f]
  by (simp add: try_mutate_account_handling_dust_def ebind_def)

lemma mutate_handling_dust:
  "mutate_account_handling_dust c who fb dr f = try_mutate_account_handling_dust c who fb dr (\<lambda>a _. eret (f a))"
  by (simp add: mutate_account_handling_dust_def try_mutate_account_handling_dust_def mutate_account_drop_def)

lemma tokens_le: "sound c s \<Longrightarrow> tokens (account who s) \<le> u128_max"
  using circulating_ge [OF accounts_inv_refs, of c s who] by (simp add: sound_def bal_inv_def)

lemma drop_frame [simp]:
  "bal_inv c t \<Longrightarrow> bal_inv c (drop_negative n t)" "account x (drop_negative n t) = account x t"
  "circulating (drop_negative n t) = circulating t" "total_issuance (drop_negative n t) = total_issuance t - neg_peek n"
  "same_lists s (drop_negative n t) = same_lists s t"
  by (auto simp: drop_negative_def bal_inv_def)

text \<open>The outcome of a successful mutation of \<open>who\<close> to \<open>a\<close>, dust included.\<close>

definition handled :: "bal_config \<Rightarrow> account_id \<Rightarrow> account_data \<Rightarrow> bal_state \<Rightarrow> bal_state \<Rightarrow> bool" where
  "handled c who a s s' \<longleftrightarrow>
     bal_inv c s' \<and> same_lists s s' \<and>
     issuance_gap s' = issuance_gap s + int (tokens (account who s)) - int (tokens a) \<and>
     (\<forall>x. x \<noteq> who \<longrightarrow> free (account x s) \<le> free (account x s')) \<and>
     (dust_of c a = None \<longrightarrow>
        account who s' = settled c a \<and> total_issuance s' = total_issuance s \<and>
        (\<forall>x. x \<noteq> who \<longrightarrow> account x s' = account x s))"

lemma handled_event [simp]: "handled c who a s (deposit_event e s') = handled c who a s s'"
  by (simp add: handled_def issuance_gap_def)

lemma handling_dust_cases:
  assumes inv: "bal_inv c s"
    and run: "try_mutate_account_handling_dust c who fb dr f s = (x, s')"
    and spec: "\<And>a r s1. f (account who s) (account who s = account_data_default) s = (Inr (a, r), s1) \<Longrightarrow>
       up_to_event s1 s \<and> data_ok a \<and>
       (dust_of c a \<noteq> None \<longrightarrow> 0 \<le> issuance_gap s + int (tokens (account who s)) - int (tokens a))"
  obtains (ok) a r s1 where "x = Inr r" and "f (account who s) (account who s = account_data_default) s = (Inr (a, r), s1)"
      and "handled c who a s s'"
  | (closure_err) e where "x = Inl e" and "f (account who s) (account who s = account_data_default) s = (Inl e, s')"
  | (refused) a r s1 e t where "x = Inl e" and "f (account who s) (account who s = account_data_default) s = (Inr (a, r), s1)"
      and "s' = dr r t" and "bal_inv c t" and "issuance_gap t = issuance_gap s"
      and "\<forall>x. account x t = account x s" and "total_issuance t = total_issuance s" and "same_lists s t"
proof (cases "f (account who s) (account who s = account_data_default) s")
  case (Pair y s1)
  show ?thesis
  proof (cases y)
    case (Inl e)
    with handling_dust_closure_err [where f = f, OF inv Pair [unfolded Inl], of fb dr] run Pair closure_err
    show ?thesis by simp
  next
    case (Inr z)
    obtain a r where z: "z = (a, r)" by (rule prod.exhaust)
    note f = Pair [unfolded Inr z]
    note K = spec [OF f]
    show ?thesis
    proof (cases x)
      case (Inr r')
      have "r' = r \<and> handled c who a s s'"
        using handling_dust_ok [where f = f, OF inv f _ _ _ run [unfolded Inr]] K by (simp add: handled_def)
      with Inr f ok show ?thesis by simp
    next
      case (Inl e)
      obtain t where "s' = dr r t" "bal_inv c t" "issuance_gap t = issuance_gap s"
        "\<forall>x. account x t = account x s" "total_issuance t = total_issuance s" "same_lists s t"
        by (rule handling_dust_err [where f = f, OF inv f _ run [unfolded Inl]]) (use K in auto)
      with refused Inl f show ?thesis by blast
    qed
  qed
qed

section \<open>Withdrawals and deposits\<close>

text \<open>The room for dust: a mutation that does not add tokens can pay for its dust.\<close>

lemma dust_room:
  assumes "sound c s" and "tokens a \<le> tokens (account who s)"
  shows "0 \<le> issuance_gap s + int (tokens (account who s)) - int (tokens a)"
  using assms by (simp add: sound_gap)

lemma account_data_ok: "bal_inv c s \<Longrightarrow> data_ok (account who s)"
  using account_inv(1) by (auto simp: bal_inv_def)

lemma data_ok_free: "bal_inv c s \<Longrightarrow> n \<le> free (account who s) \<Longrightarrow> data_ok ((account who s)\<lparr>free := n\<rparr>)"
  using account_data_ok [of c s who] by (simp add: data_ok_def)

lemma withdraw_closure_ok:
  assumes "value \<noteq> 0" and "withdraw_closure c who value reasons liveness (account who s) new s = (Inr (a, r), s1)"
  shows "value \<le> free (account who s)" "frozen (account who s) \<le> free (account who s) - value"
    "liveness = KeepAlive \<Longrightarrow> ed c \<le> free (account who s) \<Longrightarrow> ed c \<le> free (account who s) - value"
    "a = (account who s)\<lparr>free := free (account who s) - value\<rparr>" "r = NegativeImbalance value" "up_to_event s1 s"
  using assms
  by (auto simp: withdraw_closure_def ensure_can_withdraw_def checked_sub_def Let_def split: if_splits)

lemma withdraw_closure_err:
  "withdraw_closure c who value reasons liveness (account who s) new s = (Inl e, s1) \<Longrightarrow> s1 = s"
  by (auto simp: withdraw_closure_def ensure_can_withdraw_def Let_def ebind_Inl_iff split: if_splits)

lemma cur_withdraw_cases:
  assumes sd: "sound c s" and "value \<noteq> 0" and run: "cur_withdraw c who value reasons liveness s = (x, s')"
  obtains (ok) "x = Inr (NegativeImbalance value)" "value \<le> free (account who s)"
      "frozen (account who s) \<le> free (account who s) - value"
      "liveness = KeepAlive \<longrightarrow> ed c \<le> free (account who s) \<longrightarrow> ed c \<le> free (account who s) - value"
      "handled c who ((account who s)\<lparr>free := free (account who s) - value\<rparr>) s s'"
  | (closure_err) e where "x = Inl e" "s' = s"
  | (refused) e t where "x = Inl e" "s' = drop_negative (NegativeImbalance value) t" "bal_inv c t"
      "\<forall>y. account y t = account y s" "total_issuance t = total_issuance s" "same_lists s t"
      "issuance_gap t = issuance_gap s"
proof -
  have inv: "bal_inv c s" using sd by (simp add: sound_def)
  let ?f = "withdraw_closure c who value reasons liveness"
  have run': "try_mutate_account_handling_dust c who False drop_negative ?f s = (x, s')"
    using run assms(2) by (simp add: cur_withdraw_def withdraw_closure_def)
  show ?thesis
  proof (cases rule: handling_dust_cases [where f = ?f, OF inv run'])
    case (1 a r s1)
    note W = withdraw_closure_ok [OF assms(2) 1]
    have "tokens a \<le> tokens (account who s)" by (simp add: W(4) tokens_def)
    with W dust_room [OF sd this] data_ok_free [OF inv] show ?case by simp
  next
    case (2 a r s1)
    note W = withdraw_closure_ok [OF assms(2) 2(2)]
    with 2 ok show ?thesis by simp
  next
    case (3 e)
    with withdraw_closure_err [OF 3(2)] closure_err show ?thesis by simp
  next
    case (4 a r s1 e t)
    note W = withdraw_closure_ok [OF assms(2) 4(2)]
    with 4 refused show ?thesis by simp
  qed
qed


lemma handling_dust_succeeds:
  assumes inv: "bal_inv c s"
    and f: "f (account who s) (account who s = account_data_default) s = (Inr (a, r), s1)"
    and ev: "up_to_event s1 s"
    and prov: "ed c \<le> free (account who s) \<and> free a < ed c \<longrightarrow> can_dec_provider who s"
    and cons: "reserved a \<noteq> 0 \<or> frozen a \<noteq> 0 \<longrightarrow> reserved (account who s) \<noteq> 0 \<or> frozen (account who s) \<noteq> 0"
  shows "\<exists>s'. try_mutate_account_handling_dust c who fb dr f s = (Inr r, s')"
proof -
  note I = bal_inv_D [OF inv] and E = up_to_event_info [OF ev]
  have "accounts_inv c s1" "sys_account s1 who = sys_account s who" using I(2) E(1,2) by simp_all
  from try_mutate_account_succeeds [where f = f, OF I(1,2) f this prov cons, of fb]
  obtain s2 where "try_mutate_account c who fb f s = (Inr (r, dust_of c a), s2)" by blast
  then show ?thesis
    by (simp add: try_mutate_account_handling_dust_def ebind_def emod_def eret_def
        try_mutate_account_drop_run [where f = f, OF I(1,2) f])
qed

text \<open>
  A slash takes from the free balance only, as much as the references of the account allow; it is never
  refused, and what it returns accounts for the whole value.
\<close>

definition slashable :: "bal_config \<Rightarrow> account_id \<Rightarrow> bal_state \<Rightarrow> balance" where
  "slashable c who s =
     (if can_dec_provider who s then free (account who s) else free (account who s) - ed c)"

lemma slash_closure_run:
  "slash_closure c who value (account who s) new s =
     (Inr ((account who s)\<lparr>free := free (account who s) - min value (slashable c who s)\<rparr>,
           (NegativeImbalance (min value (slashable c who s)), value - min value (slashable c who s))), s)"
  by (simp add: slash_closure_def slashable_def ebind_def eget_def eret_def Let_def)

lemma cur_slash_ok:
  assumes sd: "sound c s" and run: "cur_slash c who value s = ((n, rest), s')"
  shows "bal_inv c s'" and "issuance_gap s' = issuance_gap s + int (neg_peek n)" and "neg_peek n + rest = value"
    and "same_lists s s'"
    and "value \<noteq> 0 \<Longrightarrow> total_balance who s \<noteq> 0 \<Longrightarrow> neg_peek n = min value (slashable c who s)"
    and "x \<noteq> who \<Longrightarrow> free (account x s) \<le> free (account x s')"
proof -
  have inv: "bal_inv c s" using sd by (simp add: sound_def)
  let ?v = "min value (slashable c who s)"
  let ?a = "(account who s)\<lparr>free := free (account who s) - ?v\<rparr>"
  have "slashable c who s \<le> free (account who s)" by (simp add: slashable_def)
  then have le: "?v \<le> free (account who s)" by linarith
  have "bal_inv c s' \<and> issuance_gap s' = issuance_gap s + int (neg_peek n) \<and> neg_peek n + rest = value \<and> same_lists s s' \<and>
    (value \<noteq> 0 \<longrightarrow> total_balance who s \<noteq> 0 \<longrightarrow> neg_peek n = ?v) \<and> (x \<noteq> who \<longrightarrow> free (account x s) \<le> free (account x s'))"
  proof (cases "value = 0 \<or> total_balance who s = 0")
    case True
    with run inv show ?thesis by (cases "value = 0") (auto simp: cur_slash_def)
  next
    case False
    let ?f = "slash_closure c who value"
    have tok: "tokens ?a + ?v = tokens (account who s)" using le by (simp add: tokens_def)
    obtain s1 where run': "try_mutate_account_handling_dust c who False (\<lambda>(n, _). drop_negative n) ?f s
        = (Inr (NegativeImbalance ?v, value - ?v), s1)"
    proof -
      have "ed c \<le> free (account who s) \<and> free ?a < ed c \<longrightarrow> can_dec_provider who s"
        by (cases "can_dec_provider who s") (auto simp: slashable_def)
      from handling_dust_succeeds [where f = ?f, OF inv slash_closure_run _ this] that show ?thesis by fastforce
    qed
    have s': "s' = deposit_event (Slashed who (value - rest)) s1" "n = NegativeImbalance ?v" "rest = value - ?v"
      using run False run' by (auto simp: cur_slash_def)
    have "0 \<le> issuance_gap s + int (tokens (account who s)) - int (tokens ?a)"
      by (rule dust_room [OF sd]) (use tok in linarith)
    then have "handled c who ?a s s1"
      using handling_dust_ok [where f = ?f, OF inv slash_closure_run _ _ _ run'] data_ok_free [OF inv, of "free (account who s) - ?v" who]
      by (simp add: handled_def)
    then have "handled c who ?a s s'" by (simp add: s')
    with tok s' show ?thesis by (auto simp: handled_def)
  qed
  then show "bal_inv c s'" and "issuance_gap s' = issuance_gap s + int (neg_peek n)" and "neg_peek n + rest = value"
    and "same_lists s s'"
    and "value \<noteq> 0 \<Longrightarrow> total_balance who s \<noteq> 0 \<Longrightarrow> neg_peek n = ?v"
    and "x \<noteq> who \<Longrightarrow> free (account x s) \<le> free (account x s')" by blast+
qed


text \<open>A deposit never leaves dust: it goes to an account that is alive, or brings the existential deposit.\<close>

lemma dust_of_grow:
  assumes "bal_inv c s" and "account who s \<noteq> account_data_default \<or> ed c \<le> value"
  shows "dust_of c ((account who s)\<lparr>free := free (account who s) + value\<rparr>) = None"
    and "settled c ((account who s)\<lparr>free := free (account who s) + value\<rparr>)
      = (account who s)\<lparr>free := free (account who s) + value\<rparr>"
proof -
  have "settled c (account who s) = account who s" using account_inv(2) assms(1) by (auto simp: bal_inv_def)
  then have "ed c \<le> free (account who s) + value \<or> reserved (account who s) \<noteq> 0"
    using assms(2) by (cases "free (account who s) < ed c \<and> reserved (account who s) = 0") (auto simp: settled_def)
  then show "dust_of c ((account who s)\<lparr>free := free (account who s) + value\<rparr>) = None"
    "settled c ((account who s)\<lparr>free := free (account who s) + value\<rparr>)
      = (account who s)\<lparr>free := free (account who s) + value\<rparr>"
    by (auto simp: dust_of_def settled_def)
qed

definition deposited :: "bal_config \<Rightarrow> account_id \<Rightarrow> balance \<Rightarrow> bal_state \<Rightarrow> bal_state \<Rightarrow> bool" where
  "deposited c who value s s' \<longleftrightarrow>
     bal_inv c s' \<and> issuance_gap s' = issuance_gap s - int value \<and> same_lists s s' \<and>
     total_issuance s' = total_issuance s \<and>
     account who s' = (account who s)\<lparr>free := free (account who s) + value\<rparr> \<and>
     (\<forall>x. x \<noteq> who \<longrightarrow> account x s' = account x s)"

lemma deposited_refl: "bal_inv c s \<Longrightarrow> deposited c who 0 s s"
  by (simp add: deposited_def)

lemma deposit_run:
  fixes f :: "account_data \<Rightarrow> bool \<Rightarrow> (account_data \<times> positive_imbalance) bal_em"
  assumes inv: "bal_inv c s" and alive: "account who s \<noteq> account_data_default \<or> ed c \<le> value"
    and max: "free (account who s) + value \<le> u128_max"
    and f: "f (account who s) (account who s = account_data_default) s
      = (Inr ((account who s)\<lparr>free := free (account who s) + value\<rparr>, r), s1)" and ev: "up_to_event s1 s"
  shows "\<exists>s'. try_mutate_account_handling_dust c who False dr f s = (Inr r, s') \<and> deposited c who value s s'"
proof -
  let ?a = "(account who s)\<lparr>free := free (account who s) + value\<rparr>"
  note G = dust_of_grow [OF inv alive]
  have ok: "data_ok ?a" using account_data_ok [OF inv, of who] max by (simp add: data_ok_def)
  obtain s' where run: "try_mutate_account_handling_dust c who False dr f s = (Inr r, s')"
  proof -
    have "ed c \<le> free (account who s) \<and> free ?a < ed c \<longrightarrow> can_dec_provider who s" by auto
    from handling_dust_succeeds [where f = f, OF inv f ev this, of False dr] that show ?thesis by auto
  qed
  have "tokens ?a = tokens (account who s) + value" by (simp add: tokens_def)
  with handling_dust_ok [where f = f, OF inv f ev ok _ run] G have "deposited c who value s s'"
    by (simp add: deposited_def)
  with run show ?thesis by blast
qed

lemma deposit_into_existing_ok:
  assumes inv: "bal_inv c s" and run: "deposit_into_existing c who value s = (Inr p, s')"
  shows "pos_peek p = value" and "deposited c who value s s'"
proof -
  have "pos_peek p = value \<and> deposited c who value s s'"
  proof (cases "value = 0")
    case True
    with run deposited_refl [OF inv] show ?thesis by (simp add: deposit_into_existing_def)
  next
    case False
    let ?f = "deposit_into_existing_closure who value"
    have run': "try_mutate_account_handling_dust c who False drop_positive ?f s = (Inr p, s')"
      using run False by (simp add: deposit_into_existing_def)
    obtain y s1 where fy: "?f (account who s) (account who s = account_data_default) s = (y, s1)" by (rule prod.exhaust)
    have "y \<noteq> Inl e" for e using handling_dust_closure_err [OF inv, where f = ?f] fy run' by auto
    then obtain z where "y = Inr z" by (cases y) auto
    with fy have alive: "account who s \<noteq> account_data_default" and max: "free (account who s) + value \<le> u128_max"
      and f: "?f (account who s) (account who s = account_data_default) s =
        (Inr ((account who s)\<lparr>free := free (account who s) + value\<rparr>, PositiveImbalance value), deposit_event (Deposit who value) s)"
      by (auto simp: deposit_into_existing_closure_def checked_add_def split: if_splits)
    from deposit_run [where f = ?f, OF inv _ max f, of drop_positive] alive run' show ?thesis by auto
  qed
  then show "pos_peek p = value" "deposited c who value s s'" by simp_all
qed

lemma deposit_creating_ok:
  assumes inv: "bal_inv c s" and max: "value \<le> u128_max" and run: "deposit_creating c who value s = (p, s')"
  shows "deposited c who (pos_peek p) s s'"
    and "pos_peek p = (if (ed c \<le> value \<or> account who s \<noteq> account_data_default) \<and> free (account who s) + value \<le> u128_max
                       then value else 0)"
proof -
  let ?ok = "(ed c \<le> value \<or> account who s \<noteq> account_data_default) \<and> free (account who s) + value \<le> u128_max"
  let ?f = "deposit_creating_closure c who value"
  have "deposited c who (pos_peek p) s s' \<and> pos_peek p = (if ?ok then value else 0)"
  proof (cases "value = 0")
    case True
    with run deposited_refl [OF inv] show ?thesis by (auto simp: deposit_creating_def)
  next
    case False
    show ?thesis
    proof (cases ?ok)
      case True
      then have f: "?f (account who s) (account who s = account_data_default) s =
        (Inr ((account who s)\<lparr>free := free (account who s) + value\<rparr>, PositiveImbalance value), deposit_event (Deposit who value) s)"
        by (auto simp: deposit_creating_closure_def checked_add_def ebind_def eensure_def eret_def emod_def)
      from deposit_run [where f = ?f, OF inv _ _ f, of drop_positive] True run False show ?thesis
        by (auto simp: deposit_creating_def)
    next
      case ok: False
      show ?thesis
      proof (cases "ed c \<le> value \<or> account who s \<noteq> account_data_default")
        case True
        with ok have f: "?f (account who s) (account who s = account_data_default) s =
            (Inr ((account who s)\<lparr>free := free (account who s) + 0\<rparr>, PositiveImbalance 0), s)"
          by (auto simp: deposit_creating_closure_def checked_add_def ebind_def eensure_def eret_def)
        have "account who s \<noteq> account_data_default" using ok True max by auto
        with deposit_run [where f = ?f, OF inv _ _ f, of drop_positive] account_data_ok [OF inv, of who] run ok
          \<open>value \<noteq> 0\<close>
        show ?thesis by (auto simp: deposit_creating_def data_ok_def)
      next
        case False
        then have "?f (account who s) (account who s = account_data_default) s = (Inl (DE_Module BE_ExistentialDeposit), s)"
          by (auto simp: deposit_creating_closure_def ebind_def eensure_def ethrow_def)
        with handling_dust_closure_err [OF inv, where f = ?f] run \<open>value \<noteq> 0\<close> ok deposited_refl [OF inv] show ?thesis
          by (auto simp: deposit_creating_def)
      qed
    qed
  qed
  then show "deposited c who (pos_peek p) s s'" "pos_peek p = (if ?ok then value else 0)" by blast+
qed


section \<open>Reserves\<close>

text \<open>\<open>moved\<close>: the account changed to \<open>a\<close> with the same tokens, and nothing else changed.\<close>

definition moved :: "bal_config \<Rightarrow> account_id \<Rightarrow> account_data \<Rightarrow> bal_state \<Rightarrow> bal_state \<Rightarrow> bool" where
  "moved c who a s s' \<longleftrightarrow>
     bal_inv c s' \<and> issuance_gap s' = issuance_gap s \<and> total_issuance s' = total_issuance s \<and> same_lists s s' \<and>
     account who s' = a \<and> (\<forall>x. x \<noteq> who \<longrightarrow> account x s' = account x s)"

lemma moved_event [simp]: "moved c who a s (deposit_event e s') = moved c who a s s'"
  by (simp add: moved_def issuance_gap_def)

lemma handled_moved:
  "handled c who a s s' \<Longrightarrow> tokens a = tokens (account who s) \<Longrightarrow> ed c \<le> free a \<or> reserved a \<noteq> 0 \<Longrightarrow>
   moved c who a s s'"
  by (auto simp: handled_def moved_def dust_of_def settled_def)

lemma reserve_closure_ok:
  assumes "reserve_closure c who value (account who s) new s = (Inr (a, r), s1)"
  shows "value \<le> free (account who s)" "reserved (account who s) + value \<le> u128_max" "s1 = s"
    "a = (account who s)\<lparr>free := free (account who s) - value, reserved := reserved (account who s) + value\<rparr>"
  using assms by (auto simp: reserve_closure_def ensure_can_reserve_def checked_sub_def checked_add_def split: if_splits)

lemma reserve_ok:
  assumes inv: "bal_inv c s" and "value \<noteq> 0" and run: "reserve c who value s = (Inr u, s')"
  shows "value \<le> free (account who s)"
    and "moved c who ((account who s)\<lparr>free := free (account who s) - value, reserved := reserved (account who s) + value\<rparr>) s s'"
proof -
  let ?f = "reserve_closure c who value"
  from run assms(2) obtain v s1 where run': "try_mutate_account_handling_dust c who False (\<lambda>_ s. s) ?f s = (Inr v, s1)"
    and s': "s' = deposit_event (Reserved who value) s1" by (auto simp: reserve_def)
  have "value \<le> free (account who s) \<and>
    moved c who ((account who s)\<lparr>free := free (account who s) - value, reserved := reserved (account who s) + value\<rparr>) s s1"
  proof (cases rule: handling_dust_cases [where f = ?f, OF inv run'])
    case (1 a r s2)
    note R = reserve_closure_ok [OF 1]
    then show ?case using account_data_ok [OF inv, of who] assms(2) by (auto simp: data_ok_def dust_of_def)
  next
    case (2 a r s2)
    note R = reserve_closure_ok [OF 2(2)]
    have "tokens a = tokens (account who s)" "reserved a \<noteq> 0" using R assms(2) by (auto simp: tokens_def)
    with handled_moved [OF 2(3)] R show ?thesis by simp
  qed auto
  then show "value \<le> free (account who s)"
    "moved c who ((account who s)\<lparr>free := free (account who s) - value, reserved := reserved (account who s) + value\<rparr>) s s'"
    by (simp_all add: s')
qed

text \<open>
  Unreserving gives back as much of the reserve as there is; the account ends with all its tokens free or
  with some still reserved, so that there is dust only where all its tokens together are dust.
\<close>

definition unreserved :: "account_data \<Rightarrow> balance \<Rightarrow> account_data" where
  "unreserved a v = a\<lparr>reserved := reserved a - v, free := free a + v\<rparr>"

lemma unreserve_ok:
  assumes sd: "sound c s" and run: "unreserve c who value s = (rest, s')"
  defines "v \<equiv> min (reserved (account who s)) value"
  shows "rest = value - v" and "bal_inv c s'" and "issuance_gap s' = issuance_gap s" and "same_lists s s'"
    and "dust_of c (unreserved (account who s) v) = None \<Longrightarrow> free (account who s') = free (account who s) + v \<and>
           reserved (account who s') = reserved (account who s) - v \<and> (\<forall>x. x \<noteq> who \<longrightarrow> account x s' = account x s)"
proof -
  have inv: "bal_inv c s" using sd by (simp add: sound_def)
  let ?a = "unreserved (account who s) v"
  have tok: "tokens ?a = tokens (account who s)" by (simp add: unreserved_def tokens_def v_def)
  have "rest = value - v \<and> bal_inv c s' \<and> issuance_gap s' = issuance_gap s \<and> same_lists s s' \<and>
     (dust_of c ?a = None \<longrightarrow> free (account who s') = free (account who s) + v \<and>
           reserved (account who s') = reserved (account who s) - v \<and> (\<forall>x. x \<noteq> who \<longrightarrow> account x s' = account x s))"
  proof (cases "value = 0 \<or> total_balance who s = 0")
    case True
    have "reserved (account who s) = 0" if "total_balance who s = 0"
      using that tokens_le [OF sd, of who] account_data_ok [OF inv, of who]
      by (auto simp: total_balance_def total_def data_ok_def sat_add_def tokens_def split: if_splits)
    with True run inv show ?thesis by (cases "value = 0") (auto simp: unreserve_def v_def)
  next
    case False
    let ?f = "\<lambda>a (_ :: bool). eret (unreserve_closure value a) :: (account_data \<times> balance) bal_em"
    have max: "free (account who s) + v \<le> u128_max" using tokens_le [OF sd, of who] by (simp add: tokens_def v_def)
    then have f: "?f (account who s) (account who s = account_data_default) s = (Inr (?a, v), s)"
      by (simp add: unreserve_closure_def unreserved_def v_def eret_def Let_def)
    obtain s1 where run': "try_mutate_account_handling_dust c who False (\<lambda>_ s. s) ?f s = (Inr v, s1)"
    proof -
      have "ed c \<le> free (account who s) \<and> free ?a < ed c \<longrightarrow> can_dec_provider who s"
        and "reserved ?a \<noteq> 0 \<or> frozen ?a \<noteq> 0 \<longrightarrow> reserved (account who s) \<noteq> 0 \<or> frozen (account who s) \<noteq> 0"
        by (auto simp: unreserved_def)
      from handling_dust_succeeds [where f = ?f, OF inv f _ this] that show ?thesis by fastforce
    qed
    have s': "s' = deposit_event (Unreserved who v) s1" "rest = value - v"
      using run False run' by (simp_all add: unreserve_def mutate_handling_dust)
    have "data_ok ?a" using account_data_ok [OF inv, of who] max by (auto simp: data_ok_def unreserved_def)
    with handling_dust_ok [where f = ?f, OF inv f _ _ _ run'] dust_room [OF sd, of ?a who] tok
    have "handled c who ?a s s1" by (simp add: handled_def)
    with tok have H: "handled c who ?a s s'" "issuance_gap s' = issuance_gap s" by (auto simp: s' handled_def issuance_gap_def)
    show ?thesis
    proof (cases "dust_of c ?a = None \<and> settled c ?a \<noteq> ?a")
      case True
      then have "free ?a = 0 \<and> reserved ?a = 0" by (auto simp: dust_of_def settled_def split: if_splits)
      with False tok tokens_le [OF sd, of who] have False
        by (simp add: tokens_def total_balance_def total_def sat_add_def)
      then show ?thesis ..
    qed (use H s' in \<open>auto simp: handled_def unreserved_def\<close>)
  qed
  then show "rest = value - v" "bal_inv c s'" "issuance_gap s' = issuance_gap s" "same_lists s s'"
    "dust_of c ?a = None \<Longrightarrow> free (account who s') = free (account who s) + v \<and>
           reserved (account who s') = reserved (account who s) - v \<and> (\<forall>x. x \<noteq> who \<longrightarrow> account x s' = account x s)"
    by blast+
qed

lemma slash_reserved_ok:
  assumes sd: "sound c s" and run: "slash_reserved c who value s = ((n, rest), s')"
  shows "bal_inv c s'" and "issuance_gap s' = issuance_gap s + int (neg_peek n)" and "same_lists s s'"
    and "neg_peek n = min value (reserved (account who s))" and "rest = value - neg_peek n"
proof -
  have inv: "bal_inv c s" using sd by (simp add: sound_def)
  let ?v = "min value (reserved (account who s))"
  let ?a = "(account who s)\<lparr>reserved := reserved (account who s) - ?v\<rparr>"
  have "bal_inv c s' \<and> issuance_gap s' = issuance_gap s + int (neg_peek n) \<and> same_lists s s' \<and> neg_peek n = ?v \<and>
    rest = value - neg_peek n"
  proof (cases "value = 0 \<or> total_balance who s = 0")
    case True
    have "reserved (account who s) = 0" if "total_balance who s = 0"
      using that tokens_le [OF sd, of who]
      by (auto simp: total_balance_def total_def sat_add_def tokens_def split: if_splits)
    with True run inv show ?thesis by (cases "value = 0") (auto simp: slash_reserved_def)
  next
    case False
    let ?f = "\<lambda>a (_ :: bool). eret (slash_reserved_closure value a) :: (account_data \<times> negative_imbalance \<times> balance) bal_em"
    let ?dr = "\<lambda>(n, _ :: balance). drop_negative n"
    have f: "?f (account who s) (account who s = account_data_default) s = (Inr (?a, (NegativeImbalance ?v, value - ?v)), s)"
      by (simp add: slash_reserved_closure_def eret_def Let_def)
    have tok: "tokens ?a + ?v = tokens (account who s)" by (simp add: tokens_def)
    obtain s1 where run': "try_mutate_account_handling_dust c who False ?dr ?f s = (Inr (NegativeImbalance ?v, value - ?v), s1)"
    proof -
      have "ed c \<le> free (account who s) \<and> free ?a < ed c \<longrightarrow> can_dec_provider who s"
        and "reserved ?a \<noteq> 0 \<or> frozen ?a \<noteq> 0 \<longrightarrow> reserved (account who s) \<noteq> 0 \<or> frozen (account who s) \<noteq> 0" by auto
      from handling_dust_succeeds [where f = ?f, OF inv f _ this] that show ?thesis by fastforce
    qed
    have s': "s' = deposit_event (Slashed who ?v) s1" "n = NegativeImbalance ?v" "rest = value - ?v"
      using run False run' by (simp_all add: slash_reserved_def mutate_handling_dust)
    have "data_ok ?a" using account_data_ok [OF inv, of who] by (simp add: data_ok_def) linarith
    moreover have "0 \<le> issuance_gap s + int (tokens (account who s)) - int (tokens ?a)"
      by (rule dust_room [OF sd]) (use tok in linarith)
    ultimately have "handled c who ?a s s1"
      using handling_dust_ok [where f = ?f, OF inv f _ _ _ run'] by (simp add: handled_def)
    then have "handled c who ?a s s'" by (simp add: s')
    with tok s' show ?thesis by (auto simp: handled_def)
  qed
  then show "bal_inv c s'" and "issuance_gap s' = issuance_gap s + int (neg_peek n)" and "same_lists s s'"
    and "neg_peek n = ?v" and "rest = value - neg_peek n" by blast+
qed

section \<open>Setting the free balance\<close>

text \<open>
  The signed amount by which \<open>make_free_balance_be\<close> says the free balance has grown.  Where the mutation is
  refused, the result that the closure had prepared is dropped and takes its amount from, or adds it to, the
  issuance, though no balance has changed.
\<close>

fun signed_amount :: "signed_imbalance \<Rightarrow> int" where
  "signed_amount (SI_Positive p) = int (pos_peek p)"
| "signed_amount (SI_Negative n) = - int (neg_peek n)"

lemma make_free_closure_ok:
  assumes "make_free_closure c who value (account who s) new s = (Inr (a, r), s1)"
  shows "up_to_event s1 s" "a = (account who s)\<lparr>free := value\<rparr>" "signed_amount r = int value - int (free (account who s))"
    "ed c \<le> value \<or> \<not> new"
  using assms by (auto simp: make_free_closure_def Let_def)

lemma make_free_closure_err:
  assumes "make_free_closure c who value (account who s) new s = (Inl e, s1)"
  shows "s1 = s" "value < ed c" "new"
  using assms by (auto simp: make_free_closure_def Let_def ebind_Inl_iff eensure_def ethrow_def eret_def emod_def split: if_splits)

lemma make_free_balance_be_cases:
  assumes sd: "sound c s" and max: "value \<le> u128_max"
    and run: "make_free_balance_be c who value s = (r, s')"
  obtains (set) "bal_inv c s'" "signed_amount r = int value - int (free (account who s))"
      "issuance_gap s' = issuance_gap s - signed_amount r" "handled c who ((account who s)\<lparr>free := value\<rparr>) s s'"
  | (unborn) "s' = s" "r = SI_Positive (PositiveImbalance 0)" "value < ed c" "account who s = account_data_default"
  | (refused) t q where "r = SI_Positive (PositiveImbalance 0)" "s' = drop_signed q t"
      "signed_amount q = int value - int (free (account who s))" "bal_inv c t"
      "\<forall>y. account y t = account y s" "total_issuance t = total_issuance s" "issuance_gap t = issuance_gap s"
proof -
  have inv: "bal_inv c s" and gap: "0 \<le> issuance_gap s" using sd by (simp_all add: sound_gap)
  let ?f = "make_free_closure c who value"
  obtain x where run': "try_mutate_account_handling_dust c who False drop_signed ?f s = (x, s')"
    and r: "r = (case x of Inr i \<Rightarrow> i | Inl _ \<Rightarrow> SI_Positive (PositiveImbalance 0))"
    using run by (auto simp: make_free_balance_be_def split: prod.splits sum.splits)
  show ?thesis
  proof (cases rule: handling_dust_cases [where f = ?f, OF inv run'])
    case (1 a q s1)
    note M = make_free_closure_ok [OF 1]
    have "free (account who s) \<ge> value" if "dust_of c a \<noteq> None"
    proof (rule ccontr)
      assume less: "\<not> value \<le> free (account who s)"
      have "account who s \<noteq> account_data_default \<or> ed c \<le> value - free (account who s)" using M(4) by auto
      from dust_of_grow(1) [OF inv this] that less show False by (simp add: M(2))
    qed
    then have "tokens a \<le> tokens (account who s)" if "dust_of c a \<noteq> None" using that by (simp add: M(2) tokens_def)
    with M(1) dust_room [OF sd] account_data_ok [OF inv, of who] max show ?case by (auto simp: M(2) data_ok_def)
  next
    case (2 a q s1)
    note M = make_free_closure_ok [OF 2(2)]
    have "bal_inv c s'" "signed_amount r = int value - int (free (account who s))"
      "issuance_gap s' = issuance_gap s - signed_amount r"
      using 2(3) M r 2(1) by (auto simp: handled_def tokens_def)
    with 2(3) M(2) show ?thesis by (intro set) simp_all
  next
    case (3 e)
    note M = make_free_closure_err [OF 3(2)]
    with 3 r show ?thesis by (intro unborn) simp_all
  next
    case (4 a q s1 e t)
    note M = make_free_closure_ok [OF 4(2)]
    with 4 r show ?thesis by (intro refused [of q t]) simp_all
  qed
qed

section \<open>Moving a reserve to another account\<close>

text \<open>What the beneficiary of a repatriation gains.\<close>

definition credited :: "balance_status \<Rightarrow> balance \<Rightarrow> account_data \<Rightarrow> account_data" where
  "credited status v a = (case status of BS_Free \<Rightarrow> a\<lparr>free := free a + v\<rparr> | BS_Reserved \<Rightarrow> a\<lparr>reserved := reserved a + v\<rparr>)"

lemma tokens_credited [simp]: "tokens (credited status v a) = tokens a + v"
  by (simp add: credited_def tokens_def split: balance_status.split)

lemma dust_of_settled: "settled c a = a \<Longrightarrow> 0 < ed c \<Longrightarrow> dust_of c a = None"
  by (auto simp: settled_def dust_of_def split: if_splits)

lemma settled_credited:
  assumes "bal_inv c s" and "account who s \<noteq> account_data_default"
  shows "settled c (credited status v (account who s)) = credited status v (account who s)"
    and "dust_of c (credited status v (account who s)) = None"
proof -
  have "settled c (account who s) = account who s" using account_inv(2) assms(1) by (auto simp: bal_inv_def)
  with assms(2) have "ed c \<le> free (account who s) \<or> reserved (account who s) \<noteq> 0"
    by (cases "free (account who s) < ed c \<and> reserved (account who s) = 0") (auto simp: settled_def)
  then show "settled c (credited status v (account who s)) = credited status v (account who s)"
    "dust_of c (credited status v (account who s)) = None"
    by (auto simp: settled_def dust_of_def credited_def split: balance_status.splits)
qed

definition debit_reserved :: "balance \<Rightarrow> account_data \<Rightarrow> account_data" where
  "debit_reserved v a = a\<lparr>reserved := reserved a - v\<rparr>"

lemma transfer_reserved_closure_ok:
  assumes inv: "bal_inv c s" and "account b s \<noteq> account_data_default" and ne: "sl \<noteq> b"
    and run: "transfer_reserved_closure c sl v status (account b s) new s = (Inr (a, du), s1)"
  shows "a = credited status v (account b s)" and "data_ok a" and "du = dust_of c (debit_reserved v (account sl s))"
    and "mutated c sl (debit_reserved v (account sl s)) s s1"
proof -
  note I = bal_inv_D [OF inv]
  let ?g = "\<lambda>from_account (_ :: bool).
       ebind (case status of
                BS_Free \<Rightarrow>
                  ebind (eoption (checked_add u128_max (free (account b s)) v) (DE_Arithmetic AE_Overflow))
                    (\<lambda>x. eret ((account b s)\<lparr>free := x\<rparr>))
              | BS_Reserved \<Rightarrow>
                  ebind (eoption (checked_add u128_max (reserved (account b s)) v) (DE_Arithmetic AE_Overflow))
                    (\<lambda>x. eret ((account b s)\<lparr>reserved := x\<rparr>))) (\<lambda>to_account'.
       eret (from_account\<lparr>reserved := reserved from_account - v\<rparr>, to_account')) :: (account_data \<times> account_data) bal_em"
  from run have tm: "try_mutate_account c sl False ?g s = (Inr (a, du), s1)"
    by (auto simp: transfer_reserved_closure_def)
  obtain y s2 where g: "?g (account sl s) (account sl s = account_data_default) s = (y, s2)" by (rule prod.exhaust)
  obtain z where y: "y = Inr z"
    using try_mutate_account_closure_err [where f = ?g, OF I(1,2)] g tm by (cases y) fastforce+
  from g [unfolded y] have z: "z = (debit_reserved v (account sl s), credited status v (account b s))" "s2 = s"
    and max: "status = BS_Free \<longrightarrow> free (account b s) + v \<le> u128_max" "status = BS_Reserved \<longrightarrow> reserved (account b s) + v \<le> u128_max"
    by (auto simp: debit_reserved_def credited_def split: balance_status.splits)
  have ok: "data_ok (debit_reserved v (account sl s))" "data_ok (credited status v (account b s))"
    using account_data_ok [OF inv, of sl] account_data_ok [OF inv, of b] max
    by (auto simp: data_ok_def debit_reserved_def credited_def split: balance_status.split)
  note R = try_mutate_account_run(1) [where f = ?g, OF I(1,2) g [unfolded y z] I(2) refl tm]
  with ok show "a = credited status v (account b s)" "data_ok a" "du = dust_of c (debit_reserved v (account sl s))"
    "mutated c sl (debit_reserved v (account sl s)) s s1" by simp_all
qed

lemma reducible_total_le: "reducible_total_balance_on_hold who f s \<le> reserved (account who s)"
  by (auto simp: reducible_total_balance_on_hold_def Let_def split: fortitude.split)

text \<open>
  \<open>repatriated\<close>: \<open>v\<close> left the reserve of one account for the balance of the other, which the issuance does
  not notice; the dust that the first account may leave goes to the dust handler.
\<close>

definition repatriated ::
  "bal_config \<Rightarrow> account_id \<Rightarrow> account_id \<Rightarrow> balance_status \<Rightarrow> balance \<Rightarrow> bal_state \<Rightarrow> bal_state \<Rightarrow> bool" where
  "repatriated c sl b status v s s' \<longleftrightarrow>
     bal_inv c s' \<and> issuance_gap s' = issuance_gap s \<and> same_lists s s' \<and>
     (dust_of c (debit_reserved v (account sl s)) = None \<longrightarrow>
        account sl s' = settled c (debit_reserved v (account sl s)) \<and>
        account b s' = credited status v (account b s) \<and> total_issuance s' = total_issuance s \<and>
        (\<forall>x. x \<noteq> sl \<longrightarrow> x \<noteq> b \<longrightarrow> account x s' = account x s))"

lemma repatriated_event [simp]:
  "repatriated c sl b status v s (deposit_event e s') = repatriated c sl b status v s s'"
  by (simp add: repatriated_def issuance_gap_def)

lemma do_transfer_reserved_ok:
  assumes sd: "sound c s" and "value \<noteq> 0" and ne: "sl \<noteq> b"
    and run: "do_transfer_reserved c sl b value precision fortitude status s = (Inr v, s')"
  shows "v \<le> reserved (account sl s)" and "v \<le> value" and "precision = Exact \<Longrightarrow> v = value"
    and "account b s \<noteq> account_data_default" and "repatriated c sl b status v s s'"
proof -
  have inv: "bal_inv c s" using sd by (simp add: sound_def)
  note I = bal_inv_D [OF inv]
  let ?f = "transfer_reserved_closure c sl v status"
  let ?mx = "reducible_total_balance_on_hold sl fortitude s"
  let ?d = "debit_reserved v (account sl s)" and ?cr = "credited status v (account b s)"
  from run assms(2) ne obtain d1 d2 s2 s3 s4 where v: "v = (case precision of BestEffort \<Rightarrow> min value ?mx | Exact \<Rightarrow> value)" "v \<le> ?mx"
    and tm: "try_mutate_account c b False ?f s = (Inr (d1, d2), s2)"
    and s3: "s3 = (case d1 of None \<Rightarrow> s2 | Some dust \<Rightarrow> handle_raw_dust (balances_ops c) dust s2)"
    and s4: "s4 = (case d2 of None \<Rightarrow> s3 | Some dust \<Rightarrow> handle_raw_dust (balances_ops c) dust s3)"
    and s': "s' = deposit_event (ReserveRepatriated sl b v status) s4"
    by (auto simp: do_transfer_reserved_def Let_def)
  show le: "v \<le> reserved (account sl s)" using v(2) reducible_total_le [of sl fortitude s] by linarith
  show "v \<le> value" "precision = Exact \<Longrightarrow> v = value" using v(1) by (cases precision; simp)+
  obtain y s1 where f: "?f (account b s) (account b s = account_data_default) s = (y, s1)" by (rule prod.exhaust)
  obtain z where y: "y = Inr z"
    using try_mutate_account_closure_err [where f = ?f, OF I(1,2)] f tm by (cases y) fastforce+
  then show alive: "account b s \<noteq> account_data_default" using f by (auto simp: transfer_reserved_closure_def)
  obtain a du where z: "z = (a, du)" by (rule prod.exhaust)
  note C = transfer_reserved_closure_ok [OF inv alive ne f [unfolded y z]]
  have inv1: "accounts_inv c s1" and sa: "sys_account s1 b = sys_account s b" using C(4) ne by (simp_all add: mutated_def)
  note R = try_mutate_account_run(1) [where f = ?f, OF I(1,2) f [unfolded y z] inv1 sa tm]
  have M: "mutated c b ?cr s1 s2" "d1 = dust_of c ?d" "d2 = None"
    using R C settled_credited(2) [OF inv alive] by simp_all
  have accs: "account b s1 = account b s" "account sl s2 = account sl s1"
    using mutated_balance [OF C(4), of b] mutated_balance [OF M(1), of sl] ne by simp_all
  note F = mutated_fields(1) [OF C(4)] mutated_fields(1) [OF M(1)]
  have L: "same_lists s s2" using same_lists_trans [OF mutated_lists [OF C(4)] mutated_lists [OF M(1)]] .
  have inv2: "bal_inv c s2" using M(1) F I lists_ok_same [OF L] by (simp add: bal_inv_def mutated_def)
  have "tokens (settled c ?d) + opt_val id d1 + v = tokens (account sl s)"
    using settled_dust [of c ?d] M(2) le by (simp add: debit_reserved_def tokens_def)
  moreover have "circulating s1 + tokens (account sl s) = circulating s + tokens (settled c ?d)"
    "circulating s2 + tokens (account b s) = circulating s1 + (tokens (account b s) + v)"
    using C(4) M(1) accs settled_credited(1) [OF inv alive] by (simp_all add: mutated_def)
  ultimately have gap2: "issuance_gap s2 = issuance_gap s + int (opt_val id d1)" by (simp add: issuance_gap_def F)
  have dle: "w < ed c \<and> int w \<le> issuance_gap s2" if "d1 = Some w" for w
    using that gap2 dust_of_lt [of c ?d w] M(2) sd by (simp add: sound_gap)
  note D = raw_dust_ok [where d = d1, OF inv2 dle, folded s3, simplified]
  have "repatriated c sl b status v s s3" unfolding repatriated_def
  proof (intro conjI impI)
    show "bal_inv c s3" "same_lists s s3" using D(1) same_lists_trans [OF L D(3)] by simp_all
    show "issuance_gap s3 = issuance_gap s" using D(2) gap2 by simp
    assume "dust_of c ?d = None"
    then have "s3 = s2" using s3 M(2) by simp
    then show "account sl s3 = settled c ?d" "account b s3 = ?cr" "total_issuance s3 = total_issuance s"
      "\<forall>x. x \<noteq> sl \<longrightarrow> x \<noteq> b \<longrightarrow> account x s3 = account x s"
      using C(4) M(1) F accs mutated_balance [OF C(4)] mutated_balance [OF M(1)] settled_credited(1) [OF inv alive]
      by (simp_all add: mutated_def)
  qed
  then show "repatriated c sl b status v s s'" using s4 s' M(3) by simp
qed

end
