(* ===== verification/Balances_Reserves.thy ===== *)
theory Balances_Reserves
  imports Balances_Accounting
begin

text \<open>
  The named reserves and the locks of the pallet: the lists that storage keeps per account, looked up and
  updated by identifier (\<open>NamedReservableCurrency\<close>, \<open>LockableCurrency\<close> of \<^verbatim>\<open>impl_currency.rs\<close>).
\<close>

section \<open>Sorted lists of identified amounts\<close>

lemma sorted_filter_less:
  "sorted_wrt (<) (map ia_id xs) \<Longrightarrow> filter (\<lambda>x. ia_id x < i) xs = takeWhile (\<lambda>x. ia_id x < i) xs"
proof (induction xs)
  case (Cons x xs)
  have "filter (\<lambda>y. ia_id y < i) xs = []" if "\<not> ia_id x < i"
    using Cons.prems that by (auto simp: filter_empty_conv)
  with Cons show ?case by simp
qed simp

lemma sorted_ids_distinct: "sorted_wrt (<) (map ia_id xs) \<Longrightarrow> distinct (map ia_id xs)"
  by (simp add: strict_sorted_iff)

lemma search_split:
  assumes "sorted_wrt (<) (map ia_id xs)" and n_def: "n = length (filter (\<lambda>x. ia_id x < i) xs)"
  shows "n \<le> length xs" and "x \<in> set (take n xs) \<Longrightarrow> ia_id x < i" and "x \<in> set (drop n xs) \<Longrightarrow> i \<le> ia_id x"
proof -
  let ?P = "\<lambda>x. ia_id x < i"
  have n: "n = length (takeWhile ?P xs)" by (simp add: n_def sorted_filter_less [OF assms(1)])
  show "n \<le> length xs" by (simp add: n_def)
  have tk: "take n xs = takeWhile ?P xs" by (simp add: n takeWhile_eq_take [symmetric])
  show "x \<in> set (take n xs) \<Longrightarrow> ia_id x < i" unfolding tk by (auto dest: set_takeWhileD)
  show "i \<le> ia_id x" if x: "x \<in> set (drop n xs)"
  proof (rule ccontr)
    assume "\<not> i \<le> ia_id x"
    then have "x \<in> set (filter ?P xs)" using x by (auto dest: in_set_dropD)
    then have "x \<in> set (take n xs)" by (simp add: tk sorted_filter_less [OF assms(1)])
    moreover have "distinct xs" using sorted_ids_distinct [OF assms(1)] by (simp add: distinct_map)
    ultimately show False using x by (metis IntI empty_iff le_refl set_take_disj_set_drop_if_distinct)
  qed
qed

lemma search_found:
  assumes "sorted_wrt (<) (map ia_id xs)" and "binary_search_by_key i xs = Inr n"
  shows "n < length xs" and "ia_id (xs ! n) = i" and "amount_of i xs = ia_amount (xs ! n)"
    and "xs[n := (xs ! n)\<lparr>ia_amount := v\<rparr>] = set_first_amount i v xs"
    and "take n xs @ drop (Suc n) xs = filter (\<lambda>x. ia_id x \<noteq> i) xs"
proof -
  show n: "n < length xs" "ia_id (xs ! n) = i"
    using assms(2) by (auto simp: binary_search_by_key_def Let_def split: if_splits)
  define ys zs where "ys = take n xs" and "zs = drop (Suc n) xs"
  have xs: "xs = ys @ (xs ! n) # zs" "length ys = n" using n by (simp_all add: ys_def zs_def id_take_nth_drop)
  obtain y where y: "xs ! n = y" "ia_id y = i" using n(2) by blast
  have srt: "sorted_wrt (<) (map ia_id (ys @ y # zs))" using assms(1) xs(1) y by simp
  then have ne: "\<And>x. x \<in> set ys \<Longrightarrow> ia_id x \<noteq> i" "\<And>x. x \<in> set zs \<Longrightarrow> ia_id x \<noteq> i"
    using y by (auto simp: sorted_wrt_append)
  have nf: "find (\<lambda>x. ia_id x = i) (ys @ w) = find (\<lambda>x. ia_id x = i) w" for w
    using ne(1) by (induction ys) auto
  have sf: "set_first_amount i v (ys @ w) = ys @ set_first_amount i v w" for w
    using ne(1) by (induction ys) auto
  have eq: "xs = ys @ y # zs" using xs(1) y by simp
  show "amount_of i xs = ia_amount (xs ! n)" using y unfolding amount_of_def by (subst eq) (simp add: nf y)
  show "xs[n := (xs ! n)\<lparr>ia_amount := v\<rparr>] = set_first_amount i v xs"
    unfolding y(1) by (subst (1 2) eq) (simp add: sf y xs(2) [symmetric])
  have "filter (\<lambda>x. ia_id x \<noteq> i) xs = ys @ zs" using ne by (subst eq) (auto simp: y intro: filter_True)
  then show "take n xs @ drop (Suc n) xs = filter (\<lambda>x. ia_id x \<noteq> i) xs" by (simp add: ys_def zs_def)
qed

lemma search_not_found:
  assumes "sorted_wrt (<) (map ia_id xs)" and "binary_search_by_key i xs = Inl n"
  shows "amount_of i xs = 0"
    and "sorted_wrt (<) (map ia_id (take n xs @ \<lparr>ia_id = i, ia_amount = v\<rparr> # drop n xs))"
    and "amount_of j (take n xs @ \<lparr>ia_id = i, ia_amount = v\<rparr> # drop n xs) = (if j = i then v else amount_of j xs)"
proof -
  have n: "n = length (filter (\<lambda>x. ia_id x < i) xs)" and hd: "\<not> (n < length xs \<and> ia_id (xs ! n) = i)"
    using assms(2) by (auto simp: binary_search_by_key_def Let_def split: if_splits)
  note S = search_split [OF assms(1) n]
  define ys zs where "ys = take n xs" and "zs = drop n xs"
  have xs: "xs = ys @ zs" by (simp add: ys_def zs_def)
  have lo: "\<And>x. x \<in> set ys \<Longrightarrow> ia_id x < i" using S(2) by (simp add: ys_def)
  have srt: "sorted_wrt (<) (map ia_id (ys @ zs))" using assms(1) xs by simp
  have hi: "i < ia_id x" if x: "x \<in> set zs" for x
  proof -
    from x obtain z ws where zs: "zs = z # ws" by (cases zs) auto
    have len: "n < length xs" using zs by (simp add: zs_def) (metis drop_eq_Nil leI list.distinct(1))
    then have "xs ! n = z" using zs by (simp add: zs_def hd_drop_conv_nth [symmetric])
    with hd len S(3) [of z] zs have "i < ia_id z" by (auto simp: zs_def)
    with srt zs x show ?thesis by (auto simp: sorted_wrt_append)
  qed
  show "amount_of i xs = 0"
    using lo hi by (auto simp: amount_of_def xs find_None_iff split: option.split)
      (metis (mono_tags, lifting) Un_iff find_Some_iff less_irrefl nth_mem set_append)
  show "sorted_wrt (<) (map ia_id (take n xs @ \<lparr>ia_id = i, ia_amount = v\<rparr> # drop n xs))"
    using srt lo hi unfolding ys_def [symmetric] zs_def [symmetric] by (auto simp: sorted_wrt_append)
  have "amount_of j (ys @ \<lparr>ia_id = i, ia_amount = v\<rparr> # zs) = (if j = i then v else amount_of j (ys @ zs))"
    using lo by (induction ys) (auto simp: amount_of_def)
  then show "amount_of j (take n xs @ \<lparr>ia_id = i, ia_amount = v\<rparr> # drop n xs) = (if j = i then v else amount_of j xs)"
    by (simp add: ys_def zs_def)
qed

section \<open>Named reserves\<close>

lemma bal_inv_reserves: "bal_inv c s \<Longrightarrow> sorted_wrt (<) (map ia_id (reserves s who))"
  by (simp add: bal_inv_def lists_ok_def)

lemma named_amount:
  assumes "bal_inv c s"
  shows "reserved_balance_named i who s = amount_of i (reserves s who)"
  using search_found(3) [OF bal_inv_reserves [OF assms]] search_not_found(1) [OF bal_inv_reserves [OF assms]]
  by (simp add: reserved_balance_named_def split: sum.split)

lemma put_reserves_frame [simp]:
  "account x (put_reserves who rs s) = account x s" "issuance_gap (put_reserves who rs s) = issuance_gap s"
  "total_issuance (put_reserves who rs s) = total_issuance s"
  "reserves (put_reserves who rs s) = (reserves s)(who := rs)"
  by (simp_all add: put_reserves_def issuance_gap_def)

lemma put_reserves_inv:
  "bal_inv c s \<Longrightarrow> sorted_wrt (<) (map ia_id rs) \<Longrightarrow> bal_inv c (put_reserves who rs s)"
  by (simp add: bal_inv_def lists_ok_def put_reserves_def)

text \<open>
  \<open>named_set i who v s s'\<close>: in \<open>s'\<close> the reserve of \<open>who\<close> under the name \<open>i\<close> is \<open>v\<close>, every other named
  reserve is what it was.
\<close>

definition named_set :: "reserve_id \<Rightarrow> account_id \<Rightarrow> balance \<Rightarrow> bal_state \<Rightarrow> bal_state \<Rightarrow> bool" where
  "named_set i who v s s' \<longleftrightarrow>
     (\<forall>j x. reserved_balance_named j x s' = (if j = i \<and> x = who then v else reserved_balance_named j x s))"

lemma named_set_same: "v = reserved_balance_named i who s \<Longrightarrow> named_set i who v s s"
  by (simp add: named_set_def)

lemma named_set_put:
  assumes "bal_inv c s" and "bal_inv c t" and "reserves t = reserves s" and "sorted_wrt (<) (map ia_id rs)"
    and "\<And>j. amount_of j rs = (if j = i then v else amount_of j (reserves s who))"
  shows "named_set i who v s (put_reserves who rs t)"
  using put_reserves_inv [OF assms(2,4)] assms
  by (simp add: named_set_def named_amount [OF assms(1)] named_amount [of c "put_reserves who rs t"])

text \<open>The list that an operation writes for a name that it found.\<close>

lemma found_update:
  assumes "sorted_wrt (<) (map ia_id rs)" and "binary_search_by_key i rs = Inr n"
  shows "sorted_wrt (<) (map ia_id (rs[n := (rs ! n)\<lparr>ia_amount := v\<rparr>]))"
    and "amount_of j (rs[n := (rs ! n)\<lparr>ia_amount := v\<rparr>]) = (if j = i then v else amount_of j rs)"
    and "sorted_wrt (<) (map ia_id (take n rs @ drop (Suc n) rs))"
    and "amount_of j (take n rs @ drop (Suc n) rs) = (if j = i then 0 else amount_of j rs)"
proof -
  note S = search_found [OF assms]
  have "i \<in> set (map ia_id rs)" using S(1,2) by (metis length_map nth_map nth_mem)
  then have "find (\<lambda>x. ia_id x = i) rs \<noteq> None" by (simp only: find_None_id not_not)
  then show "amount_of j (rs[n := (rs ! n)\<lparr>ia_amount := v\<rparr>]) = (if j = i then v else amount_of j rs)"
    by (simp add: S(4))
  show "sorted_wrt (<) (map ia_id (rs[n := (rs ! n)\<lparr>ia_amount := v\<rparr>]))" by (simp add: S(4) assms(1))
  show "sorted_wrt (<) (map ia_id (take n rs @ drop (Suc n) rs))"
    unfolding S(5) using assms(1) by (simp add: sorted_wrt_map sorted_wrt_filter)
  show "amount_of j (take n rs @ drop (Suc n) rs) = (if j = i then 0 else amount_of j rs)"
    unfolding S(5) by (rule amount_of_filter_id)
qed

lemma reserve_named_ok:
  assumes inv: "bal_inv c s" and "value \<noteq> 0" and run: "reserve_named c i who value s = (Inr u, s')"
  shows "value \<le> free (account who s)" and "bal_inv c s'" and "issuance_gap s' = issuance_gap s"
    and "account who s' = (account who s)\<lparr>free := free (account who s) - value, reserved := reserved (account who s) + value\<rparr>"
    and "x \<noteq> who \<Longrightarrow> account x s' = account x s"
    and "named_set i who (reserved_balance_named i who s + value) s s'"
proof -
  let ?rs = "reserves s who"
  note srt = bal_inv_reserves [OF inv, of who]
  from run assms(2) obtain rs' s1 v where
    l: "(case binary_search_by_key i ?rs of
           Inr n \<Rightarrow> ebind (eoption (checked_add u128_max (ia_amount (?rs ! n)) value) (DE_Arithmetic AE_Overflow))
                     (\<lambda>x. eret (?rs[n := (?rs ! n)\<lparr>ia_amount := x\<rparr>]))
         | Inl n \<Rightarrow> insert_reserve c n \<lparr>ia_id = i, ia_amount = value\<rparr> ?rs) s = (Inr rs', s)"
    and r: "reserve c who value s = (Inr v, s1)" and s': "s' = put_reserves who rs' s1"
    by (auto simp: reserve_named_def insert_reserve_def split: sum.splits if_splits)
  have rs': "sorted_wrt (<) (map ia_id rs')"
    "amount_of j rs' = (if j = i then amount_of i ?rs + value else amount_of j ?rs)" for j
    using l found_update(1,2) [OF srt] search_found(3) [OF srt] search_not_found [OF srt]
    by (auto simp: insert_reserve_def split: sum.splits if_splits)
  note R = reserve_ok [OF inv assms(2) r]
  have M: "bal_inv c s1" "issuance_gap s1 = issuance_gap s" "reserves s1 = reserves s"
    using R(2) by (simp_all add: moved_def same_lists_def)
  show "value \<le> free (account who s)" by (rule R(1))
  show "bal_inv c s'" using put_reserves_inv [OF M(1) rs'(1)] by (simp add: s')
  show "issuance_gap s' = issuance_gap s" by (simp add: s' M)
  show "account who s' = (account who s)\<lparr>free := free (account who s) - value, reserved := reserved (account who s) + value\<rparr>"
    "x \<noteq> who \<Longrightarrow> account x s' = account x s" using R(2) by (simp_all add: s' moved_def)
  show "named_set i who (reserved_balance_named i who s + value) s s'"
    unfolding s' by (rule named_set_put [OF inv M(1,3) rs'(1)]) (simp add: rs'(2) named_amount [OF inv])
qed

text \<open>
  What the operations that take from a named reserve can take: at most the named amount, and at most what
  the account has reserved in all.
\<close>

lemma unreserve_named_ok:
  assumes sd: "sound c s" and run: "unreserve_named c i who value s = (rest, s')"
  defines "v \<equiv> min (reserved (account who s)) (min (reserved_balance_named i who s) value)"
  shows "rest = value - v" and "bal_inv c s'" and "issuance_gap s' = issuance_gap s"
    and "named_set i who (reserved_balance_named i who s - v) s s'"
    and "dust_of c (unreserved (account who s) v) = None \<Longrightarrow> free (account who s') = free (account who s) + v \<and>
           reserved (account who s') = reserved (account who s) - v"
proof -
  have inv: "bal_inv c s" using sd by (simp add: sound_def)
  note srt = bal_inv_reserves [OF inv, of who] and N = named_amount [OF inv]
  let ?rs = "reserves s who" and ?n = "reserved_balance_named i who s"
  have "rest = value - v \<and> bal_inv c s' \<and> issuance_gap s' = issuance_gap s \<and> named_set i who (?n - v) s s' \<and>
    (dust_of c (unreserved (account who s) v) = None \<longrightarrow> free (account who s') = free (account who s) + v \<and>
           reserved (account who s') = reserved (account who s) - v)"
  proof (cases "value = 0 \<or> (\<exists>n. binary_search_by_key i ?rs = Inl n)")
    case True
    then have "v = 0" using search_not_found(1) [OF srt] by (auto simp: v_def N)
    with True run inv show ?thesis by (cases "value = 0") (auto simp: unreserve_named_def Let_def named_set_same)
  next
    case False
    then obtain n where n: "binary_search_by_key i ?rs = Inr n" by (cases "binary_search_by_key i ?rs") auto
    have am: "ia_amount (?rs ! n) = ?n" using search_found(3) [OF srt n] by (simp add: N)
    obtain remain s1 where un: "unreserve c who (min ?n value) s = (remain, s1)" by (rule prod.exhaust)
    note U = unreserve_ok [OF sd un, folded v_def]
    have act: "min ?n value - remain = v" using U(1) min.cobounded2 [of "reserved (account who s)" "min ?n value"] unfolding v_def by linarith
    define rs' where "rs' = (if ?n - v = 0 then take n ?rs @ drop (Suc n) ?rs
        else ?rs[n := (?rs ! n)\<lparr>ia_amount := ?n - v\<rparr>])"
    have run': "rest = value - v" "s' = put_reserves who rs' s1"
      using run False n un act am by (auto simp: unreserve_named_def Let_def rs'_def)
    have rs': "sorted_wrt (<) (map ia_id rs')" "\<And>j. amount_of j rs' = (if j = i then ?n - v else amount_of j ?rs)"
      using found_update [OF srt n] by (auto simp: rs'_def)
    have "reserves s1 = reserves s" using U(4) by (simp add: same_lists_def)
    then have "named_set i who (?n - v) s s'" unfolding run' by (rule named_set_put [OF inv U(2) _ rs'(1)]) (simp add: rs'(2))
    with run' U put_reserves_inv [OF U(2) rs'(1)] show ?thesis by simp
  qed
  then show "rest = value - v" and "bal_inv c s'" and "issuance_gap s' = issuance_gap s"
    and "named_set i who (?n - v) s s'"
    and "dust_of c (unreserved (account who s) v) = None \<Longrightarrow> free (account who s') = free (account who s) + v \<and>
           reserved (account who s') = reserved (account who s) - v" by blast+
qed

lemma slash_reserved_named_ok:
  assumes sd: "sound c s" and run: "slash_reserved_named c i who value s = ((n, rest), s')"
  shows "neg_peek n = min (reserved (account who s)) (min (reserved_balance_named i who s) value)"
    and "rest = value - neg_peek n" and "bal_inv c s'"
    and "issuance_gap s' = issuance_gap s + int (neg_peek n)"
    and "named_set i who (reserved_balance_named i who s - neg_peek n) s s'"
proof -
  have inv: "bal_inv c s" using sd by (simp add: sound_def)
  note srt = bal_inv_reserves [OF inv, of who] and N = named_amount [OF inv]
  let ?rs = "reserves s who" and ?n = "reserved_balance_named i who s"
  define v where "v = min (reserved (account who s)) (min ?n value)"
  have "neg_peek n = v \<and> rest = value - neg_peek n \<and> bal_inv c s' \<and>
    issuance_gap s' = issuance_gap s + int (neg_peek n) \<and> named_set i who (?n - neg_peek n) s s'"
  proof (cases "value = 0 \<or> (\<exists>n. binary_search_by_key i ?rs = Inl n)")
    case True
    then have "v = 0" using search_not_found(1) [OF srt] by (auto simp: v_def N)
    with True run inv show ?thesis by (cases "value = 0") (auto simp: slash_reserved_named_def Let_def named_set_same)
  next
    case False
    then obtain k where k: "binary_search_by_key i ?rs = Inr k" by (cases "binary_search_by_key i ?rs") auto
    have am: "ia_amount (?rs ! k) = ?n" using search_found(3) [OF srt k] by (simp add: N)
    obtain imb remain s1 where sl: "slash_reserved c who (min ?n value) s = ((imb, remain), s1)"
      by (cases "slash_reserved c who (min ?n value) s") auto
    note S = slash_reserved_ok [OF sd sl]
    have v: "neg_peek imb = v" using S(4) by (simp add: v_def min.commute)
    have act: "min ?n value - remain = v" using S(5) v v_def min.cobounded2 [of "reserved (account who s)" "min ?n value"] by linarith
    define rs' where "rs' = ?rs[k := (?rs ! k)\<lparr>ia_amount := ?n - v\<rparr>]"
    have run': "n = imb" "rest = value - v" "s' = put_reserves who rs' (deposit_event (Slashed who v) s1)"
      using run False k sl act am by (auto simp: slash_reserved_named_def Let_def rs'_def)
    note rs' = found_update(1,2) [where v = "?n - v", OF srt k, folded rs'_def]
    let ?t = "deposit_event (Slashed who v) s1"
    have t: "bal_inv c ?t" "reserves ?t = reserves s" "issuance_gap ?t = issuance_gap s1"
      using S(1,3) by (simp_all add: same_lists_def issuance_gap_def)
    have "named_set i who (?n - v) s s'" unfolding run'
      by (rule named_set_put [OF inv t(1,2) rs'(1)]) (simp add: rs'(2))
    with run' S(2) v t put_reserves_inv [OF t(1) rs'(1)] show ?thesis by simp
  qed
  then show "neg_peek n = min (reserved (account who s)) (min ?n value)" "rest = value - neg_peek n" "bal_inv c s'"
    "issuance_gap s' = issuance_gap s + int (neg_peek n)" "named_set i who (?n - neg_peek n) s s'" unfolding v_def by blast+
qed

lemma repatriate_reserved_ok:
  assumes sd: "sound c s" and ne: "sl \<noteq> b" and run: "repatriate_reserved c sl b value status s = (Inr rest, s')"
  obtains v where "rest = value - v" and "v \<le> value" and "v \<le> reserved (account sl s)"
    and "bal_inv c s'" and "issuance_gap s' = issuance_gap s" and "same_lists s s'"
proof (cases "value = 0")
  case True
  with run sd show ?thesis by (intro that [of 0]) (auto simp: repatriate_reserved_def do_transfer_reserved_def sound_def)
next
  case False
  from run obtain v where r: "do_transfer_reserved c sl b value BestEffort Polite status s = (Inr v, s')" and "rest = value - v"
    by (auto simp: repatriate_reserved_def)
  with do_transfer_reserved_ok [OF sd False ne r] show ?thesis by (intro that [of v]) (auto simp: repatriated_def)
qed

text \<open>The beneficiary's side of a repatriation into a reserve of the same name.\<close>

lemma repatriate_into_named_ok:
  assumes sd: "sound c s" and ne: "sl \<noteq> b" and run: "repatriate_into_named c i sl b value status s = (Inr v, s')"
  obtains rs where "v \<le> value" and "bal_inv c s'" and "issuance_gap s' = issuance_gap s"
    and "reserves s' = (reserves s)(b := rs)" and "sorted_wrt (<) (map ia_id rs)"
    and "\<forall>j. amount_of j rs = (if j = i then sat_add u128_max (amount_of i (reserves s b)) v else amount_of j (reserves s b))"
proof -
  have inv: "bal_inv c s" using sd by (simp add: sound_def)
  let ?rs = "reserves s b"
  note srt = bal_inv_reserves [OF inv, of b]
  have "\<exists>rest s1. repatriate_reserved c sl b value status s = (Inr rest, s1) \<and> v = value - rest"
    using run by (auto simp: repatriate_into_named_def Let_def split: sum.splits)
  then obtain rest s1 where rep: "repatriate_reserved c sl b value status s = (Inr rest, s1)" and v: "v = value - rest" by blast
  obtain w where w: "rest = value - w" "w \<le> value" "w \<le> reserved (account sl s)" and
    S: "bal_inv c s1" "issuance_gap s1 = issuance_gap s" "same_lists s s1"
    by (rule repatriate_reserved_ok [OF sd ne rep])
  have vw: "v = w" "w \<le> u128_max" using v w account_data_ok [OF inv, of sl] by (auto simp: data_ok_def)
  have R: "reserves s1 = reserves s" using S(3) by (simp add: same_lists_def)
  show ?thesis
  proof (cases "binary_search_by_key i ?rs")
    case (Inr n)
    let ?rs' = "?rs[n := (?rs ! n)\<lparr>ia_amount := sat_add u128_max (ia_amount (?rs ! n)) v\<rparr>]"
    have s': "s' = put_reserves b ?rs' s1" using run Inr rep v by (auto simp: repatriate_into_named_def Let_def)
    note F = found_update(1,2) [where v = "sat_add u128_max (ia_amount (?rs ! n)) v", OF srt Inr]
    show ?thesis
      by (rule that [of ?rs'])
        (use F S R vw w put_reserves_inv [OF S(1) F(1)] search_found(3) [OF srt Inr] in \<open>simp_all add: s'\<close>)
  next
    case (Inl n)
    let ?rs' = "take n ?rs @ \<lparr>ia_id = i, ia_amount = v\<rparr> # drop n ?rs"
    have s': "s' = put_reserves b ?rs' s1"
      using run Inl rep v by (auto simp: repatriate_into_named_def insert_reserve_def Let_def split: if_splits)
    note F = search_not_found(2,3) [where v = v, OF srt Inl] and Z = search_not_found(1) [OF srt Inl]
    show ?thesis
      by (rule that [of ?rs'])
        (use F Z S R vw w put_reserves_inv [OF S(1) F(1)] in \<open>simp_all add: s'\<close>)
  qed
qed

lemma repatriate_reserved_named_ok:
  assumes sd: "sound c s" and ne: "sl \<noteq> b" and max: "status = BS_Reserved \<Longrightarrow> reserved_balance_named i b s + value \<le> u128_max"
    and run: "repatriate_reserved_named c i sl b value status s = (Inr rest, s')"
  obtains v where "rest = value - v" and "v \<le> value" and "v \<le> reserved_balance_named i sl s"
    and "bal_inv c s'" and "issuance_gap s' = issuance_gap s"
    and "\<forall>j x. reserved_balance_named j x s' =
       (if j = i \<and> x = sl then reserved_balance_named i sl s - v
        else if j = i \<and> x = b \<and> status = BS_Reserved then reserved_balance_named i b s + v
        else reserved_balance_named j x s)"
proof -
  have inv: "bal_inv c s" using sd by (simp add: sound_def)
  note srt = bal_inv_reserves [OF inv, of sl] and N = named_amount [OF inv]
  let ?rs = "reserves s sl" and ?n = "reserved_balance_named i sl s"
  show ?thesis
  proof (cases "value = 0 \<or> (\<exists>n. binary_search_by_key i ?rs = Inl n)")
    case True
    then have "rest = value" "s' = s" using run ne
      by (cases "value = 0"; auto simp: repatriate_reserved_named_def)+
    with inv show ?thesis by (intro that [of 0]) auto
  next
    case False
    then obtain n where n: "binary_search_by_key i ?rs = Inr n" by (cases "binary_search_by_key i ?rs") auto
    have am: "ia_amount (?rs ! n) = ?n" using search_found(3) [OF srt n] by (simp add: N)
    define m where "m = min ?n value"
    from run False ne n am obtain v s1 where
      mv: "(if status = BS_Reserved then repatriate_into_named c i sl b m status
           else ebind (repatriate_reserved c sl b m status) (\<lambda>remain. eret (m - remain))) s = (Inr v, s1)"
      and s': "s' = put_reserves sl (?rs[n := (?rs ! n)\<lparr>ia_amount := ?n - v\<rparr>]) s1" and rest: "rest = value - v"
      unfolding m_def by (simp add: repatriate_reserved_named_def Let_def) blast
    have "\<exists>rs. v \<le> m \<and> bal_inv c s1 \<and> issuance_gap s1 = issuance_gap s \<and> reserves s1 = (reserves s)(b := rs) \<and>
      (\<forall>j. amount_of j rs = (if j = i \<and> status = BS_Reserved then amount_of i (reserves s b) + v
                            else amount_of j (reserves s b)))"
    proof (cases "status = BS_Reserved")
      case True
      with mv have r: "repatriate_into_named c i sl b m status s = (Inr v, s1)" by simp
      have "amount_of i (reserves s b) + m \<le> u128_max" using max [OF True] by (simp add: N m_def)
      moreover obtain rs where R: "v \<le> m" "bal_inv c s1" "issuance_gap s1 = issuance_gap s" "reserves s1 = (reserves s)(b := rs)"
        "sorted_wrt (<) (map ia_id rs)"
        "\<forall>j. amount_of j rs = (if j = i then sat_add u128_max (amount_of i (reserves s b)) v else amount_of j (reserves s b))"
        by (rule repatriate_into_named_ok [OF sd ne r])
      ultimately have "amount_of i (reserves s b) + v \<le> u128_max" by linarith
      with R True show ?thesis by (intro exI [of _ rs]) simp
    next
      case False
      with mv obtain r where r: "repatriate_reserved c sl b m status s = (Inr r, s1)" and "v = m - r" by auto
      moreover obtain w where "r = m - w" "w \<le> m" "w \<le> reserved (account sl s)"
        "bal_inv c s1" "issuance_gap s1 = issuance_gap s" "same_lists s s1"
        by (rule repatriate_reserved_ok [OF sd ne r])
      ultimately show ?thesis using False by (intro exI [of _ "reserves s b"]) (simp add: same_lists_def)
    qed
    then obtain rs where v: "v \<le> m" and S: "bal_inv c s1" "issuance_gap s1 = issuance_gap s" "reserves s1 = (reserves s)(b := rs)"
      and am': "\<forall>j. amount_of j rs = (if j = i \<and> status = BS_Reserved then amount_of i (reserves s b) + v
                            else amount_of j (reserves s b))" by blast
    note F = found_update(1,2) [where v = "?n - v", OF srt n]
    have inv': "bal_inv c s'" using put_reserves_inv [OF S(1) F(1)] by (simp add: s')
    have "reserved_balance_named j x s' = (if j = i \<and> x = sl then ?n - v
        else if j = i \<and> x = b \<and> status = BS_Reserved then reserved_balance_named i b s + v
        else reserved_balance_named j x s)" for j x
      using ne unfolding named_amount [OF inv'] by (simp add: N s' S(3) F(2) [unfolded N] am')
    with v rest S inv' show ?thesis by (intro that [of v]) (simp_all add: m_def s')
  qed
qed

section \<open>Locks\<close>

text \<open>Where the account stores anything, the frozen balance becomes the largest of its locks and freezes.\<close>

lemma update_locks_frozen:
  assumes inv: "bal_inv c s" and st: "stores c who s"
  shows "frozen (account who (update_locks c who ls s)) = frozen_max ls (freezes s who)"
proof -
  note I = bal_inv_D [OF inv]
  let ?n = "frozen_max ls (freezes s who)"
  let ?f = "\<lambda>b (_ :: bool). eret (b\<lparr>frozen := ?n\<rparr>, ()) :: (account_data \<times> unit) bal_em"
  have "\<exists>s1. try_mutate_account c who True ?f s = (Inr ((), dust_of c ((account who s)\<lparr>frozen := ?n\<rparr>)), s1)"
    by (rule try_mutate_account_total [where f = ?f, OF I(1,2) _ I(2) refl])
      (use st in \<open>auto simp: eret_def stores_def\<close>)
  then obtain du s1 where m: "mutate_account c who True (\<lambda>b. (b\<lparr>frozen := ?n\<rparr>, ())) s = (Inr ((), du), s1)"
    by (auto simp: mutate_account_def)
  note M = mutate_frozen_ok [OF inv m]
  then show ?thesis using m st by (simp add: update_locks_def Let_def)
qed

text \<open>On a list with distinct identifiers the merge replaces the lock of that identifier or appends one.\<close>

lemma lock_filter_map_None:
  "lock_filter_map i f None ls = (filter (\<lambda>l. lock_ident l \<noteq> i) ls, None)"
  by (induction ls) auto

lemma merged_locks_alt:
  assumes "distinct (map lock_ident ls)"
  shows "merged_locks f nl ls =
    (if lock_ident nl \<in> lock_ident ` set ls then map (\<lambda>l. if lock_ident l = lock_ident nl then f l nl else l) ls else ls @ [nl])"
proof -
  have eq: "lock_filter_map (lock_ident nl) f (Some nl) ls =
      (if lock_ident nl \<in> lock_ident ` set ls then (map (\<lambda>l. if lock_ident l = lock_ident nl then f l nl else l) ls, None)
       else (ls, Some nl))"
    using assms
  proof (induction ls)
    case (Cons l ls)
    show ?case
    proof (cases "lock_ident l = lock_ident nl")
      case True
      then have "filter (\<lambda>l. lock_ident l \<noteq> lock_ident nl) ls = ls" "\<forall>k \<in> set ls. lock_ident k \<noteq> lock_ident nl"
        using Cons.prems by (auto simp: filter_id_conv) (metis imageI)+
      with True show ?thesis by (simp add: lock_filter_map_None map_idI)
    qed (use Cons in \<open>auto simp: image_iff\<close>)
  qed simp
  then show ?thesis by (simp add: merged_locks_def)
qed

lemma find_SomeD:
  assumes "find P xs = Some x"
  shows "P x" "x \<in> set xs"
  using assms by (auto simp: find_Some_iff)

lemma merged_locks_ids:
  assumes "distinct (map lock_ident ls)" and f: "\<And>l. lock_ident l = lock_ident nl \<Longrightarrow> lock_ident (f l nl) = lock_ident nl"
  shows "distinct (map lock_ident (merged_locks f nl ls))"
proof (cases "lock_ident nl \<in> lock_ident ` set ls")
  case True
  have "map lock_ident (map (\<lambda>l. if lock_ident l = lock_ident nl then f l nl else l) ls) = map lock_ident ls"
    by (simp add: f)
  then show ?thesis using assms(1) by (simp only: merged_locks_alt [OF assms(1)] True if_True)
qed (use assms(1) in \<open>auto simp: merged_locks_alt\<close>)

lemma filter_lock_ident:
  "distinct (map lock_ident ls) \<Longrightarrow>
   filter (\<lambda>l. lock_ident l = i) ls = (case find (\<lambda>l. lock_ident l = i) ls of None \<Rightarrow> [] | Some l \<Rightarrow> [l])"
proof (induction ls)
  case (Cons l ls)
  have "filter (\<lambda>k. lock_ident k = lock_ident l) ls = []"
    using Cons.prems by (auto simp: filter_empty_conv) (metis imageI)
  with Cons show ?case by auto
qed simp

lemma filter_merged:
  assumes "distinct (map lock_ident ls)" and f: "\<And>l. lock_ident l = lock_ident nl \<Longrightarrow> lock_ident (f l nl) = lock_ident nl"
  shows "filter (\<lambda>l. lock_ident l = j) (merged_locks f nl ls) =
    (if j = lock_ident nl then [case find (\<lambda>l. lock_ident l = j) ls of None \<Rightarrow> nl | Some l \<Rightarrow> f l nl]
     else filter (\<lambda>l. lock_ident l = j) ls)"
proof (cases "lock_ident nl \<in> lock_ident ` set ls")
  case False
  then have "find (\<lambda>l. lock_ident l = lock_ident nl) ls = None" "filter (\<lambda>l. lock_ident l = lock_ident nl) ls = []"
    by (auto simp: find_None_iff filter_empty_conv image_iff)
  with False show ?thesis by (simp add: merged_locks_alt [OF assms(1)])
next
  case True
  let ?g = "\<lambda>l. if lock_ident l = lock_ident nl then f l nl else l"
  have id: "lock_ident (?g l) = lock_ident l" for l using f by simp
  have "filter (\<lambda>l. lock_ident l = j) (map ?g ls) = map ?g (filter (\<lambda>l. lock_ident l = j) ls)"
    unfolding filter_map comp_def id ..
  moreover have "map ?g (filter (\<lambda>l. lock_ident l = j) ls) = filter (\<lambda>l. lock_ident l = j) ls" if "j \<noteq> lock_ident nl"
    by (rule map_idI) (use that in auto)
  moreover have "find (\<lambda>l. lock_ident l = lock_ident nl) ls \<noteq> None" using True by (auto simp: find_None_iff)
  ultimately show ?thesis using True
    by (auto simp: merged_locks_alt [OF assms(1)] filter_lock_ident [OF assms(1)] dest: find_SomeD)
qed

text \<open>
  \<open>lock_set\<close>: the lock \<open>i\<close> of \<open>who\<close> is \<open>amount\<close>, every other lock is what it was, no token has moved, and
  the frozen balance of an account that stores anything is the largest of its locks and freezes.
\<close>

definition lock_set :: "bal_config \<Rightarrow> lock_id \<Rightarrow> account_id \<Rightarrow> balance \<Rightarrow> bal_state \<Rightarrow> bal_state \<Rightarrow> bool" where
  "lock_set c i who amount s s' \<longleftrightarrow>
     bal_inv c s' \<and> same_tokens s s' \<and> freezes s' = freezes s \<and> holds s' = holds s \<and>
     (\<forall>j x. balance_locked j x s' = (if j = i \<and> x = who then amount else balance_locked j x s)) \<and>
     (stores c who s \<longrightarrow> frozen (account who s') = frozen_max (locks s' who) (freezes s' who)) \<and>
     (\<forall>x. x \<noteq> who \<longrightarrow> account x s' = account x s)"

lemma update_locks_set:
  assumes inv: "bal_inv c s" and dist: "distinct (map lock_ident ls)"
    and am: "\<And>j. fold (\<lambda>l acc. (acc + lock_amount l) mod (u128_max + 1)) (filter (\<lambda>l. lock_ident l = j) ls) 0 =
      (if j = i then amount else balance_locked j who s)"
  shows "lock_set c i who amount s (update_locks c who ls s)"
  using update_locks_ok [OF inv dist] update_locks_frozen [OF inv] am
  by (simp add: lock_set_def balance_locked_def)

lemma bal_inv_locks: "bal_inv c s \<Longrightarrow> distinct (map lock_ident (locks s who))"
  by (simp add: bal_inv_def lists_ok_def)

lemma remove_lock_ok:
  assumes inv: "bal_inv c s"
  shows "lock_set c i who 0 s (remove_lock c i who s)"
  unfolding remove_lock_def
proof (rule update_locks_set [OF inv])
  show "distinct (map lock_ident (filter (\<lambda>l. lock_ident l \<noteq> i) (locks s who)))"
    using bal_inv_locks [OF inv] by (rule distinct_map_filter)
  have "filter (\<lambda>l. lock_ident l \<noteq> i \<and> lock_ident l = j) (locks s who) =
      (if j = i then [] else filter (\<lambda>l. lock_ident l = j) (locks s who))" for j
    by (auto intro: filter_cong)
  then show "fold (\<lambda>l acc. (acc + lock_amount l) mod (u128_max + 1))
      (filter (\<lambda>l. lock_ident l = j) (filter (\<lambda>l. lock_ident l \<noteq> i) (locks s who))) 0 =
      (if j = i then 0 else balance_locked j who s)" for j by (simp add: balance_locked_def)
qed

lemma set_lock_ok:
  assumes inv: "bal_inv c s" and max: "amount \<le> u128_max" and "reasons \<noteq> 0"
  shows "lock_set c i who amount s (set_lock c i who amount reasons s)"
proof (cases "amount = 0")
  case True
  with remove_lock_ok [OF inv] show ?thesis by (simp add: set_lock_def)
next
  case False
  let ?nl = "\<lparr>lock_ident = i, lock_amount = amount, lock_reasons = reasons_from reasons\<rparr>"
  note d = bal_inv_locks [OF inv, of who]
  have eq: "set_lock c i who amount reasons s = update_locks c who (merged_locks (\<lambda>l nl. nl) ?nl (locks s who)) s"
    using False assms(3) by (simp add: set_lock_def)
  show ?thesis unfolding eq
    by (rule update_locks_set [OF inv merged_locks_ids [OF d]])
      (use max in \<open>simp_all add: filter_merged [OF d] balance_locked_def split: option.split\<close>)
qed

lemma extend_lock_ok:
  assumes inv: "bal_inv c s" and max: "amount \<le> u128_max" "\<forall>l \<in> set (locks s who). lock_amount l \<le> u128_max"
    and "reasons \<noteq> 0" "amount \<noteq> 0"
  shows "lock_set c i who (max (balance_locked i who s) amount) s (extend_lock c i who amount reasons s)"
proof -
  let ?nl = "\<lparr>lock_ident = i, lock_amount = amount, lock_reasons = reasons_from reasons\<rparr>"
  let ?f = "\<lambda>l nl. \<lparr>lock_ident = lock_ident l, lock_amount = max (lock_amount l) (lock_amount nl),
              lock_reasons = reasons_bitor (lock_reasons l) (lock_reasons nl)\<rparr>"
  note d = bal_inv_locks [OF inv, of who]
  have eq: "extend_lock c i who amount reasons s = update_locks c who (merged_locks ?f ?nl (locks s who)) s"
    using assms(4,5) by (simp add: extend_lock_def)
  have old: "lock_amount l mod Suc u128_max = lock_amount l \<and> max (lock_amount l) amount mod Suc u128_max = max (lock_amount l) amount"
    if "find (\<lambda>l. lock_ident l = i) (locks s who) = Some l" for l
  proof -
    have "lock_amount l \<le> u128_max" using that max(2) by (auto dest: find_SomeD)
    with max(1) show ?thesis by simp
  qed
  show ?thesis unfolding eq
    by (rule update_locks_set [OF inv merged_locks_ids [OF d]])
      (use max(1) in \<open>simp_all add: filter_merged [OF d] filter_lock_ident [OF d] balance_locked_def old split: option.split\<close>)
qed

end
