(* ===== verification/Arith_128.thy ===== *)
theory Arith_128
  imports Prelude
begin

unbundle bit_operations_syntax

text \<open>
  The 128-bit helpers of \<open>sp_arithmetic\<close> (\<^verbatim>\<open>substrate/primitives/arithmetic/src/helpers_128bit.rs\<close>): the
  binary gcd, the 256-bit product and division of the module \<open>double128\<close>, the multiplication by a rational
  and the integer square root.  The integers are machine words of 128 bits, so that every addition,
  multiplication and shift wraps as in the code.
\<close>

type_synonym u128 = "128 word"

section \<open>The greatest common divisor\<close>

function gcd128 :: "u128 \<Rightarrow> u128 \<Rightarrow> u128" where
  "gcd128 a b =
     (if a = b then b
      else if a = 0 then b
      else if b = 0 then a
      else if a AND 1 = 0 \<and> b AND 1 = 1 then gcd128 (drop_bit 1 a) b
      else if a AND 1 = 1 \<and> b AND 1 = 0 then gcd128 (drop_bit 1 b) a
      else if a AND 1 = 0 \<and> b AND 1 = 0 then push_bit 1 (gcd128 (drop_bit 1 a) (drop_bit 1 b))
      else let x = min a b; y = max a b in gcd128 (drop_bit 1 (y - x)) x)"
  by pat_completeness auto

lemma u128_less: "unat (a :: u128) < 2 ^ 128"
  using unsigned_less [of a, where ?'a = nat] by simp

lemma unat_half [simp]:
  "unat (drop_bit 1 (a :: 'w::len word)) = unat a div 2" "unat (drop_bit (Suc 0) a) = unat a div 2"
  by (simp_all only: unat_drop_bit_eq) (simp_all add: drop_bit_eq_div)

lemma unat_and_one: "unat (a AND 1 :: u128) = unat a mod 2"
  by (simp add: and_one_eq unat_mod_distrib)

lemma and_one: "a AND 1 = (0 :: u128) \<longleftrightarrow> even (unat a)" "a AND 1 = (1 :: u128) \<longleftrightarrow> odd (unat a)"
  by (simp_all add: word_unat_eq_iff unat_and_one even_iff_mod_2_eq_zero odd_iff_mod_2_eq_one)

lemma unat_pos: "(a :: 'w::len word) \<noteq> 0 \<Longrightarrow> 0 < unat a"
  by (simp add: unat_gt_0)

lemma unat_double: "2 * unat a < 2 ^ 128 \<Longrightarrow> unat (push_bit 1 (a :: u128)) = 2 * unat a"
  by (simp add: push_bit_eq_mult unat_word_ariths)

lemma odd_step:
  fixes a b :: u128
  shows "unat (max a b - min a b) = max (unat a) (unat b) - min (unat a) (unat b)"
    and "unat (min a b) = min (unat a) (unat b)"
  by (auto simp: min_def max_def unat_sub word_le_nat_alt)

lemma odd_step_less:
  fixes a b :: u128
  assumes "a \<noteq> b" "a \<noteq> 0" "b \<noteq> 0"
  shows "unat (max a b - min a b) div 2 + unat (min a b) < unat a + unat b"
  using assms unat_pos [of a] unat_pos [of b] unfolding odd_step by (auto simp: min_def max_def)

termination gcd128
  by (relation "measure (\<lambda>(a, b). unat a + unat b)") (simp_all add: unat_pos odd_step_less add_less_mono)

declare gcd128.simps [simp del]

text \<open>The four rules of the binary gcd, on natural numbers.\<close>

lemma gcd_even_odd: "even x \<Longrightarrow> odd y \<Longrightarrow> gcd (x div 2) y = gcd x (y :: nat)"
proof -
  assume x: "even x" and y: "odd y"
  have "coprime 2 y" using y by simp
  then have "gcd (2 * (x div 2)) y = gcd (x div 2) y" by (simp add: gcd_mult_left_left_cancel coprime_commute)
  with x show ?thesis by simp
qed

lemma gcd_even_even: "even x \<Longrightarrow> even y \<Longrightarrow> 2 * gcd (x div 2) (y div 2) = gcd x (y :: nat)"
  by (metis dvd_mult_div_cancel gcd_mult_distrib_nat)

lemma gcd_odd_odd:
  assumes "odd x" "odd y" "x \<le> y"
  shows "gcd ((y - x) div 2) x = gcd x (y :: nat)"
proof -
  have "gcd ((y - x) div 2) x = gcd (y - x) x" using assms by (intro gcd_even_odd) auto
  also have "\<dots> = gcd x y" using assms(3) by (metis gcd.commute gcd_diff1_nat)
  finally show ?thesis .
qed

lemma gcd128_correct: "unat (gcd128 a b) = gcd (unat a) (unat b)"
proof (induction a b rule: gcd128.induct)
  case (1 a b)
  note IH = 1
  consider "a = b" | "a = 0" | "b = 0"
    | "a \<noteq> b" "a \<noteq> 0" "b \<noteq> 0" "even (unat a)" "odd (unat b)"
    | "a \<noteq> b" "a \<noteq> 0" "b \<noteq> 0" "odd (unat a)" "even (unat b)"
    | "a \<noteq> b" "a \<noteq> 0" "b \<noteq> 0" "even (unat a)" "even (unat b)"
    | "a \<noteq> b" "a \<noteq> 0" "b \<noteq> 0" "odd (unat a)" "odd (unat b)" by blast
  then show ?case
  proof cases
    case 4
    then show ?thesis using IH(1) by (simp add: gcd128.simps [of a b] and_one gcd_even_odd)
  next
    case 5
    then show ?thesis using IH(2) gcd_even_odd [of "unat b" "unat a"]
      by (simp add: gcd128.simps [of a b] and_one gcd.commute)
  next
    case 6
    let ?g = "gcd128 (drop_bit 1 a) (drop_bit 1 b)"
    have g: "2 * unat ?g = gcd (unat a) (unat b)" using IH(3) 6 by (simp add: and_one gcd_even_even)
    have "gcd (unat a) (unat b) \<le> unat a" using 6 unat_pos by (intro gcd_le1_nat) simp
    then have "2 * unat ?g < 2 ^ 128" using g u128_less [of a] by linarith
    from unat_double [OF this] 6 g show ?thesis by (simp add: gcd128.simps [of a b] and_one)
  next
    case 7
    then have "unat (gcd128 (drop_bit 1 (max a b - min a b)) (min a b)) = gcd (unat (max a b - min a b) div 2) (unat (min a b))"
      using IH(4) by (simp add: and_one)
    also have "\<dots> = gcd (unat a) (unat b)"
      using 7 gcd_odd_odd [of "unat a" "unat b"] gcd_odd_odd [of "unat b" "unat a"]
      by (cases "unat a \<le> unat b") (simp_all add: odd_step gcd.commute)
    finally show ?thesis using 7 by (simp add: gcd128.simps [of a b] and_one Let_def)
  qed (simp_all add: gcd128.simps)
qed

section \<open>Double-width integers\<close>

record double128 =
  d_high :: u128
  d_low :: u128

definition low_64 :: "u128 \<Rightarrow> u128" where
  "low_64 a = a AND (push_bit 64 1 - 1)"

definition high_64 :: "u128 \<Rightarrow> u128" where
  "high_64 a = drop_bit 64 a"

definition neg128 :: "u128 \<Rightarrow> u128" where
  "neg128 a = NOT a + 1"

definition div128 :: "u128 \<Rightarrow> u128" where
  "div128 a = neg128 a div a + 1"

definition mod128 :: "u128 \<Rightarrow> u128" where
  "mod128 a = neg128 a mod a"

definition try_into_u128 :: "double128 \<Rightarrow> u128 option" where
  "try_into_u128 d = (if d_high d = 0 then Some (d_low d) else None)"

definition double_zero :: double128 where
  "double_zero = \<lparr>d_high = 0, d_low = 0\<rparr>"

definition left_shift_64 :: "u128 \<Rightarrow> double128" where
  "left_shift_64 v = \<lparr>d_high = drop_bit 64 v, d_low = push_bit 64 v\<rparr>"

definition from_low :: "u128 \<Rightarrow> double128" where
  "from_low low = \<lparr>d_high = 0, d_low = low\<rparr>"

definition low_part :: "double128 \<Rightarrow> double128" where
  "low_part d = \<lparr>d_high = 0, d_low = d_low d\<rparr>"

text \<open>\<open>overflowing_add\<close> of the standard library: the wrapped sum and whether it wrapped.\<close>

definition overflowing_add :: "u128 \<Rightarrow> u128 \<Rightarrow> u128 \<times> bool" where
  "overflowing_add a b = (a + b, 2 ^ 128 \<le> unat a + unat b)"

definition double_add :: "double128 \<Rightarrow> double128 \<Rightarrow> double128" where
  "double_add a b =
     (let (low, overflow) = overflowing_add (d_low a) (d_low b);
          carry = (if overflow then 1 else 0);
          high = d_high a + d_high b + carry
      in \<lparr>d_high = high, d_low = low\<rparr>)"

definition product_of :: "u128 \<Rightarrow> u128 \<Rightarrow> double128" where
  "product_of a b =
     (let a_low = low_64 a; a_high = high_64 a;
          b_low = low_64 b; b_high = high_64 b;
          f = a_low * b_low; o1 = a_low * b_high; i = a_high * b_low; l = a_high * b_high;
          fl = \<lparr>d_high = l, d_low = f\<rparr>
      in double_add (double_add fl (left_shift_64 i)) (left_shift_64 o1))"

definition double_val :: "double128 \<Rightarrow> nat" where
  "double_val d = unat (d_high d) * 2 ^ 128 + unat (d_low d)"

lemma double_val_less: "double_val d < 2 ^ 256"
proof -
  have "unat (d_high d) * 2 ^ 128 + unat (d_low d) \<le> (2 ^ 128 - 1) * 2 ^ 128 + (2 ^ 128 - 1)"
    using u128_less [of "d_high d"] u128_less [of "d_low d"] by (intro add_mono mult_right_mono) auto
  then show ?thesis by (simp add: double_val_def)
qed

lemma double_val_low [simp]: "double_val (from_low a) = unat a" "double_val (low_part d) = unat (d_low d)"
  "double_val double_zero = 0"
  by (simp_all add: double_val_def from_low_def low_part_def double_zero_def)

lemma low_64_val: "unat (low_64 a) = unat a mod 2 ^ 64"
proof -
  have "push_bit 64 1 - 1 = (mask 64 :: u128)" by (simp add: mask_eq_exp_minus_1 push_bit_eq_mult)
  then have "low_64 a = take_bit 64 a" by (simp add: low_64_def take_bit_eq_mask)
  then have "low_64 a = a mod 2 ^ 64" by (simp add: take_bit_eq_mod)
  then show ?thesis by (simp add: unat_mod_distrib)
qed

lemma high_64_val: "unat (high_64 a) = unat a div 2 ^ 64"
  by (simp only: high_64_def unat_drop_bit_eq) (simp add: drop_bit_eq_div)

lemma high_64_less: "unat (high_64 a) < 2 ^ 64" "unat (low_64 a) < 2 ^ 64"
  using u128_less [of a] by (simp_all add: high_64_val low_64_val)

lemma mod_base_sq: "l < B \<Longrightarrow> (h * B + l) mod (B * B) = h mod B * B + (l :: nat)"
  by (simp add: mod_mult2_eq)

lemma double_add_val: "double_val (double_add a b) = (double_val a + double_val b) mod 2 ^ 256"
proof -
  define B :: nat where "B = 2 ^ 128"
  define c :: nat where "c = (if B \<le> unat (d_low a) + unat (d_low b) then 1 else 0)"
  have lo: "unat (d_low a + d_low b) + c * B = unat (d_low a) + unat (d_low b)"
    using u128_less [of "d_low a"] u128_less [of "d_low b"] by (auto simp: c_def B_def unat_word_ariths mod_if)
  have hi: "unat (d_high a + d_high b + (if B \<le> unat (d_low a) + unat (d_low b) then 1 else 0)) =
    (unat (d_high a) + unat (d_high b) + c) mod B"
    by (simp add: c_def B_def unat_word_ariths mod_simps)
  let ?h = "unat (d_high a) + unat (d_high b) + c" and ?l = "unat (d_low a + d_low b)"
  have "?l < B" using u128_less by (simp add: B_def)
  then have "(?h * B + ?l) mod (B * B) = ?h mod B * B + ?l" by (rule mod_base_sq)
  moreover have "double_val a + double_val b = ?h * B + ?l"
    using lo unfolding double_val_def B_def [symmetric] by (simp add: algebra_simps)
  moreover have "B * B = 2 ^ 256" by (simp add: B_def)
  moreover have "double_val (double_add a b) = ?h mod B * B + ?l"
    using hi unfolding double_val_def double_add_def overflowing_add_def B_def [symmetric] by simp
  ultimately show ?thesis by simp
qed

lemma left_shift_64_val: "double_val (left_shift_64 v) = unat v * 2 ^ 64"
proof -
  define C :: nat where "C = 2 ^ 64"
  have B: "2 ^ 128 = C * C" by (simp add: C_def)
  have "unat (drop_bit 64 v) = unat v div C" using high_64_val [of v] by (simp add: high_64_def C_def)
  moreover have "unat (push_bit 64 v) = (unat v * C) mod (C * C)"
    by (simp add: push_bit_eq_mult unat_word_ariths C_def)
  moreover have "(unat v * C) mod (C * C) = unat v mod C * C" by (simp add: mod_mult_mult2)
  moreover have "unat v div C * (C * C) + unat v mod C * C = unat v * C"
    by (metis (no_types, lifting) div_mult_mod_eq distrib_right mult.assoc)
  ultimately show ?thesis unfolding double_val_def left_shift_64_def B C_def [symmetric] by simp
qed

lemma product_of_val: "double_val (product_of a b) = unat a * unat b"
proof -
  define C :: nat where "C = 2 ^ 64"
  define al ah bl bh where "al = unat (low_64 a)" "ah = unat (high_64 a)" "bl = unat (low_64 b)" "bh = unat (high_64 b)"
  note d = al_ah_bl_bh_def
  have less: "al < C" "ah < C" "bl < C" "bh < C" using high_64_less by (simp_all add: d C_def)
  have a: "unat a = ah * C + al" and b: "unat b = bh * C + bl"
    by (simp_all add: d C_def high_64_val low_64_val)
  have prod: "unat (x * y) = unat x * unat y" if "unat x < C" "unat y < C" for x y :: u128
  proof -
    have "unat x * unat y < C * C" using that by (intro mult_strict_mono') auto
    then show ?thesis by (simp add: unat_word_ariths C_def)
  qed
  have m: "unat (low_64 a * low_64 b) = al * bl" "unat (low_64 a * high_64 b) = al * bh"
    "unat (high_64 a * low_64 b) = ah * bl" "unat (high_64 a * high_64 b) = ah * bh"
    using less by (simp_all add: d prod)
  let ?fl = "\<lparr>d_high = high_64 a * high_64 b, d_low = low_64 a * low_64 b\<rparr>"
  have fl: "double_val ?fl = ah * bh * (C * C) + al * bl" by (simp add: double_val_def m C_def)
  have tot: "ah * bh * (C * C) + al * bl + ah * bl * C + al * bh * C = unat a * unat b"
    by (simp add: a b algebra_simps)
  have "unat a * unat b < 2 ^ 128 * 2 ^ 128" using u128_less by (intro mult_strict_mono') auto
  then have lt: "unat a * unat b < 2 ^ 256" by simp
  have "double_val (product_of a b) = ((ah * bh * (C * C) + al * bl + ah * bl * C) mod 2 ^ 256 + al * bh * C) mod 2 ^ 256"
    unfolding product_of_def Let_def double_add_val left_shift_64_val fl m C_def [symmetric] ..
  also have "\<dots> = (unat a * unat b) mod 2 ^ 256" by (simp only: mod_add_left_eq tot)
  finally show ?thesis using lt by simp
qed

section \<open>Division\<close>

lemma neg128_val:
  assumes "a \<noteq> 0"
  shows "unat (neg128 a) = 2 ^ 128 - unat a"
proof -
  have "neg128 a + a = 0" by (simp add: neg128_def minus_eq_not_plus_1 [symmetric])
  then have "(unat (neg128 a) + unat a) mod 2 ^ 128 = 0" by (simp add: word_unat_eq_iff unat_word_ariths)
  moreover have "0 < unat a" using assms by (simp add: unat_gt_0)
  ultimately show ?thesis using u128_less [of a] u128_less [of "neg128 a"] by (auto simp: mod_if split: if_splits)
qed

text \<open>For a divisor of at least two, \<open>div128\<close> and \<open>mod128\<close> divide \<open>2 ^ 128\<close>, which no word holds.\<close>

lemma div128_val:
  assumes "2 \<le> unat b"
  shows "unat (div128 b) * unat b + unat (mod128 b) = 2 ^ 128" and "unat (mod128 b) < unat b"
proof -
  define B :: nat where "B = 2 ^ 128"
  have "b \<noteq> 0" using assms by auto
  then have neg: "unat (neg128 b) = B - unat b" by (simp add: neg128_val B_def)
  have le: "unat b \<le> B" using u128_less [of b] by (simp add: B_def)
  have "(B - unat b) div unat b + 1 = B div unat b" using assms le by (simp add: le_div_geq [of "unat b" B])
  moreover have "B div unat b < B" using assms by (simp add: B_def)
  ultimately have "unat (div128 b) = B div unat b"
    by (simp add: div128_def unat_word_ariths neg unat_div_distrib B_def)
  moreover have "unat (mod128 b) = B mod unat b"
    using le_mod_geq [OF le] by (simp add: mod128_def unat_mod_distrib neg)
  ultimately show "unat (div128 b) * unat b + unat (mod128 b) = 2 ^ 128" "unat (mod128 b) < unat b"
    using assms unfolding B_def [symmetric] by simp_all
qed

text \<open>The next dividend of the loop is smaller, whatever the multiplier.\<close>

lemma div_step_val:
  "double_val (double_add (product_of (d_high d) r) (low_part d)) = unat (d_high d) * unat r + unat (d_low d)"
proof -
  have "unat (d_high d) * unat r + unat (d_low d) \<le> (2 ^ 128 - 1) * (2 ^ 128 - 1) + (2 ^ 128 - 1)"
    using u128_less [of "d_high d"] u128_less [of r] u128_less [of "d_low d"] by (intro add_mono mult_mono) auto
  then show ?thesis by (simp add: double_add_val product_of_val)
qed

lemma div_step_less:
  "d_high d \<noteq> 0 \<Longrightarrow> double_val (double_add (product_of (d_high d) r) (low_part d)) < double_val d"
  using u128_less [of r] unat_gt_0 [of "d_high d"] unfolding div_step_val by (simp add: double_val_def)

function div_loop :: "double128 \<Rightarrow> u128 \<Rightarrow> u128 \<Rightarrow> double128 \<Rightarrow> double128 \<times> double128" where
  "div_loop self q r x =
     (if d_high self \<noteq> 0
      then div_loop (double_add (product_of (d_high self) r) (low_part self)) q r
             (double_add x (product_of (d_high self) q))
      else (x, self))"
  by pat_completeness auto
termination
  by (relation "measure (\<lambda>(self, q, r, x). double_val self)") (auto simp: div_step_less)

declare div_loop.simps [simp del]

definition double_div :: "double128 \<Rightarrow> u128 \<Rightarrow> double128 \<times> u128" where
  "double_div self rhs =
     (if rhs = 1 then (self, 0)
      else
        let q = div128 rhs; r = mod128 rhs;
            (x, self') = div_loop self q r double_zero
        in (double_add x (from_low (d_low self' div rhs)), d_low self' mod rhs))"

lemma div_loop_correct:
  assumes "2 \<le> unat b" and "double_val x + double_val d div unat b < 2 ^ 256"
    and "div_loop d (div128 b) (mod128 b) x = (x', d')"
  shows "d_high d' = 0 \<and> double_val x' + unat (d_low d') div unat b = double_val x + double_val d div unat b \<and>
    unat (d_low d') mod unat b = double_val d mod unat b"
  using assms(2,3)
proof (induction d "div128 b" "mod128 b" x arbitrary: x' d' rule: div_loop.induct)
  case (1 d x)
  define q r where "q = unat (div128 b)" and "r = unat (mod128 b)"
  note D = div128_val [OF assms(1), folded q_def r_def]
  show ?case
  proof (cases "d_high d = 0")
    case True
    with 1(3) show ?thesis by (simp add: div_loop.simps double_val_def)
  next
    case False
    let ?h = "unat (d_high d)" and ?d = "double_add (product_of (d_high d) (mod128 b)) (low_part d)"
    let ?x = "double_add x (product_of (d_high d) (div128 b))"
    have d: "double_val ?d = ?h * r + unat (d_low d)" by (simp add: div_step_val r_def)
    have "double_val d = ?h * (q * unat b + r) + unat (d_low d)" unfolding double_val_def D(1) ..
    then have eq: "double_val d = ?h * q * unat b + double_val ?d" by (simp add: d algebra_simps)
    have "double_val d div unat b = ?h * q + double_val ?d div unat b" "double_val d mod unat b = double_val ?d mod unat b"
      using assms(1) by (simp_all add: eq)
    moreover from this have "double_val ?x = double_val x + ?h * q"
      using 1(2) by (simp add: double_add_val product_of_val q_def)
    ultimately show ?thesis using 1(1) [OF False, of x' d'] 1(2,3) False
      by (simp add: div_loop.simps [of d])
  qed
qed

lemma double_div_correct:
  assumes "b \<noteq> 0" and "double_div d b = (q, r)"
  shows "double_val q = double_val d div unat b" and "unat r = double_val d mod unat b"
proof -
  have "double_val q = double_val d div unat b \<and> unat r = double_val d mod unat b"
  proof (cases "b = 1")
    case True
    with assms(2) show ?thesis by (auto simp: double_div_def)
  next
    case False
    then have "unat b \<noteq> 1" "unat b \<noteq> 0" using assms(1) by (simp_all add: word_unat_eq_iff)
    then have b: "2 \<le> unat b" by linarith
    obtain x d' where l: "div_loop d (div128 b) (mod128 b) double_zero = (x, d')" by (rule prod.exhaust)
    have "double_val double_zero + double_val d div unat b < 2 ^ 256"
      using double_val_less [of d] by (simp add: le_less_trans [OF div_le_dividend])
    note L = div_loop_correct [OF b this l]
    have lt: "double_val d div unat b < 2 ^ 256" using double_val_less [of d] by (rule le_less_trans [OF div_le_dividend])
    show ?thesis using assms(2) False l L lt
      by (auto simp: double_div_def double_add_val unat_div_distrib unat_mod_distrib)
  qed
  then show "double_val q = double_val d div unat b" "unat r = double_val d mod unat b" by simp_all
qed

section \<open>Multiplication by a rational\<close>

datatype rounding = R_Up | R_Down | R_NearestPrefUp | R_NearestPrefDown

definition checked_inc :: "u128 \<Rightarrow> u128 option" where
  "checked_inc a = (if unat a + 1 < 2 ^ 128 then Some (a + 1) else None)"

definition multiply_by_rational_with_rounding :: "u128 \<Rightarrow> u128 \<Rightarrow> u128 \<Rightarrow> rounding \<Rightarrow> u128 option" where
  "multiply_by_rational_with_rounding a b c r =
     (if c = 0 then None
      else
        let (result, remainder) = double_div (product_of a b) c in
        case try_into_u128 result of
          None \<Rightarrow> None
        | Some result \<Rightarrow>
            if (case r of
                  R_Up \<Rightarrow> remainder > 0
                | R_NearestPrefUp \<Rightarrow> remainder \<ge> c div 2 + c mod 2
                | R_NearestPrefDown \<Rightarrow> remainder > c div 2
                | R_Down \<Rightarrow> False)
            then checked_inc result
            else Some result)"

text \<open>The reference: the exact quotient of natural numbers, rounded.\<close>

definition rounded_div :: "rounding \<Rightarrow> nat \<Rightarrow> nat \<Rightarrow> nat" where
  "rounded_div r n d =
     n div d + (if (case r of R_Up \<Rightarrow> n mod d \<noteq> 0 | R_Down \<Rightarrow> False
                  | R_NearestPrefUp \<Rightarrow> d \<le> 2 * (n mod d) | R_NearestPrefDown \<Rightarrow> d < 2 * (n mod d)) then 1 else 0)"

lemma try_into_u128_val:
  "try_into_u128 d = (if double_val d < 2 ^ 128 then Some (word_of_nat (double_val d)) else None)"
proof (cases "d_high d = 0")
  case True
  then show ?thesis using u128_less [of "d_low d"] by (simp add: try_into_u128_def double_val_def)
next
  case False
  then have "0 < unat (d_high d)" by (simp add: unat_gt_0)
  then have "2 ^ 128 \<le> double_val d" by (simp add: double_val_def)
  with False show ?thesis by (simp add: try_into_u128_def)
qed

lemma half_up: "unat (c div 2 + c mod 2 :: u128) = unat c div 2 + unat c mod 2"
proof -
  have "unat c div 2 + unat c mod 2 \<le> unat c" by presburger
  with u128_less [of c] show ?thesis by (simp add: unat_word_ariths unat_div_distrib unat_mod_distrib)
qed

lemma half_le: "c div 2 + c mod 2 \<le> m \<longleftrightarrow> c \<le> 2 * (m :: nat)"
  by presburger

lemma half_less: "c div 2 < m \<longleftrightarrow> c < 2 * (m :: nat)"
  by presburger

lemma multiply_by_rational_correct:
  "multiply_by_rational_with_rounding a b c r =
     (if c = 0 \<or> 2 ^ 128 \<le> rounded_div r (unat a * unat b) (unat c) then None
      else Some (word_of_nat (rounded_div r (unat a * unat b) (unat c))))"
proof (cases "c = 0")
  case False
  obtain q m where d: "double_div (product_of a b) c = (q, m)" by (rule prod.exhaust)
  let ?n = "unat a * unat b"
  note D = double_div_correct [OF False d, unfolded product_of_val]
  let ?up = "case r of R_Up \<Rightarrow> m > 0 | R_NearestPrefUp \<Rightarrow> m \<ge> c div 2 + c mod 2 | R_NearestPrefDown \<Rightarrow> m > c div 2 | R_Down \<Rightarrow> False"
  have up: "?up \<longleftrightarrow> (case r of R_Up \<Rightarrow> ?n mod unat c \<noteq> 0 | R_Down \<Rightarrow> False
      | R_NearestPrefUp \<Rightarrow> unat c \<le> 2 * (?n mod unat c) | R_NearestPrefDown \<Rightarrow> unat c < 2 * (?n mod unat c))"
  proof (cases r)
    case R_NearestPrefUp
    have "m \<ge> c div 2 + c mod 2 \<longleftrightarrow> unat c div 2 + unat c mod 2 \<le> ?n mod unat c"
      by (simp only: word_le_nat_alt half_up D)
    also have "\<dots> \<longleftrightarrow> unat c \<le> 2 * (?n mod unat c)" by (rule half_le)
    finally show ?thesis using R_NearestPrefUp by simp
  next
    case R_NearestPrefDown
    have "m > c div 2 \<longleftrightarrow> unat c div 2 < ?n mod unat c"
      by (simp add: word_less_nat_alt D unat_div_distrib)
    also have "\<dots> \<longleftrightarrow> unat c < 2 * (?n mod unat c)" by (rule half_less)
    finally show ?thesis using R_NearestPrefDown by simp
  next
    case R_Up
    then show ?thesis by (simp add: word_gt_0 word_unat_eq_iff D)
  qed simp
  have inc: "checked_inc (word_of_nat k) = (if k + 1 < 2 ^ 128 then Some (word_of_nat (k + 1)) else None)" if "k < 2 ^ 128" for k
  proof -
    have "unat (word_of_nat k :: u128) = k" using that unfolding unat_of_nat by simp
    then show ?thesis unfolding checked_inc_def by (simp only: of_nat_add of_nat_1)
  qed
  have eq: "multiply_by_rational_with_rounding a b c r =
      (case try_into_u128 q of None \<Rightarrow> None | Some x \<Rightarrow> if ?up then checked_inc x else Some x)"
    using False d unfolding multiply_by_rational_with_rounding_def by simp
  show ?thesis
  proof (cases "?n div unat c < 2 ^ 128")
    case True
    note L = eq [unfolded try_into_u128_val D(1) up if_P [OF True] option.case inc [OF True]]
    show ?thesis unfolding L using True False by (cases r) (simp_all add: rounded_div_def)
  next
    case nlt: False
    note L = eq [unfolded try_into_u128_val D(1) if_not_P [OF nlt] option.case]
    have "2 ^ 128 \<le> rounded_div r ?n (unat c)" using nlt unfolding rounded_div_def by linarith
    with L show ?thesis by simp
  qed
qed (simp add: multiply_by_rational_with_rounding_def)

section \<open>The integer square root\<close>

fun lz_from :: "nat \<Rightarrow> u128 \<Rightarrow> nat" where
  "lz_from 0 n = 0"
| "lz_from (Suc i) n = (if bit n i then 0 else Suc (lz_from i n))"

definition leading_zeros :: "u128 \<Rightarrow> nat" where
  "leading_zeros n = lz_from 128 n"

lemma unat_quarter: "unat (drop_bit 2 (b :: u128)) = unat b div 4"
  by (simp only: unat_drop_bit_eq) (simp add: drop_bit_eq_div)

function sqrt_loop :: "u128 \<Rightarrow> u128 \<Rightarrow> u128 \<Rightarrow> u128" where
  "sqrt_loop n result b =
     (if b \<noteq> 0
      then if n \<ge> result + b
           then sqrt_loop (n - (result + b)) (drop_bit 1 result + b) (drop_bit 2 b)
           else sqrt_loop n (drop_bit 1 result) (drop_bit 2 b)
      else result)"
  by pat_completeness auto
termination
  by (relation "measure (\<lambda>(n, result, b). unat b)") (simp_all add: unat_quarter unat_gt_0)

declare sqrt_loop.simps [simp del]

definition sqrt :: "u128 \<Rightarrow> u128" where
  "sqrt n =
     (if n = 0 then 0
      else
        let max_shift = leading_zeros 0 - 1;
            shift = unat ((word_of_nat (max_shift - leading_zeros n) :: 32 word) AND NOT 1);
            b = push_bit shift 1
        in sqrt_loop n 0 b)"

lemma bit_unat: "bit (n :: u128) i \<longleftrightarrow> odd (unat n div 2 ^ i)"
proof -
  have "bit n i \<longleftrightarrow> bit (unat n) i" by (simp add: bit_unsigned_iff)
  then show ?thesis by (simp add: bit_iff_odd)
qed

lemma lz_from_correct:
  "n \<noteq> 0 \<Longrightarrow> unat n < 2 ^ i \<Longrightarrow> lz_from i n < i \<and> 2 ^ (i - 1 - lz_from i n) \<le> unat n \<and> unat n < 2 ^ (i - lz_from i n)"
proof (induction i)
  case 0
  then show ?case by (simp add: unat_eq_zero)
next
  case (Suc i)
  show ?case
  proof (cases "2 ^ i \<le> unat n")
    case True
    with Suc.prems have "unat n div 2 ^ i = 1" by (simp add: div_nat_eqI)
    then have "bit n i" by (simp add: bit_unat)
    with True Suc.prems show ?thesis by simp
  next
    case False
    then have "\<not> bit n i" by (simp add: bit_unat)
    with False Suc show ?thesis by simp
  qed
qed

text \<open>The trial value never overflows: the root found so far is a multiple of twice the bit under trial.\<close>

lemma sqrt_no_overflow:
  fixes R j N :: nat
  assumes "2 ^ Suc j dvd R" and "N < 2 ^ 128" and "R * R \<le> N" and "j < 64"
  shows "R * 2 ^ Suc j + 4 ^ j < 2 ^ 128"
proof -
  define t u :: nat where "t = 2 ^ Suc j" and "u = 2 ^ 64"
  have uu: "u * u = 2 ^ 128" by (simp add: u_def)
  have "R < u"
  proof (rule ccontr)
    assume "\<not> R < u"
    then have "u * u \<le> R * R" by (intro mult_mono) auto
    with assms(2,3) uu show False by linarith
  qed
  moreover have "t dvd u" unfolding t_def u_def using assms(4) by (intro le_imp_power_dvd) simp
  ultimately have "t \<le> u - R" using assms(1) unfolding t_def by (intro dvd_imp_le dvd_diff_nat) auto
  with \<open>R < u\<close> have "R + t \<le> u" "t \<le> u" by linarith+
  then have "(R + t) * t \<le> u * u" by (intro mult_mono) auto
  moreover have "(4 :: nat) ^ j < t * t"
  proof -
    have "(4 :: nat) ^ j = 2 ^ j * 2 ^ j" by (simp flip: power_mult_distrib)
    then show ?thesis by (simp add: t_def)
  qed
  ultimately have "R * t + 4 ^ j < u * u" unfolding distrib_right by linarith
  then show ?thesis by (simp add: t_def uu)
qed

lemma sqrt_loop_correct:
  assumes "unat n + R * R = N" and "unat res = R * 2 ^ j" and "unat b = (if j = 0 then 0 else 4 ^ (j - 1))"
    and "N < (R + 2 ^ j) * (R + 2 ^ j)" and "2 ^ j dvd R" and "N < 2 ^ 128" and "j \<le> 64"
  shows "unat (sqrt_loop n res b) * unat (sqrt_loop n res b) \<le> N \<and>
    N < (unat (sqrt_loop n res b) + 1) * (unat (sqrt_loop n res b) + 1)"
  using assms
proof (induction j arbitrary: n R res b)
  case 0
  then have "b = 0" by (simp add: unat_eq_zero)
  with 0 show ?case by (simp add: sqrt_loop.simps [of n res 0])
next
  case (Suc j)
  have b: "unat b = 4 ^ j" "b \<noteq> 0" using Suc.prems(3) by (auto simp: unat_gt_0 [symmetric])
  have RN: "R * R \<le> N" and j: "j < 64" using Suc.prems(1,7) by auto
  note ov = sqrt_no_overflow [OF Suc.prems(5,6) RN j]
  have sq: "(4 :: nat) ^ j = 2 ^ j * 2 ^ j" by (simp flip: power_mult_distrib)
  have sum: "unat (res + b) = R * 2 ^ Suc j + 4 ^ j" using ov Suc.prems(2) b(1) by (simp add: unat_word_ariths)
  have half: "unat (drop_bit 1 res) = R * 2 ^ j" using Suc.prems(2) by simp
  have quart: "unat (drop_bit 2 b) = (if j = 0 then 0 else 4 ^ (j - 1))"
    by (cases j) (simp_all add: unat_quarter b(1))
  show ?case
  proof (cases "res + b \<le> n")
    case True
    let ?R = "R + 2 ^ j"
    have le: "R * 2 ^ Suc j + 4 ^ j \<le> unat n" using True by (simp only: word_le_nat_alt sum)
    have n': "unat (n - (res + b)) = unat n - (R * 2 ^ Suc j + 4 ^ j)" using True by (simp only: unat_sub sum)
    have sqR: "?R * ?R = R * R + (R * 2 ^ Suc j + 4 ^ j)" by (simp add: sq algebra_simps)
    have "unat (n - (res + b)) + ?R * ?R = N" using n' le Suc.prems(1) sqR by linarith
    moreover have "unat (drop_bit 1 res + b) = ?R * 2 ^ j"
      using ov half b(1) by (simp add: unat_word_ariths sq distrib_right)
    moreover have "N < (?R + 2 ^ j) * (?R + 2 ^ j)" using Suc.prems(4) by (simp add: add.assoc mult_2 [symmetric])
    moreover have "2 ^ j dvd ?R" using Suc.prems(5) by (meson dvd_add dvd_refl le_imp_power_dvd dvd_trans le_SucI order_refl)
    ultimately show ?thesis using Suc.IH [of "n - (res + b)" ?R "drop_bit 1 res + b" "drop_bit 2 b"] quart Suc.prems(6,7) True b(2)
      by (simp add: sqrt_loop.simps [of n res b])
  next
    case False
    have "N < (R + 2 ^ j) * (R + 2 ^ j)"
    proof -
      have "unat n < R * 2 ^ Suc j + 4 ^ j" using False by (simp only: word_le_nat_alt sum not_le)
      moreover have "(R + 2 ^ j) * (R + 2 ^ j) = R * R + (R * 2 ^ Suc j + 4 ^ j)" by (simp add: sq algebra_simps)
      ultimately show ?thesis using Suc.prems(1) by linarith
    qed
    moreover have "2 ^ j dvd R" using Suc.prems(5) by (meson le_imp_power_dvd dvd_trans le_SucI order_refl)
    ultimately show ?thesis using Suc.IH [of n R "drop_bit 1 res" "drop_bit 2 b"] quart half Suc.prems(1,6,7) False b(2)
      by (simp add: sqrt_loop.simps [of n res b])
  qed
qed

lemma unat_exp:
  assumes "k < 128"
  shows "unat (push_bit k 1 :: u128) = 2 ^ k"
proof -
  have "push_bit k 1 = (word_of_nat (2 ^ k) :: u128)" by (simp add: push_bit_eq_mult)
  moreover have "(2 :: nat) ^ k < 2 ^ 128" using assms by (rule power_strict_increasing) simp
  ultimately show ?thesis by (simp add: unat_of_nat del: of_nat_power push_bit_of_1)
qed

lemma and_not_mask: "(w :: 'w::len word) AND NOT (mask n) = push_bit n (drop_bit n w)"
  by (rule bit_word_eqI) (auto simp: bit_simps)

lemma clear_low_bit:
  assumes "p < 128"
  shows "unat ((word_of_nat p :: 32 word) AND NOT 1) = 2 * (p div 2)"
proof -
  have "(word_of_nat p :: 32 word) AND NOT 1 = push_bit 1 (drop_bit 1 (word_of_nat p))"
    using and_not_mask [of "word_of_nat p :: 32 word" 1] by (simp only: mask_1)
  also have "\<dots> = word_of_nat (2 * (p div 2))"
  proof -
    have u: "unat (word_of_nat p :: 32 word) = p" using assms by (simp add: unat_of_nat)
    have "drop_bit 1 (word_of_nat p :: 32 word) = word_of_nat (p div 2)"
      using assms by (simp add: word_unat_eq_iff u unat_of_nat drop_bit_eq_div unat_div_distrib)
    then show ?thesis by (simp add: push_bit_eq_mult mult.commute)
  qed
  finally have eq: "(word_of_nat p :: 32 word) AND NOT 1 = word_of_nat (2 * (p div 2))" .
  have "2 * (p div 2) < 2 ^ 32" using assms by simp
  then show ?thesis unfolding eq unat_of_nat by simp
qed

lemma sqrt_correct: "unat (sqrt n) * unat (sqrt n) \<le> unat n \<and> unat n < (unat (sqrt n) + 1) * (unat (sqrt n) + 1)"
proof (cases "n = 0")
  case False
  define p where "p = 127 - leading_zeros n"
  have L: "leading_zeros n < 128" "2 ^ p \<le> unat n" "unat n < 2 ^ (128 - leading_zeros n)"
    using lz_from_correct [OF False, of 128] u128_less [of n] by (simp_all add: leading_zeros_def p_def)
  have p: "128 - leading_zeros n = Suc p" "p < 128" using L(1) by (simp_all add: p_def)
  have z: "leading_zeros 0 = 128" by (simp add: leading_zeros_def eval_nat_numeral)
  note sh = clear_low_bit [OF p(2)]
  let ?j = "Suc (p div 2)" and ?b = "push_bit (2 * (p div 2)) 1 :: u128"
  have b: "unat ?b = 4 ^ (p div 2)" using unat_exp [of "2 * (p div 2)"] p(2) by (simp add: power_mult)
  have "(2 :: nat) ^ Suc p \<le> 2 ^ ?j * 2 ^ ?j" 
    unfolding power_add [symmetric] by (rule power_increasing) simp_all
  with L(3) p have "unat n < 2 ^ ?j * 2 ^ ?j" by simp
  with b sqrt_loop_correct [of n 0 "unat n" 0 ?j ?b] p u128_less [of n]
  have "unat (sqrt_loop n 0 ?b) * unat (sqrt_loop n 0 ?b) \<le> unat n \<and>
      unat n < (unat (sqrt_loop n 0 ?b) + 1) * (unat (sqrt_loop n 0 ?b) + 1)" by simp
  moreover have "128 - 1 - leading_zeros n = p" by (simp add: p_def)
  then have "sqrt n = sqrt_loop n 0 ?b" using False unfolding sqrt_def Let_def z by (simp only: if_False sh)
  ultimately show ?thesis by simp
qed (simp add: sqrt_def)

end
