(* ===== verification/Per_Things.thy ===== *)
theory Per_Things
  imports Arith_128
begin

text \<open>
  Parts per thing of \<open>sp_arithmetic\<close>: \<open>Percent\<close>, \<open>PerU16\<close>, \<open>Permill\<close>, \<open>Perbill\<close> and \<open>Perquintill\<close>
  (\<^verbatim>\<open>substrate/primitives/arithmetic/src/per_things.rs\<close>), and the trait \<open>MultiplyRational\<close>
  (\<^verbatim>\<open>rational.rs\<close>) that converts rationals to them.

  A value of such a type is its number of parts.  The macro \<open>implement_per_thing\<close> is generic in the
  accuracy and in the widths of the inner and of the upper integer; here they are the fields of a record.
  The type \<open>N\<close> that a value is multiplied with is given by its largest value.
\<close>

section \<open>Multiplication by a rational\<close>

definition wrap :: "nat \<Rightarrow> nat \<Rightarrow> nat" where
  "wrap mx v = v mod (mx + 1)"

lemma wrap_id [simp]: "v \<le> mx \<Longrightarrow> wrap mx v = v"
  by (simp add: wrap_def)

definition round_up_here :: "rounding \<Rightarrow> nat \<Rightarrow> nat \<Rightarrow> bool" where
  "round_up_here r remainder d =
     (case r of
        R_Up \<Rightarrow> remainder > 0
      | R_NearestPrefUp \<Rightarrow> remainder \<ge> d div 2 + d mod 2
      | R_NearestPrefDown \<Rightarrow> remainder > d div 2
      | R_Down \<Rightarrow> False)"

lemma rounded_div_alt: "rounded_div r n d = n div d + (if round_up_here r (n mod d) d then 1 else 0)"
  by (cases r) (simp_all add: rounded_div_def round_up_here_def half_le half_less)

text \<open>
  The macro \<open>impl_rrm\<close>: the product is formed in an integer of twice the width, whose largest value is
  \<open>mx * (mx + 2)\<close>.
\<close>

definition multiply_rational_low :: "nat \<Rightarrow> nat \<Rightarrow> nat \<Rightarrow> nat \<Rightarrow> rounding \<Rightarrow> nat option" where
  "multiply_rational_low mx self n d r =
     (if d = 0 then None
      else
        let hi = mx * (mx + 2);
            sn = wrap hi (self * n);
            result = sn div d;
            remainder = wrap mx (sn mod d)
        in case (if round_up_here r remainder d then checked_add hi result 1 else Some result) of
             None \<Rightarrow> None
           | Some result \<Rightarrow> if result > mx then None else Some result)"

definition multiply_rational_u128 :: "nat \<Rightarrow> nat \<Rightarrow> nat \<Rightarrow> rounding \<Rightarrow> nat option" where
  "multiply_rational_u128 self n d r =
     map_option unat (multiply_by_rational_with_rounding (word_of_nat self) (word_of_nat n) (word_of_nat d) r)"

text \<open>What the users of the trait rely on, for a type whose largest value is \<open>mx\<close>.\<close>

locale rational_arg =
  fixes mx :: nat and mr :: "nat \<Rightarrow> nat \<Rightarrow> nat \<Rightarrow> rounding \<Rightarrow> nat option"
  assumes mr_law: "\<And>a n d r. a \<le> mx \<Longrightarrow> n \<le> mx \<Longrightarrow> d \<le> mx \<Longrightarrow>
    mr a n d r = (if d = 0 \<or> mx < rounded_div r (a * n) d then None else Some (rounded_div r (a * n) d))"

lemma multiply_rational_low_law:
  assumes "a \<le> mx" and "n \<le> mx" and "d \<le> mx"
  shows "multiply_rational_low mx a n d r =
    (if d = 0 \<or> mx < rounded_div r (a * n) d then None else Some (rounded_div r (a * n) d))"
proof (cases "d = 0")
  case False
  have "a * n \<le> mx * mx" using assms by (intro mult_mono) auto
  then have hi: "a * n \<le> mx * (mx + 2)" by simp
  have "a * n mod d \<le> mx" using assms(3) False by (meson less_imp_le le_trans mod_less_divisor not_gr_zero)
  then have rem: "wrap mx (a * n mod d) = a * n mod d" by simp
  have "a * n div d \<le> mx * mx" using \<open>a * n \<le> mx * mx\<close> by (rule le_trans [OF div_le_dividend])
  moreover have "mx * mx + 1 \<le> mx * (mx + 2)" using assms(3) False by simp
  ultimately have "a * n div d + 1 \<le> mx * (mx + 2)" by linarith
  with hi rem False show ?thesis
    by (simp add: multiply_rational_low_def Let_def rounded_div_alt checked_add_def)
qed (simp add: multiply_rational_low_def)

interpretation mr_u8: rational_arg "2 ^ 8 - 1" "multiply_rational_low (2 ^ 8 - 1)"
  by unfold_locales (rule multiply_rational_low_law)

interpretation mr_u16: rational_arg "2 ^ 16 - 1" "multiply_rational_low (2 ^ 16 - 1)"
  by unfold_locales (rule multiply_rational_low_law)

interpretation mr_u32: rational_arg u32_max "multiply_rational_low u32_max"
  by unfold_locales (rule multiply_rational_low_law)

interpretation mr_u64: rational_arg u64_max "multiply_rational_low u64_max"
  by unfold_locales (rule multiply_rational_low_law)

interpretation mr_u128: rational_arg u128_max multiply_rational_u128
proof
  fix a n d r assume le: "a \<le> u128_max" "n \<le> u128_max" "d \<le> u128_max"
  have u: "unat (word_of_nat k :: u128) = k" if "k \<le> u128_max" for k
    using that unfolding unat_of_nat by (simp add: u128_max_def)
  have z: "(word_of_nat d :: u128) = 0 \<longleftrightarrow> d = 0" by (simp only: unat_eq_zero [symmetric] u [OF le(3)])
  have lt: "2 ^ 128 \<le> k \<longleftrightarrow> u128_max < k" for k by (auto simp: u128_max_def)
  show "multiply_rational_u128 a n d r =
    (if d = 0 \<or> u128_max < rounded_div r (a * n) d then None else Some (rounded_div r (a * n) d))"
    (is "_ = (if ?c then None else Some ?v)")
  proof (cases ?c)
    case True
    then show ?thesis
      unfolding multiply_rational_u128_def multiply_by_rational_correct u [OF le(1)] u [OF le(2)] u [OF le(3)] z lt by simp
  next
    case False
    then have "?v \<le> u128_max" by (simp only: not_less de_Morgan_disj)
    then show ?thesis
      unfolding multiply_rational_u128_def multiply_by_rational_correct u [OF le(1)] u [OF le(2)] u [OF le(3)] z lt
        if_not_P [OF False] by (simp only: option.map u)
  qed
qed

section \<open>Parts per thing\<close>

record per_thing =
  pt_accuracy :: nat
  pt_inner_max :: nat
  pt_upper_max :: nat

definition percent :: per_thing where
  "percent = \<lparr>pt_accuracy = 100, pt_inner_max = 2 ^ 8 - 1, pt_upper_max = 2 ^ 16 - 1\<rparr>"

definition per_u16 :: per_thing where
  "per_u16 = \<lparr>pt_accuracy = 65535, pt_inner_max = 2 ^ 16 - 1, pt_upper_max = 2 ^ 32 - 1\<rparr>"

definition permill :: per_thing where
  "permill = \<lparr>pt_accuracy = 1000000, pt_inner_max = u32_max, pt_upper_max = u64_max\<rparr>"

definition perbill :: per_thing where
  "perbill = \<lparr>pt_accuracy = 1000000000, pt_inner_max = u32_max, pt_upper_max = u64_max\<rparr>"

definition perquintill :: per_thing where
  "perquintill = \<lparr>pt_accuracy = 1000000000000000000, pt_inner_max = u64_max, pt_upper_max = u128_max\<rparr>"

text \<open>The accuracy fits the inner type and the square of the inner type fits the upper type.\<close>

definition per_thing_ok :: "per_thing \<Rightarrow> bool" where
  "per_thing_ok P \<longleftrightarrow> 100 \<le> pt_accuracy P \<and> pt_accuracy P \<le> pt_inner_max P \<and>
     pt_inner_max P * pt_inner_max P \<le> pt_upper_max P"

lemma per_things_ok: "per_thing_ok percent" "per_thing_ok per_u16" "per_thing_ok permill" "per_thing_ok perbill"
    "per_thing_ok perquintill"
  by (simp_all add: per_thing_ok_def percent_def per_u16_def permill_def perbill_def perquintill_def
      u32_max_def u64_max_def u128_max_def)

definition from_parts :: "per_thing \<Rightarrow> nat \<Rightarrow> nat" where
  "from_parts P parts = min parts (pt_accuracy P)"

definition pt_one :: "per_thing \<Rightarrow> nat" where
  "pt_one P = from_parts P (pt_accuracy P)"

definition pt_is_one :: "per_thing \<Rightarrow> nat \<Rightarrow> bool" where
  "pt_is_one P self \<longleftrightarrow> self = pt_accuracy P"

definition from_percent :: "per_thing \<Rightarrow> nat \<Rightarrow> nat" where
  "from_percent P x =
     wrap (pt_inner_max P) (wrap (pt_upper_max P) ((if x > 100 then 100 else x) * pt_accuracy P) div 100)"

definition from_rational_with_rounding ::
  "per_thing \<Rightarrow> (nat \<Rightarrow> nat \<Rightarrow> nat \<Rightarrow> rounding \<Rightarrow> nat option) \<Rightarrow> nat \<Rightarrow> nat \<Rightarrow> rounding \<Rightarrow> nat option" where
  "from_rational_with_rounding P mr p q r =
     (if q = 0 then None
      else if p > q then None
      else case mr (pt_accuracy P) p q r of
             None \<Rightarrow> None
           | Some x \<Rightarrow> if x \<le> pt_inner_max P then Some x else None)"

definition from_rational ::
  "per_thing \<Rightarrow> (nat \<Rightarrow> nat \<Rightarrow> nat \<Rightarrow> rounding \<Rightarrow> nat option) \<Rightarrow> nat \<Rightarrow> nat \<Rightarrow> nat" where
  "from_rational P mr p q =
     (case from_rational_with_rounding P mr p q R_Down of None \<Rightarrow> pt_one P | Some x \<Rightarrow> x)"

definition rational_mul_correction ::
  "per_thing \<Rightarrow> nat \<Rightarrow> nat \<Rightarrow> nat \<Rightarrow> rounding \<Rightarrow> nat" where
  "rational_mul_correction P x numer denom r =
     (let rem = x mod denom;
          rem_inner = min rem (pt_inner_max P);
          rem_mul_upper = wrap (pt_upper_max P) (rem_inner * numer);
          rem_mul_div_inner = min (rem_mul_upper div denom) (pt_inner_max P)
      in if round_up_here r (rem_mul_upper mod denom) denom
         then wrap (pt_inner_max P) (rem_mul_div_inner + 1)
         else rem_mul_div_inner)"

definition overflow_prune_mul :: "per_thing \<Rightarrow> nat \<Rightarrow> nat \<Rightarrow> nat \<Rightarrow> rounding \<Rightarrow> nat" where
  "overflow_prune_mul P nmax x part r =
     (let c = rational_mul_correction P x part (pt_accuracy P) r
      in wrap nmax (wrap nmax (x div pt_accuracy P * part) + c))"

text \<open>Dividing by a part of zero panics.\<close>

definition saturating_reciprocal_mul :: "per_thing \<Rightarrow> nat \<Rightarrow> nat \<Rightarrow> nat \<Rightarrow> rounding \<Rightarrow> nat option" where
  "saturating_reciprocal_mul P nmax x part r =
     (if part = 0 then None
      else let c = rational_mul_correction P x (pt_accuracy P) part r
           in Some (sat_add nmax (min nmax (x div part * pt_accuracy P)) c))"

definition mul_floor :: "per_thing \<Rightarrow> nat \<Rightarrow> nat \<Rightarrow> nat \<Rightarrow> nat" where
  "mul_floor P nmax self b = overflow_prune_mul P nmax b self R_Down"

definition mul_ceil :: "per_thing \<Rightarrow> nat \<Rightarrow> nat \<Rightarrow> nat \<Rightarrow> nat" where
  "mul_ceil P nmax self b = overflow_prune_mul P nmax b self R_Up"

definition pt_mul_n :: "per_thing \<Rightarrow> nat \<Rightarrow> nat \<Rightarrow> nat \<Rightarrow> nat" where
  "pt_mul_n P nmax self b = overflow_prune_mul P nmax b self R_NearestPrefDown"

definition less_epsilon :: "per_thing \<Rightarrow> nat \<Rightarrow> nat" where
  "less_epsilon P self = (if self = 0 then self else from_parts P (self - 1))"

definition plus_epsilon :: "per_thing \<Rightarrow> nat \<Rightarrow> nat" where
  "plus_epsilon P self = (if pt_is_one P self then self else from_parts P (self + 1))"

definition pt_add :: "per_thing \<Rightarrow> nat \<Rightarrow> nat \<Rightarrow> nat" where
  "pt_add P self rhs = from_parts P (wrap (pt_inner_max P) (self + rhs))"

definition pt_checked_add :: "per_thing \<Rightarrow> nat \<Rightarrow> nat \<Rightarrow> nat option" where
  "pt_checked_add P self rhs =
     (case checked_add (pt_inner_max P) self rhs of
        None \<Rightarrow> None
      | Some inner \<Rightarrow> if inner > pt_accuracy P then None else Some (from_parts P inner))"

definition pt_saturating_add :: "per_thing \<Rightarrow> nat \<Rightarrow> nat \<Rightarrow> nat" where
  "pt_saturating_add P self rhs = from_parts P (sat_add (pt_inner_max P) self rhs)"

definition pt_saturating_sub :: "per_thing \<Rightarrow> nat \<Rightarrow> nat \<Rightarrow> nat" where
  "pt_saturating_sub P self rhs = from_parts P (self - rhs)"

definition left_from_one :: "per_thing \<Rightarrow> nat \<Rightarrow> nat" where
  "left_from_one P self = pt_saturating_sub P (pt_one P) self"

definition pt_mul :: "per_thing \<Rightarrow> nat \<Rightarrow> nat \<Rightarrow> nat" where
  "pt_mul P self rhs =
     from_parts P (wrap (pt_inner_max P) (wrap (pt_upper_max P) (self * rhs) div pt_accuracy P))"

text \<open>\<open>square\<close> computes with rationals of the upper type.\<close>

definition pt_square :: "per_thing \<Rightarrow> (nat \<Rightarrow> nat \<Rightarrow> nat \<Rightarrow> rounding \<Rightarrow> nat option) \<Rightarrow> nat \<Rightarrow> nat" where
  "pt_square P mr_upper self =
     from_rational P mr_upper (wrap (pt_upper_max P) (self * self))
       (wrap (pt_upper_max P) (pt_accuracy P * pt_accuracy P))"

function pt_pow_loop ::
  "per_thing \<Rightarrow> (nat \<Rightarrow> nat \<Rightarrow> nat \<Rightarrow> rounding \<Rightarrow> nat option) \<Rightarrow> nat \<Rightarrow> nat \<Rightarrow> nat \<Rightarrow> nat" where
  "pt_pow_loop P mr_upper self result exp =
     (if exp > 0 \<and> result \<noteq> 0
      then let (result', exp') = (if exp mod 2 \<noteq> 0 then (pt_mul P result self, exp - 1) else (result, exp))
           in pt_pow_loop P mr_upper (pt_square P mr_upper self) result' (exp' div 2)
      else result)"
  by pat_completeness auto
termination
  by (relation "measure (\<lambda>(P, mr_upper, self, result, exp). exp)") (auto split: if_splits)

declare pt_pow_loop.simps [simp del]

definition pt_pow :: "per_thing \<Rightarrow> (nat \<Rightarrow> nat \<Rightarrow> nat \<Rightarrow> rounding \<Rightarrow> nat option) \<Rightarrow> nat \<Rightarrow> nat \<Rightarrow> nat" where
  "pt_pow P mr_upper self exp =
     (if exp = 0 \<or> pt_is_one P self then pt_one P
      else pt_pow_loop P mr_upper self self (exp - 1))"

section \<open>Correctness\<close>

lemma rounded_div_split: "0 < m \<Longrightarrow> rounded_div r (h * m + l) m = h + rounded_div r l m"
  by (simp add: rounded_div_alt)

lemma rounded_div_le:
  assumes "n \<le> d * k" and "0 < d"
  shows "rounded_div r n d \<le> k"
proof (cases "n mod d = 0")
  case True
  then have "rounded_div r n d = n div d" using assms(2) by (cases r) (simp_all add: rounded_div_def)
  also have "\<dots> \<le> k" using div_le_mono [OF assms(1), of d] assms(2) by simp
  finally show ?thesis .
next
  case False
  then have "n \<noteq> d * k" by auto
  with assms have "n div d < k" by (simp add: less_mult_imp_div_less mult.commute)
  then show ?thesis by (simp add: rounded_div_alt)
qed

lemma correction_exact:
  assumes P: "per_thing_ok P" and "0 < denom" and "denom \<le> pt_accuracy P" and "numer \<le> pt_accuracy P"
  shows "rational_mul_correction P x numer denom r = rounded_div r (x mod denom * numer) denom"
    and "rounded_div r (x mod denom * numer) denom \<le> numer"
proof -
  let ?m = "x mod denom"
  have m: "?m < denom" using assms(2) by simp
  have inner: "?m \<le> pt_inner_max P" "numer \<le> pt_inner_max P" using m assms unfolding per_thing_ok_def by linarith+
  then have "?m * numer \<le> pt_inner_max P * pt_inner_max P" by (intro mult_mono) auto
  then have up: "?m * numer \<le> pt_upper_max P" using P by (auto simp: per_thing_ok_def)
  show le: "rounded_div r (?m * numer) denom \<le> numer" using m assms(2) by (intro rounded_div_le mult_mono) auto
  have "?m * numer div denom \<le> pt_inner_max P"
    using le inner(2) by (auto simp: rounded_div_alt split: if_splits)
  with le inner up show "rational_mul_correction P x numer denom r = rounded_div r (?m * numer) denom"
    by (simp add: rational_mul_correction_def Let_def rounded_div_alt split: if_splits)
qed

lemma overflow_prune_mul_correct:
  assumes P: "per_thing_ok P" and "part \<le> pt_accuracy P" and "x \<le> nmax"
  shows "overflow_prune_mul P nmax x part r = rounded_div r (x * part) (pt_accuracy P)"
    and "overflow_prune_mul P nmax x part r \<le> x"
proof -
  let ?m = "pt_accuracy P"
  have m: "0 < ?m" using P by (auto simp: per_thing_ok_def)
  note C = correction_exact [OF P m order_refl assms(2)]
  have "x * part = x div ?m * part * ?m + x mod ?m * part"
    by (metis div_mult_mod_eq distrib_right mult.assoc mult.commute)
  then have eq: "rounded_div r (x * part) ?m = x div ?m * part + rounded_div r (x mod ?m * part) ?m"
    using rounded_div_split [OF m] by simp
  have le: "rounded_div r (x * part) ?m \<le> x" using assms(2) m by (intro rounded_div_le) (simp_all add: mult.commute)
  then show "overflow_prune_mul P nmax x part r = rounded_div r (x * part) ?m"
    using eq assms(3) by (simp add: overflow_prune_mul_def Let_def C)
  with le show "overflow_prune_mul P nmax x part r \<le> x" by simp
qed

lemma saturating_reciprocal_mul_correct:
  assumes P: "per_thing_ok P" and "part \<le> pt_accuracy P" and "0 < part"
  shows "saturating_reciprocal_mul P nmax x part r = Some (min nmax (rounded_div r (x * pt_accuracy P) part))"
proof -
  let ?m = "pt_accuracy P"
  note C = correction_exact [OF P assms(3,2) order_refl]
  have "x * ?m = x div part * ?m * part + x mod part * ?m"
    by (metis div_mult_mod_eq distrib_right mult.assoc mult.commute)
  then have eq: "rounded_div r (x * ?m) part = x div part * ?m + rounded_div r (x mod part * ?m) part"
    using rounded_div_split [OF assms(3)] by simp
  show ?thesis using assms(3) by (simp add: saturating_reciprocal_mul_def Let_def C eq sat_add_def min_def)
qed

lemma from_percent_exact:
  assumes "per_thing_ok P"
  shows "from_percent P x = min x 100 * pt_accuracy P div 100"
proof -
  let ?x = "min x 100" and ?m = "pt_accuracy P"
  have "100 \<le> pt_inner_max P" "?m \<le> pt_inner_max P" using assms by (auto simp: per_thing_ok_def)
  then have "?x * ?m \<le> pt_inner_max P * pt_inner_max P" by (intro mult_mono) auto
  then have up: "?x * ?m \<le> pt_upper_max P" using assms by (auto simp: per_thing_ok_def)
  have "?x * ?m div 100 \<le> 100 * ?m div 100" by (intro div_le_mono mult_mono) auto
  also have "\<dots> \<le> pt_inner_max P" using assms by (simp add: per_thing_ok_def)
  finally show ?thesis using up by (simp add: from_percent_def min_def split: if_splits)
qed

context rational_arg
begin

lemma from_rational_correct:
  assumes P: "per_thing_ok P" "pt_accuracy P \<le> mx" and "p \<le> q" and "q \<le> mx" and "0 < q"
  shows "from_rational_with_rounding P mr p q r = Some (rounded_div r (pt_accuracy P * p) q)"
    and "rounded_div r (pt_accuracy P * p) q \<le> pt_accuracy P"
proof -
  show le: "rounded_div r (pt_accuracy P * p) q \<le> pt_accuracy P"
    using assms(3,5) by (intro rounded_div_le) (simp_all add: mult.commute)
  then show "from_rational_with_rounding P mr p q r = Some (rounded_div r (pt_accuracy P * p) q)"
    using assms mr_law [of "pt_accuracy P" p q r] by (auto simp: from_rational_with_rounding_def per_thing_ok_def)
qed

end

lemma pt_mul_exact:
  assumes P: "per_thing_ok P" and "a \<le> pt_accuracy P" and "b \<le> pt_accuracy P"
  shows "pt_mul P a b = a * b div pt_accuracy P" and "pt_mul P a b \<le> a"
proof -
  let ?m = "pt_accuracy P"
  have "a * b \<le> pt_inner_max P * pt_inner_max P" using assms by (intro mult_mono) (auto simp: per_thing_ok_def)
  then have up: "a * b \<le> pt_upper_max P" using P by (auto simp: per_thing_ok_def)
  have le: "a * b div ?m \<le> a"
    using assms by (metis div_le_mono div_mult_self_is_m mult_le_mono2 per_thing_ok_def not_gr_zero not_numeral_le_zero)
  then have "a * b div ?m \<le> pt_inner_max P" "a * b div ?m \<le> ?m" using assms by (auto simp: per_thing_ok_def)
  with up show "pt_mul P a b = a * b div ?m" by (simp add: pt_mul_def from_parts_def)
  with le show "pt_mul P a b \<le> a" by simp
qed

context rational_arg
begin

lemma pt_square_exact:
  assumes P: "per_thing_ok P" and mx: "pt_upper_max P = mx" and a: "a \<le> pt_accuracy P"
  shows "pt_square P mr a = a * a div pt_accuracy P"
proof -
  let ?m = "pt_accuracy P"
  have m: "0 < ?m" using P by (auto simp: per_thing_ok_def)
  have aa: "a * a \<le> ?m * ?m" using a by (intro mult_mono) auto
  have "?m * ?m \<le> pt_inner_max P * pt_inner_max P" using P by (intro mult_mono) (auto simp: per_thing_ok_def)
  then have mm: "?m * ?m \<le> mx" using P mx by (auto simp: per_thing_ok_def)
  have "?m \<le> ?m * ?m" by simp
  then have "?m \<le> mx" using mm by linarith
  from from_rational_correct(1) [OF P this aa mm, of R_Down] m
  have "from_rational P mr (a * a) (?m * ?m) = ?m * (a * a) div (?m * ?m)"
    by (simp add: from_rational_def rounded_div_def)
  also have "\<dots> = a * a div ?m" using m by (simp add: div_mult2_eq)
  finally show ?thesis using aa mm by (simp add: pt_square_def mx)
qed

lemma pt_pow_loop_le:
  assumes P: "per_thing_ok P" and mx: "pt_upper_max P = mx"
  shows "a \<le> pt_accuracy P \<Longrightarrow> result \<le> pt_accuracy P \<Longrightarrow> pt_pow_loop P mr a result exp \<le> result"
proof (induction exp arbitrary: a result rule: less_induct)
  case (less exp)
  show ?case
  proof (cases "exp > 0 \<and> result \<noteq> 0")
    case True
    define result' exp' where "result' = (if exp mod 2 \<noteq> 0 then pt_mul P result a else result)"
      and "exp' = (if exp mod 2 \<noteq> 0 then exp - 1 else exp)"
    have step: "pt_pow_loop P mr a result exp = pt_pow_loop P mr (pt_square P mr a) result' (exp' div 2)"
      using True by (simp add: pt_pow_loop.simps [of P mr a result exp] result'_def exp'_def)
    have "pt_square P mr a = pt_mul P a a" using pt_square_exact [OF P mx less.prems(1)] pt_mul_exact(1) [OF P] less.prems by simp
    then have "pt_square P mr a \<le> a" using pt_mul_exact(2) [OF P less.prems(1) less.prems(1)] by simp
    moreover have r: "result' \<le> result" using pt_mul_exact(2) [OF P less.prems(2,1)] by (simp add: result'_def)
    moreover have "exp' div 2 < exp" using True by (auto simp: exp'_def)
    ultimately have "pt_pow_loop P mr (pt_square P mr a) result' (exp' div 2) \<le> result'"
      using less.prems by (intro less.IH) auto
    with r step show ?thesis by simp
  qed (subst pt_pow_loop.simps, auto)
qed

lemma pt_pow_le:
  assumes "per_thing_ok P" and "pt_upper_max P = mx" and "a \<le> pt_accuracy P"
  shows "pt_pow P mr a exp \<le> (if exp = 0 then pt_accuracy P else a)"
  using pt_pow_loop_le [OF assms(1-3,3)] assms(3)
  by (auto simp: pt_pow_def pt_one_def from_parts_def pt_is_one_def)

end

end
