(* ===== verification/Balances_Calls.thy ===== *)
theory Balances_Calls
  imports Balances_Reserves Per_Things
begin

text \<open>
  The dispatchables, the genesis configuration and the state checks of the balances pallet
  (\<^verbatim>\<open>substrate/frame/balances/src/lib.rs\<close>).

  \<^item> A dispatchable runs in a storage layer of its own (\<open>transactional\<close>): an error leaves the storage as it
    was.  The account lookup \<open>T::Lookup\<close> of the runtime is a parameter.
  \<^item> A panic of the genesis builder is \<open>None\<close>.  The derivation of a development account from its seed
    phrase (\<open>sr25519\<close>) is a parameter.
\<close>

section \<open>Dispatchables\<close>

definition transfer_allow_death ::
  "bal_config \<Rightarrow> ('l \<Rightarrow> account_id option) \<Rightarrow> raw_origin \<Rightarrow> 'l \<Rightarrow> balance \<Rightarrow> unit bal_em" where
  "transfer_allow_death c lk origin dest0 value =
     ebind (ensure_signed origin) (\<lambda>source.
     ebind (elookup lk dest0) (\<lambda>dest.
     ebind (transfer (balances_ops c) source dest value Expendable) (\<lambda>_. eret ())))"

definition force_transfer ::
  "bal_config \<Rightarrow> ('l \<Rightarrow> account_id option) \<Rightarrow> raw_origin \<Rightarrow> 'l \<Rightarrow> 'l \<Rightarrow> balance \<Rightarrow> unit bal_em" where
  "force_transfer c lk origin source0 dest0 value =
     ebind (ensure_root origin) (\<lambda>_.
     ebind (elookup lk source0) (\<lambda>source.
     ebind (elookup lk dest0) (\<lambda>dest.
     ebind (transfer (balances_ops c) source dest value Expendable) (\<lambda>_. eret ()))))"

definition transfer_keep_alive ::
  "bal_config \<Rightarrow> ('l \<Rightarrow> account_id option) \<Rightarrow> raw_origin \<Rightarrow> 'l \<Rightarrow> balance \<Rightarrow> unit bal_em" where
  "transfer_keep_alive c lk origin dest0 value =
     ebind (ensure_signed origin) (\<lambda>source.
     ebind (elookup lk dest0) (\<lambda>dest.
     ebind (transfer (balances_ops c) source dest value Preserve) (\<lambda>_. eret ())))"

definition transfer_all ::
  "bal_config \<Rightarrow> ('l \<Rightarrow> account_id option) \<Rightarrow> raw_origin \<Rightarrow> 'l \<Rightarrow> bool \<Rightarrow> unit bal_em" where
  "transfer_all c lk origin dest0 keep_alive =
     ebind (ensure_signed origin) (\<lambda>transactor.
     let keep_alive = (if keep_alive then Preserve else Expendable) in
     ebind (eget (reducible_balance c transactor keep_alive Polite)) (\<lambda>reducible.
     ebind (elookup lk dest0) (\<lambda>dest.
     ebind (transfer (balances_ops c) transactor dest reducible keep_alive) (\<lambda>_. eret ()))))"

definition force_unreserve ::
  "bal_config \<Rightarrow> ('l \<Rightarrow> account_id option) \<Rightarrow> raw_origin \<Rightarrow> 'l \<Rightarrow> balance \<Rightarrow> unit bal_em" where
  "force_unreserve c lk origin who0 amount =
     ebind (ensure_root origin) (\<lambda>_.
     ebind (elookup lk who0) (\<lambda>who.
     ebind (elift (unreserve c who amount)) (\<lambda>_. eret ())))"

datatype pays = Pays_Yes | Pays_No

fun upgrade_loop :: "bal_config \<Rightarrow> account_id list \<Rightarrow> nat \<Rightarrow> bal_state \<Rightarrow> nat \<times> bal_state" where
  "upgrade_loop c [] upgrade_count s = (upgrade_count, s)"
| "upgrade_loop c (i # is) upgrade_count s =
     (let (upgraded, s1) = ensure_upgraded c i s
      in upgrade_loop c is (if upgraded then sat_add u32_max upgrade_count 1 else upgrade_count) s1)"

definition upgrade_accounts :: "bal_config \<Rightarrow> raw_origin \<Rightarrow> account_id list \<Rightarrow> pays bal_em" where
  "upgrade_accounts c origin who =
     ebind (ensure_signed origin) (\<lambda>_.
     if who = [] then eret Pays_Yes
     else
       ebind (elift (upgrade_loop c who 0)) (\<lambda>upgrade_count.
       let proportion_upgraded =
             from_rational perbill (multiply_rational_low u32_max) upgrade_count (wrap u32_max (length who))
       in if proportion_upgraded \<ge> from_percent perbill 90 then eret Pays_No else eret Pays_Yes))"

definition force_set_balance ::
  "bal_config \<Rightarrow> ('l \<Rightarrow> account_id option) \<Rightarrow> raw_origin \<Rightarrow> 'l \<Rightarrow> balance \<Rightarrow> unit bal_em" where
  "force_set_balance c lk origin who0 new_free0 =
     ebind (ensure_root origin) (\<lambda>_.
     ebind (elookup lk who0) (\<lambda>who.
     let wipeout = (new_free0 < ed c);
         new_free = (if wipeout then 0 else new_free0) in
     ebind (mutate_account_handling_dust c who False (\<lambda>_ s. s) (\<lambda>a. (a\<lparr>free := new_free\<rparr>, free a))) (\<lambda>old_free.
     ebind (emod (\<lambda>s.
       if new_free > old_free then drop_positive (PositiveImbalance (new_free - old_free)) s
       else if new_free < old_free then drop_negative (NegativeImbalance (old_free - new_free)) s
       else s)) (\<lambda>_.
     emod (deposit_event (BalanceSet who new_free))))))"

definition force_adjust_total_issuance ::
  "raw_origin \<Rightarrow> adjustment_direction \<Rightarrow> balance \<Rightarrow> unit bal_em" where
  "force_adjust_total_issuance origin direction delta =
     ebind (ensure_root origin) (\<lambda>_.
     ebind (eensure (delta > 0) (DE_Module BE_DeltaZero)) (\<lambda>_.
     ebind (eget total_issuance) (\<lambda>old.
     let new = (case direction of Increase \<Rightarrow> sat_add u128_max old delta | Decrease \<Rightarrow> old - delta) in
     ebind (eget inactive_issuance) (\<lambda>inactive.
     ebind (eensure (inactive \<le> new) (DE_Module BE_IssuanceDeactivated)) (\<lambda>_.
     ebind (emod (\<lambda>s. s\<lparr>total_issuance := new\<rparr>)) (\<lambda>_.
     emod (deposit_event (TotalIssuanceForced old new))))))))"

definition burn :: "bal_config \<Rightarrow> raw_origin \<Rightarrow> balance \<Rightarrow> bool \<Rightarrow> unit bal_em" where
  "burn c origin value keep_alive =
     ebind (ensure_signed origin) (\<lambda>source.
     let preservation = (if keep_alive then Preserve else Expendable) in
     ebind (burn_from (balances_ops c) source value preservation Exact Polite) (\<lambda>_. eret ()))"

datatype 'l call =
    TransferAllowDeath 'l balance
  | ForceTransfer 'l 'l balance
  | TransferKeepAlive 'l balance
  | TransferAll 'l bool
  | ForceUnreserve 'l balance
  | UpgradeAccounts "account_id list"
  | ForceSetBalance 'l balance
  | ForceAdjustTotalIssuance adjustment_direction balance
  | Burn balance bool

fun dispatch ::
  "bal_config \<Rightarrow> ('l \<Rightarrow> account_id option) \<Rightarrow> raw_origin \<Rightarrow> 'l call \<Rightarrow> unit bal_em" where
  "dispatch c lk o1 (TransferAllowDeath dest value) = transactional (transfer_allow_death c lk o1 dest value)"
| "dispatch c lk o1 (ForceTransfer source dest value) = transactional (force_transfer c lk o1 source dest value)"
| "dispatch c lk o1 (TransferKeepAlive dest value) = transactional (transfer_keep_alive c lk o1 dest value)"
| "dispatch c lk o1 (TransferAll dest keep_alive) = transactional (transfer_all c lk o1 dest keep_alive)"
| "dispatch c lk o1 (ForceUnreserve who amount) = transactional (force_unreserve c lk o1 who amount)"
| "dispatch c lk o1 (UpgradeAccounts who) =
     transactional (ebind (upgrade_accounts c o1 who) (\<lambda>_. eret ()))"
| "dispatch c lk o1 (ForceSetBalance who new_free) = transactional (force_set_balance c lk o1 who new_free)"
| "dispatch c lk o1 (ForceAdjustTotalIssuance direction delta) =
     transactional (force_adjust_total_issuance o1 direction delta)"
| "dispatch c lk o1 (Burn value keep_alive) = transactional (burn c o1 value keep_alive)"

section \<open>Accessors\<close>

definition free_balance :: "account_id \<Rightarrow> bal_state \<Rightarrow> balance" where
  "free_balance who s = free (account who s)"

definition usable_balance :: "bal_config \<Rightarrow> account_id \<Rightarrow> bal_state \<Rightarrow> balance" where
  "usable_balance c who s = reducible_balance c who Expendable Polite s"

definition usable_balance_for_fees :: "bal_config \<Rightarrow> account_id \<Rightarrow> bal_state \<Rightarrow> balance" where
  "usable_balance_for_fees c who s = reducible_balance c who Protect Polite s"

definition reserved_balance :: "account_id \<Rightarrow> bal_state \<Rightarrow> balance" where
  "reserved_balance who s = reserved (account who s)"

section \<open>Genesis\<close>

text \<open>Decimal digits of an index, and the replacement of the placeholder \<open>{}\<close> of a derivation string.\<close>

fun decimal :: "nat \<Rightarrow> string" where
  "decimal n = (if n < 10 then [char_of (48 + n)] else decimal (n div 10) @ [char_of (48 + n mod 10)])"

declare decimal.simps [simp del]

fun replace_placeholder :: "string \<Rightarrow> string \<Rightarrow> string" where
  "replace_placeholder r (x # y # cs) =
     (if x = CHR ''{'' \<and> y = CHR ''}'' then r @ replace_placeholder r cs else x # replace_placeholder r (y # cs))"
| "replace_placeholder r [x] = [x]"
| "replace_placeholder r [] = []"

fun has_placeholder :: "string \<Rightarrow> bool" where
  "has_placeholder (x # y # cs) = (x = CHR ''{'' \<and> y = CHR ''}'' \<or> has_placeholder (y # cs))"
| "has_placeholder _ = False"

fun dev_loop ::
  "bal_config \<Rightarrow> (string \<Rightarrow> account_id option) \<Rightarrow> balance \<Rightarrow> string \<Rightarrow> nat list \<Rightarrow> bal_state \<Rightarrow> bal_state option" where
  "dev_loop c key balance derivation [] s = Some s"
| "dev_loop c key balance derivation (index # is) s =
     (case key (replace_placeholder (decimal index) derivation) of
        None \<Rightarrow> None
      | Some who \<Rightarrow>
          (case mutate_account_handling_dust c who False (\<lambda>_ s. s) (\<lambda>a. (a\<lparr>free := balance\<rparr>, ())) s of
             (Inl _, _) \<Rightarrow> None
           | (Inr _, s1) \<Rightarrow> dev_loop c key balance derivation is s1))"

definition derive_dev_account ::
  "bal_config \<Rightarrow> (string \<Rightarrow> account_id option) \<Rightarrow> nat \<Rightarrow> balance \<Rightarrow> string \<Rightarrow> bal_state \<Rightarrow> bal_state option" where
  "derive_dev_account c key num_accounts balance derivation s =
     (if \<not> num_accounts > 0 then None
      else if \<not> balance \<ge> ed c then None
      else if \<not> has_placeholder derivation then None
      else dev_loop c key balance derivation [0..<num_accounts] s)"

definition DEFAULT_ADDRESS_URI :: string where
  "DEFAULT_ADDRESS_URI = ''//Sender//{}''"

record genesis_config =
  gc_balances :: "(account_id \<times> balance) list"
  gc_dev_accounts :: "(nat \<times> balance \<times> string option) option"

fun genesis_insert :: "(account_id \<times> balance) list \<Rightarrow> bal_state \<Rightarrow> bal_state option" where
  "genesis_insert [] s = Some s"
| "genesis_insert ((who, fr) # bs) s =
     (let s1 = snd (inc_providers who s) in
      case stored_try_mutate_exists who (\<lambda>_. eret (Some (account_data_default\<lparr>free := fr\<rparr>), ())) s1 of
        (Inl (_ :: dispatch_error), _) \<Rightarrow> None
      | (Inr _, s2) \<Rightarrow> genesis_insert bs s2)"

definition genesis_build ::
  "bal_config \<Rightarrow> (string \<Rightarrow> account_id option) \<Rightarrow> genesis_config \<Rightarrow> bal_state \<Rightarrow> bal_state option" where
  "genesis_build c key g s =
     (let total = fold (\<lambda>(_, n) acc. (acc + n) mod (u128_max + 1)) (gc_balances g) 0;
          s1 = s\<lparr>total_issuance := total\<rparr> in
      if \<not> (\<forall>(_, balance) \<in> set (gc_balances g). balance \<ge> ed c) then None
      else if \<not> card (set (map fst (gc_balances g))) = length (gc_balances g) then None
      else
        case (case gc_dev_accounts g of
                None \<Rightarrow> Some s1
              | Some (num_accounts, balance, derivation) \<Rightarrow>
                  derive_dev_account c key num_accounts balance
                    (case derivation of None \<Rightarrow> DEFAULT_ADDRESS_URI | Some d \<Rightarrow> d) s1) of
          None \<Rightarrow> None
        | Some s2 \<Rightarrow> genesis_insert (gc_balances g) s2)"

definition integrity_test :: "bal_config \<Rightarrow> nat \<Rightarrow> bool" where
  "integrity_test c freeze_variants \<longleftrightarrow> ed c \<noteq> 0 \<and> max_freezes c \<ge> freeze_variants"

section \<open>State checks\<close>

text \<open>
  \<open>try_state\<close> iterates over the keys that storage holds; the lists of the keys are parameters here.
\<close>

definition hold_and_freeze_count :: "bal_config \<Rightarrow> account_id list \<Rightarrow> account_id list \<Rightarrow> bal_state \<Rightarrow> string + unit" where
  "hold_and_freeze_count c hold_keys freeze_keys s =
     (if \<exists>k \<in> set hold_keys. length (holds s k) > hold_variants c
      then Inl ''Found `Hold` with too many elements''
      else if \<exists>k \<in> set freeze_keys. length (freezes s k) > max_freezes c
      then Inl ''Found `Freeze` with too many elements''
      else Inr ())"

definition account_frozen_greater_than_locks :: "account_id list \<Rightarrow> bal_state \<Rightarrow> string + unit" where
  "account_frozen_greater_than_locks lock_keys s =
     (if \<exists>who \<in> set lock_keys. fold max (map lock_amount (locks s who)) 0 > frozen (account who s)
      then Inl ''bad locks'' else Inr ())"

definition account_frozen_greater_than_freezes :: "account_id list \<Rightarrow> bal_state \<Rightarrow> string + unit" where
  "account_frozen_greater_than_freezes freeze_keys s =
     (if \<exists>who \<in> set freeze_keys. fold max (map ia_amount (freezes s who)) 0 > frozen (account who s)
      then Inl ''bad freezes'' else Inr ())"

definition do_try_state ::
  "bal_config \<Rightarrow> account_id list \<Rightarrow> account_id list \<Rightarrow> account_id list \<Rightarrow> bal_state \<Rightarrow> string + unit" where
  "do_try_state c hold_keys freeze_keys lock_keys s =
     (case hold_and_freeze_count c hold_keys freeze_keys s of
        Inl e \<Rightarrow> Inl e
      | Inr _ \<Rightarrow>
          (case account_frozen_greater_than_locks lock_keys s of
             Inl e \<Rightarrow> Inl e
           | Inr _ \<Rightarrow> account_frozen_greater_than_freezes freeze_keys s))"

section \<open>Every dispatchable keeps the state sound\<close>

lemma transfer_sound:
  assumes "sound c s" and "transfer (balances_ops c) src dest a v s = (Inr r, s')"
  shows "sound c s'" and "issuance_gap s' = issuance_gap s"
  using bf.transfer_ok [OF _ _ assms(2)] assms(1) by (auto simp: sound_iff)

lemma burn_sound:
  assumes "sound c s" and "burn_from (balances_ops c) who a v p f s = (Inr r, s')"
  shows "sound c s'" and "issuance_gap s' = issuance_gap s"
  using bf.burn_from_ok [OF _ _ assms(2)] assms(1) by (auto simp: sound_iff)

lemma upgrade_loop_new: "bal_inv c s \<Longrightarrow> upgrade_loop c is n s = (n, s)"
  by (induction "is" arbitrary: n) (simp_all add: ensure_upgraded_new bal_inv_def)

lemma drop_positive_frame [simp]:
  "bal_inv c t \<Longrightarrow> bal_inv c (drop_positive p t)" "account x (drop_positive p t) = account x t"
  "circulating (drop_positive p t) = circulating t" "same_lists s (drop_positive p t) = same_lists s t"
  by (auto simp: drop_positive_def bal_inv_def)

lemma drop_positive_issuance:
  "total_issuance t + pos_peek p \<le> u128_max \<Longrightarrow> total_issuance (drop_positive p t) = total_issuance t + pos_peek p"
  by (simp add: drop_positive_def)

text \<open>
  Root may set a balance: the account ends with the balance, or with nothing where it is below the
  existential deposit, and the issuance moves by the same amount.
\<close>

lemma force_set_balance_ok:
  assumes sd: "sound c s" and lk: "lk l = Some who" and max: "total_issuance s + (n - free (account who s)) \<le> u128_max"
    and run: "force_set_balance c lk o1 l n s = (Inr u, s')"
  defines "v \<equiv> if n < ed c then 0 else n"
  shows "sound c s'" and "issuance_gap s' = issuance_gap s" and "free (account who s') = v"
    and "reserved (account who s') = reserved (account who s)" and "x \<noteq> who \<Longrightarrow> account x s' = account x s" and "o1 = Root"
    and "int (total_issuance s') = int (total_issuance s) + int v - int (free (account who s))" and "same_lists s s'"
proof -
  have inv: "bal_inv c s" using sd by (simp add: sound_def)
  let ?f = "\<lambda>a (_ :: bool). eret (a\<lparr>free := v\<rparr>, free a) :: (account_data \<times> balance) bal_em"
  let ?a = "(account who s)\<lparr>free := v\<rparr>"
  define old where "old = free (account who s)"
  have "tokens (account who s) \<le> total_issuance s"
    using circulating_ge [OF accounts_inv_refs, of c s who] sd by (simp add: sound_def bal_inv_def)
  then have vle: "v \<le> u128_max" using max unfolding v_def tokens_def by (simp split: if_split) arith
  have f: "?f (account who s) (account who s = account_data_default) s = (Inr (?a, old), s)" by (simp add: eret_def old_def)
  have nd: "dust_of c ?a = None" by (auto simp: dust_of_def v_def)
  from run lk obtain old' t where o1: "o1 = Root" and
    m: "try_mutate_account_handling_dust c who False (\<lambda>_ s. s) ?f s = (Inr old', t)"
    and s': "s' = deposit_event (BalanceSet who v)
        (if v > old' then drop_positive (PositiveImbalance (v - old')) t
         else if v < old' then drop_negative (NegativeImbalance (old' - v)) t else t)"
    by (auto simp: force_set_balance_def mutate_handling_dust v_def Let_def)
  show "o1 = Root" by (rule o1)
  have "data_ok ?a" using account_data_ok [OF inv, of who] vle by (simp add: data_ok_def)
  note H = handling_dust_ok [where f = ?f, OF inv f _ this _ m, simplified nd]
  have t: "old' = old" "bal_inv c t" "total_issuance t = total_issuance s"
    "issuance_gap t = issuance_gap s + int old - int v"
    "account who t = settled c ?a" "\<And>x. x \<noteq> who \<Longrightarrow> account x t = account x s" "same_lists s t"
    using H by (simp_all add: old_def tokens_def)
  have stl: "free (settled c ?a) = v" "reserved (settled c ?a) = reserved (account who s)"
    by (auto simp: settled_def v_def split: if_splits)
  have ti: "v > old \<longrightarrow> total_issuance t + (v - old) \<le> u128_max" "old \<le> total_issuance s"
    using max \<open>tokens (account who s) \<le> total_issuance s\<close> by (auto simp: t v_def old_def tokens_def)
  have fin: "bal_inv c s' \<and> circulating s' = circulating t \<and> (\<forall>x. account x s' = account x t) \<and>
      int (total_issuance s') = int (total_issuance t) + int v - int old"
  proof (cases "v > old")
    case True
    then show ?thesis using s' ti(1) t(1,2) drop_positive_issuance [of t "PositiveImbalance (v - old)"] by simp
  next
    case False
    then show ?thesis using s' ti(2) t(1-3) by (cases "v < old") auto
  qed
  then show gap: "issuance_gap s' = issuance_gap s" using t(4) by (simp add: issuance_gap_def)
  show "same_lists s s'" using s' t(7) by (auto simp: same_lists_def drop_positive_def drop_negative_def)
  show "sound c s'" using fin gap sd by (simp add: sound_gap)
  show "free (account who s') = v" "reserved (account who s') = reserved (account who s)"
    "x \<noteq> who \<Longrightarrow> account x s' = account x s"
    "int (total_issuance s') = int (total_issuance s) + int v - int (free (account who s))"
    using fin t stl by (simp_all add: old_def)
qed

text \<open>
  The calls that may break the books are those of root: setting a balance beyond what the issuance can
  hold, and lowering the issuance below what the accounts hold.
\<close>

fun call_ok :: "('l \<Rightarrow> account_id option) \<Rightarrow> bal_state \<Rightarrow> 'l call \<Rightarrow> bool" where
  "call_ok lk s (ForceSetBalance l n) \<longleftrightarrow>
     (\<forall>who. lk l = Some who \<longrightarrow> total_issuance s + (n - free (account who s)) \<le> u128_max)"
| "call_ok lk s (ForceAdjustTotalIssuance Decrease delta) \<longleftrightarrow> circulating s + delta \<le> total_issuance s"
| "call_ok lk s _ \<longleftrightarrow> True"

lemma force_adjust_ok:
  assumes sd: "sound c s" and "direction = Decrease \<longrightarrow> circulating s + delta \<le> total_issuance s"
    and run: "force_adjust_total_issuance o1 direction delta s = (Inr u, s')"
  shows "sound c s'"
proof -
  let ?new = "case direction of Increase \<Rightarrow> sat_add u128_max (total_issuance s) delta | Decrease \<Rightarrow> total_issuance s - delta"
  have s': "s' = deposit_event (TotalIssuanceForced (total_issuance s) ?new) (s\<lparr>total_issuance := ?new\<rparr>)"
    using run by (auto simp: force_adjust_total_issuance_def Let_def)
  have ti: "total_issuance s \<le> u128_max" using sd by (simp add: sound_def bal_inv_def)
  have "circulating s \<le> ?new \<and> ?new \<le> u128_max"
    using assms(2) sd ti by (cases direction) (auto simp: sound_def sat_add_def)
  then show ?thesis using sd by (simp add: s' sound_def bal_inv_def)
qed

lemma dispatch_sound:
  assumes sd: "sound c s" and ok: "call_ok lk s call" and run: "dispatch c lk o1 call s = (r, s')"
  shows "sound c s'"
proof (cases r)
  case (Inl e)
  have "s' = s" using run unfolding Inl by (cases call) (auto dest: transactional_Inl)
  with sd show ?thesis by simp
next
  case (Inr u)
  note run' = run [unfolded Inr]
  show ?thesis
  proof (cases call)
    case (ForceUnreserve l n)
    with run' obtain who rest where "unreserve c who n s = (rest, s')"
      by (auto simp: force_unreserve_def)
    from unreserve_ok [OF sd this] sd show ?thesis by (simp add: sound_gap)
  next
    case (ForceSetBalance l n)
    with run' obtain who where "lk l = Some who" by (auto simp: force_set_balance_def)
    with force_set_balance_ok(1) [where lk = lk and l = l, OF sd this] ok run' ForceSetBalance show ?thesis by simp
  next
    case (ForceAdjustTotalIssuance d n)
    with force_adjust_ok [OF sd] ok run' show ?thesis by (cases d) auto
  next
    case (UpgradeAccounts who)
    with run' sd show ?thesis
      by (auto simp: upgrade_accounts_def upgrade_loop_new sound_def Let_def split: if_splits)
  qed (use run' transfer_sound(1) [OF sd] burn_sound(1) [OF sd] in
    \<open>auto simp: transfer_allow_death_def force_transfer_def transfer_keep_alive_def transfer_all_def burn_def Let_def\<close>)
qed

section \<open>The lists of an account under transfers and dispatchables\<close>

lemma maybe_dust_lists:
  assumes "bal_inv c s" and "int (opt_val id d) \<le> issuance_gap s"
  shows "same_lists s (handle_maybe_dust (balances_ops c) d s)"
proof (cases d)
  case (Some v)
  then have "circulating s + v \<le> total_issuance s" using assms(2) by (simp add: issuance_gap_def)
  with assms(1) Some show ?thesis by (auto simp: handle_maybe_dust_def bal_inv_def cfg_ok_def dust_ok_def Let_def)
qed (simp add: handle_maybe_dust_def)

lemma decrease_lists:
  assumes sd: "sound c s" and run: "decrease_balance (balances_ops c) who a p v f s = (Inr r, s')"
  shows "same_lists s s'"
proof -
  have inv: "bal_inv c s" using sd by (simp add: sound_def)
  from run obtain d s1 where r: "r \<le> bal_balance who s"
    and w: "fo_write_balance (balances_ops c) who (bal_balance who s - r) s = (Inr d, s1)"
    and s': "s' = handle_maybe_dust (balances_ops c) d s1"
    by (rule decrease_balance_InrE) simp
  have "bal_balance who s \<le> u128_max" using bf.balance_bound [OF inv] by simp
  then have "bal_balance who s - r \<le> u128_max" by linarith
  note W = bf.write_ok [OF inv this w]
  have "int (opt_val id d) \<le> issuance_gap s1"
    using W sd r by (auto simp: issuance_gap_def sound_def)
  then have "same_lists s1 s'" using W s' maybe_dust_lists by simp
  moreover have "same_lists s s1" using write_balance_lists [OF inv] w by simp
  ultimately show ?thesis by (rule same_lists_trans [rotated])
qed

lemma increase_lists:
  assumes sd: "sound c s" and run: "increase_balance (balances_ops c) who a p s = (x, s')"
  shows "same_lists s s'"
proof (cases x)
  case (Inl e)
  have inv: "bal_inv c s" using sd by (simp add: sound_def)
  from run [unfolded Inl] show ?thesis by (rule increase_balance_InlE) (use write_balance_lists [OF inv] in auto)
next
  case (Inr r)
  have inv: "bal_inv c s" using sd by (simp add: sound_def)
  from run [unfolded Inr] show ?thesis
  proof (rule increase_balance_InrE)
    fix new d s1
    assume new: "new \<le> u128_max" "fo_minimum_balance (balances_ops c) \<le> new"
      and w: "fo_write_balance (balances_ops c) who new s = (Inr d, s1)"
      and s': "s' = handle_maybe_dust (balances_ops c) d s1"
    note W = bf.write_ok [OF inv new(1) w]
    have "d = None" using W new(2) by (cases d) auto
    then show ?thesis using w s' write_balance_lists [OF inv] by (simp add: handle_maybe_dust_def)
  qed simp_all
qed

lemma transfer_lists:
  assumes sd: "sound c s" and run: "transfer (balances_ops c) src dest a v s = (Inr r, s')"
  shows "same_lists s s'"
proof (cases "src = dest")
  case True
  with run show ?thesis by (auto simp: transfer_def)
next
  case False
  with run obtain n s1 x s2 where d: "decrease_balance (balances_ops c) src a BestEffort v Polite s = (Inr n, s1)"
    and i: "increase_balance (balances_ops c) dest a BestEffort s1 = (x, s2)"
    and s': "s' = deposit_event (Transfer src dest a) s2"
    by (auto simp: transfer_def)
  have "sound c s1" using bf.decrease_ok [OF _ _ d] sd by (simp add: sound_iff)
  from same_lists_trans [OF decrease_lists [OF sd d] increase_lists [OF this i]] s' show ?thesis by simp
qed

lemma burn_lists:
  assumes sd: "sound c s" and run: "burn_from (balances_ops c) who a v p f s = (Inr r, s')"
  shows "same_lists s s'"
proof -
  from run obtain n k s1 where d: "decrease_balance (balances_ops c) who n BestEffort v f s = (Inr r, s1)"
    and s': "s' = deposit_event (Burned who r) (set_total_issuance k s1)"
    by (auto simp: burn_from_def Let_def)
  from decrease_lists [OF sd d] s' show ?thesis by (simp add: same_lists_def set_total_issuance_def)
qed

lemma dispatch_lists:
  assumes sd: "sound c s" and ok: "call_ok lk s call" and run: "dispatch c lk o1 call s = (r, s')"
  shows "same_lists s s'"
proof (cases r)
  case (Inl e)
  have "s' = s" using run unfolding Inl by (cases call) (auto dest: transactional_Inl)
  then show ?thesis by simp
next
  case (Inr u)
  note run' = run [unfolded Inr]
  show ?thesis
  proof (cases call)
    case (ForceUnreserve l n)
    with run' obtain who rest where "unreserve c who n s = (rest, s')" by (auto simp: force_unreserve_def)
    from unreserve_ok(4) [OF sd this] show ?thesis .
  next
    case (ForceSetBalance l n)
    with run' obtain who where lk: "lk l = Some who" and run'': "force_set_balance c lk o1 l n s = (Inr u, s')"
      by (auto simp: force_set_balance_def)
    from force_set_balance_ok(8) [where lk = lk and l = l, OF sd lk _ run''] ok lk ForceSetBalance show ?thesis by simp
  next
    case (ForceAdjustTotalIssuance d n)
    with run' show ?thesis by (auto simp: force_adjust_total_issuance_def Let_def same_lists_def)
  next
    case (UpgradeAccounts who)
    with run' sd show ?thesis
      by (auto simp: upgrade_accounts_def upgrade_loop_new sound_def Let_def split: if_splits)
  qed (use run' transfer_lists [OF sd] burn_lists [OF sd] in
    \<open>auto simp: transfer_allow_death_def force_transfer_def transfer_keep_alive_def transfer_all_def burn_def Let_def\<close>)
qed

section \<open>The genesis state is sound\<close>

definition genesis_info :: "balance \<Rightarrow> account_info" where
  "genesis_info n = account_info_default\<lparr>ai_providers := 1, ai_data := account_data_default\<lparr>free := n\<rparr>\<rparr>"

lemma genesis_insert_step:
  "sys_account s who = None \<Longrightarrow>
   genesis_insert ((who, n) # bs) s = genesis_insert bs (put_info who (genesis_info n) (deposit_event (NewAccount who) s))"
  by (simp add: inc_providers_def stored_try_mutate_exists_def eret_def providers_def genesis_info_def Let_def get_info_def
      account_info_default_def)

lemma genesis_info_ok:
  assumes "cfg_ok c" and "ed c \<le> n" and "n \<le> u128_max"
  shows "info_ok (genesis_info n)" and "info_inv c (genesis_info n)" and "info_tokens (genesis_info n) = n"
  using assms by (auto simp: genesis_info_def info_ok_def info_inv_def info_tokens_def account_info_default_def)

lemma genesis_insert_ok:
  assumes "cfg_ok c"
  shows "accounts_inv c s \<Longrightarrow> distinct (map fst bs) \<Longrightarrow> \<forall>w n. (w, n) \<in> set bs \<longrightarrow> sys_account s w = None \<and> ed c \<le> n \<and> n \<le> u128_max \<Longrightarrow>
    \<exists>s'. genesis_insert bs s = Some s' \<and> accounts_inv c s' \<and> sys_state.more s' = sys_state.more s \<and>
      circulating s' = circulating s + sum_list (map snd bs) \<and>
      (\<forall>x. account x s' = (case map_of bs x of None \<Rightarrow> account x s | Some n \<Rightarrow> account_data_default\<lparr>free := n\<rparr>))"
proof (induction bs arbitrary: s)
  case (Cons b bs)
  obtain w n where b: "b = (w, n)" by (rule prod.exhaust)
  let ?s = "put_info w (genesis_info n) (deposit_event (NewAccount w) s)"
  have none: "sys_account s w = None" and n: "ed c \<le> n" "n \<le> u128_max" using Cons.prems(3) b by auto
  note G = genesis_info_ok [OF assms n]
  have inv: "accounts_inv c ?s" using Cons.prems(1) G by (intro accounts_inv_put) simp_all
  have "circulating ?s = circulating s + n"
  proof -
    have "get_info w s = account_info_default" using none by (simp add: get_info_def)
    then show ?thesis
      using circulating_put [of "deposit_event (NewAccount w) s" w "genesis_info n"] accounts_inv_refs [OF Cons.prems(1)] G(3)
      by simp
  qed
  moreover have "\<forall>w' m. (w', m) \<in> set bs \<longrightarrow> sys_account ?s w' = None \<and> ed c \<le> m \<and> m \<le> u128_max"
    using Cons.prems(2,3) b by (auto simp: image_iff)
  moreover have "account x ?s = (if x = w then account_data_default\<lparr>free := n\<rparr> else account x s)" for x
    by (simp add: account_def stored_get_def genesis_info_def account_info_default_def)
  moreover have "map_of bs w = None" using Cons.prems(2) b by (simp add: map_of_eq_None_iff)
  ultimately show ?case
    using Cons.IH [OF inv] Cons.prems(2) b
    by (auto simp: genesis_insert_step [OF none] simp del: genesis_insert.simps split: if_splits option.split)
qed simp

definition empty_state :: bal_state where
  "empty_state = \<lparr>sys_account = Map.empty, events = [], total_issuance = 0, inactive_issuance = 0,
     locks = (\<lambda>_. []), reserves = (\<lambda>_. []), holds = (\<lambda>_. []), freezes = (\<lambda>_. [])\<rparr>"

lemma empty_inv: "cfg_ok c \<Longrightarrow> bal_inv c (empty_state\<lparr>total_issuance := n\<rparr>) \<longleftrightarrow> n \<le> u128_max"
  by (simp add: bal_inv_def accounts_inv_def refs_ok_def lists_ok_def empty_state_def)

lemma genesis_total:
  "sum_list (map snd bs) + acc \<le> u128_max \<Longrightarrow>
   fold (\<lambda>(_, n) acc. (acc + n) mod (u128_max + 1)) bs acc = acc + sum_list (map snd bs)"
proof (induction bs arbitrary: acc)
  case (Cons b bs)
  obtain w n where "b = (w, n)" by (rule prod.exhaust)
  with Cons.IH [of "acc + n"] Cons.prems show ?case by (simp add: add_ac)
qed simp

lemma genesis_build_ok:
  assumes "cfg_ok c" and "gc_dev_accounts g = None" and run: "genesis_build c key g empty_state = Some s"
    and max: "sum_list (map snd (gc_balances g)) \<le> u128_max"
  shows "sound c s" and "issuance_gap s = 0" and "total_issuance s = sum_list (map snd (gc_balances g))"
    and "\<forall>(w, n) \<in> set (gc_balances g). account w s = account_data_default\<lparr>free := n\<rparr>"
proof -
  let ?bs = "gc_balances g" and ?e = "empty_state\<lparr>total_issuance := sum_list (map snd (gc_balances g))\<rparr>"
  have tot: "fold (\<lambda>(_, n) acc. (acc + n) mod (u128_max + 1)) ?bs 0 = sum_list (map snd ?bs)"
    using genesis_total [of ?bs 0] max by simp
  have min: "\<forall>(w, n) \<in> set ?bs. ed c \<le> n" and dist: "card (set (map fst ?bs)) = length ?bs" and
    ins: "genesis_insert ?bs ?e = Some s"
    using run assms(2) unfolding genesis_build_def Let_def tot by (auto split: if_splits)
  have dist: "distinct (map fst ?bs)" using dist by (simp add: card_distinct)
  have "n \<le> u128_max" if "(w, n) \<in> set ?bs" for w n
    using member_le_sum_list [of n "map snd ?bs"] that max by force
  then have bs: "\<forall>w n. (w, n) \<in> set ?bs \<longrightarrow> sys_account ?e w = None \<and> ed c \<le> n \<and> n \<le> u128_max"
    using min by (auto simp: empty_state_def)
  have inv: "bal_inv c ?e" using empty_inv [OF assms(1)] max by simp
  from genesis_insert_ok [OF assms(1) bal_inv_D(2) [OF inv] dist bs] ins
  have S: "accounts_inv c s" "sys_state.more s = sys_state.more ?e" "circulating s = circulating ?e + sum_list (map snd ?bs)"
    "\<And>x. account x s = (case map_of ?bs x of None \<Rightarrow> account x ?e | Some n \<Rightarrow> account_data_default\<lparr>free := n\<rparr>)" by auto
  have ti: "total_issuance s = sum_list (map snd ?bs)" using more_fields(1) [OF S(2)] by simp
  then show "total_issuance s = sum_list (map snd ?bs)" .
  have e: "circulating ?e = 0" by (simp add: circulating_def map_sum_def empty_state_def)
  show "issuance_gap s = 0" using S(3) ti e by (simp add: issuance_gap_def)
  have "lists_ok s" using lists_ok_same [OF more_lists [OF S(2)] bal_inv_D(4) [OF inv]] .
  then have "bal_inv c s" using S(1) ti max assms(1) by (simp add: bal_inv_def)
  with S(3) e ti show "sound c s" by (simp add: sound_def)
  show "\<forall>(w, n) \<in> set ?bs. account w s = account_data_default\<lparr>free := n\<rparr>"
    using S(4) map_of_is_SomeI [OF dist] by fastforce
qed

text \<open>
  The balances of the development accounts are not part of the issuance that the genesis builder writes:
  each of them takes its balance out of the coverage.
\<close>

lemma dev_loop_gap:
  assumes "ed c \<le> b" and "b \<le> u128_max"
  shows "bal_inv c s \<Longrightarrow> dev_loop c key b d is s = Some s' \<Longrightarrow>
    distinct (map (\<lambda>i. key (replace_placeholder (decimal i) d)) is) \<Longrightarrow>
    \<forall>i \<in> set is. \<forall>w. key (replace_placeholder (decimal i) d) = Some w \<longrightarrow> account w s = account_data_default \<Longrightarrow>
    bal_inv c s' \<and> issuance_gap s' = issuance_gap s - int (length is * b) \<and> total_issuance s' = total_issuance s"
proof (induction "is" arbitrary: s)
  case (Cons i "is")
  let ?f = "\<lambda>a (_ :: bool). eret (a\<lparr>free := b\<rparr>, ()) :: (account_data \<times> unit) bal_em"
  from Cons.prems(2) obtain w where w: "key (replace_placeholder (decimal i) d) = Some w" by (auto split: option.splits)
  with Cons.prems(2) obtain s1 where
    m: "try_mutate_account_handling_dust c w False (\<lambda>_ s. s) ?f s = (Inr (), s1)"
    and rest: "dev_loop c key b d is s1 = Some s'"
    by (auto simp: mutate_handling_dust split: prod.splits sum.splits)
  have def: "account w s = account_data_default" using Cons.prems(4) w by simp
  let ?a = "(account w s)\<lparr>free := b\<rparr>"
  have f: "?f (account w s) (account w s = account_data_default) s = (Inr (?a, ()), s)" by (simp add: eret_def)
  have nd: "dust_of c ?a = None" and ok: "data_ok ?a" using assms by (auto simp: dust_of_def data_ok_def def)
  note H = handling_dust_ok [where f = ?f, OF Cons.prems(1) f _ ok _ m, simplified nd]
  have s1: "bal_inv c s1" "issuance_gap s1 = issuance_gap s - int b" "total_issuance s1 = total_issuance s"
    "\<And>x. x \<noteq> w \<Longrightarrow> account x s1 = account x s" using H by (simp_all add: def tokens_def)
  have "\<forall>j \<in> set is. \<forall>x. key (replace_placeholder (decimal j) d) = Some x \<longrightarrow> account x s1 = account_data_default"
  proof (intro ballI allI impI)
    fix j x assume j: "j \<in> set is" "key (replace_placeholder (decimal j) d) = Some x"
    then have "x \<noteq> w" using Cons.prems(3) w by (auto simp: image_iff)
    with s1(4) Cons.prems(4) j show "account x s1 = account_data_default" by simp
  qed
  with Cons.IH [OF s1(1) rest] Cons.prems(3) s1 show ?case by simp
qed simp

section \<open>Reachable states\<close>

text \<open>
  The states of a chain: the genesis state of a configuration without development accounts, and what any
  sequence of dispatchables, successful or not, makes of it.
\<close>

inductive reachable :: "bal_config \<Rightarrow> ('l \<Rightarrow> account_id option) \<Rightarrow> bal_state \<Rightarrow> bool" for c lk where
  genesis: "genesis_build c key g empty_state = Some s \<Longrightarrow> gc_dev_accounts g = None \<Longrightarrow>
    sum_list (map snd (gc_balances g)) \<le> u128_max \<Longrightarrow> reachable c lk s"
| step: "reachable c lk s \<Longrightarrow> call_ok lk s call \<Longrightarrow> dispatch c lk o1 call s = (r, s') \<Longrightarrow> reachable c lk s'"

lemma reachable_keeps_sound: "reachable c lk s \<Longrightarrow> cfg_ok c \<Longrightarrow> sound c s"
  by (induction rule: reachable.induct) (auto intro: genesis_build_ok(1) dispatch_sound)

end
