(* ===== verification/Balances_Examples.thy ===== *)
theory Balances_Examples
  imports Balances_Calls
begin

text \<open>
  An example chain, on which the properties are instantiated.
\<close>

section \<open>An example state\<close>

text \<open>
  Three accounts of a chain with an existential deposit of 10; the second has a reserved balance and
  the third is kept alive by a second provider.
\<close>

definition ex_cfg :: bal_config where
  "ex_cfg = \<lparr>existential_deposit = 10, max_consumers = 16, max_locks = 2, max_reserves = 2,
     max_freezes = 2, hold_variants = 3, dust_removal = drop_dust\<rparr>"

definition ex_info :: "nat \<Rightarrow> nat \<Rightarrow> nat \<Rightarrow> nat \<Rightarrow> account_info" where
  "ex_info np nc fr re = \<lparr>ai_nonce = 0, ai_consumers = nc, ai_providers = np, ai_sufficients = 0,
     ai_data = account_data_default\<lparr>free := fr, reserved := re\<rparr>\<rparr>"

definition ex_state :: bal_state where
  "ex_state = \<lparr>sys_account = [1 \<mapsto> ex_info 1 0 100 0, 2 \<mapsto> ex_info 1 1 50 20, 3 \<mapsto> ex_info 2 0 15 0],
     events = [], total_issuance = 185, inactive_issuance = 0,
     locks = (\<lambda>_. []), reserves = (\<lambda>_. []), holds = (\<lambda>_. []), freezes = (\<lambda>_. [])\<rparr>"

lemma ex_cfg_sel [simp]: "ed ex_cfg = 10" "dust_removal ex_cfg = drop_dust" "max_consumers ex_cfg = 16"
  by (simp_all add: ex_cfg_def ed_def)

lemma ex_cfg_ok: "cfg_ok ex_cfg"
  by (simp add: cfg_ok_def drop_dust_ok)

lemma ex_circulating: "circulating ex_state = 185"
  by (simp add: circulating_def map_sum_def ex_state_def ex_info_def info_tokens_def)

lemma ex_inv: "bal_inv ex_cfg ex_state"
  using ex_cfg_ok
  by (auto simp: bal_inv_def accounts_inv_def refs_ok_def info_ok_def info_inv_def ex_state_def ex_info_def
      u128_max_def u32_max_def account_data_default_def lists_ok_def split: if_splits)

lemma ex_sound: "sound ex_cfg ex_state"
  using ex_inv by (simp add: sound_def ex_circulating) (simp add: ex_state_def)

end
