(* ===== verification/Balances_Props.thy ===== *)
theory Balances_Props
  imports Balances_Examples
begin

text \<open>
  The properties of the \<open>fungible\<close> operations of the balances pallet: transfers, minting, withdrawals, holds
  and freezes, with their instances on the example chain.
\<close>

section \<open>Transfers, minting and burning\<close>




text \<open>
  (C10) A transfer that fails, for whatever reason and even without the rollback of a dispatchable, has moved
  nothing: every balance, the tokens in circulation and the issuance are what they were.
\<close>

theorem transfer_failed:
  assumes "bal_inv c s" and "transfer (balances_ops c) src dest amount preservation s = (Inl e, s')"
  shows "bal_inv c s' \<and> (\<forall>x. bal_balance x s' = bal_balance x s) \<and> circulating s' = circulating s \<and>
    total_issuance s' = total_issuance s"
  using bf.transfer_err [OF assms] assms(1) by (simp add: token_frame_def)

lemma ex_transfer_failed:
  "fst (transfer (balances_ops ex_cfg) 2 1 50 Expendable ex_state) = Inl (DE_Token TE_Frozen)"
  by code_simp

theorem transfer_failed_witness:
  "\<exists>s'. transfer (balances_ops ex_cfg) 2 1 50 Expendable ex_state = (Inl (DE_Token TE_Frozen), s') \<and>
     total_issuance s' = 185"
proof -
  obtain s' where run: "transfer (balances_ops ex_cfg) 2 1 50 Expendable ex_state = (Inl (DE_Token TE_Frozen), s')"
    using ex_transfer_failed by (cases "transfer (balances_ops ex_cfg) 2 1 50 Expendable ex_state") auto
  have "total_issuance ex_state = 185" by (simp add: ex_state_def)
  with run transfer_failed [OF ex_inv run] show ?thesis by simp
qed

text \<open>
  (C11) Minting brings the whole amount into the account and into the issuance, and touches no other account;
  the part of the issuance that no account holds stays what it was.
\<close>

theorem mint_exact:
  assumes "bal_inv c s" and "mint_into (balances_ops c) who amount s = (Inr r, s')"
  shows "r = amount \<and> bal_balance who s' = bal_balance who s + amount \<and>
    total_issuance s' = total_issuance s + amount \<and> total_issuance s' \<le> u128_max \<and>
    (\<forall>x. x \<noteq> who \<longrightarrow> bal_balance x s' = bal_balance x s) \<and> issuance_gap s' = issuance_gap s \<and> bal_inv c s'"
  using bf.mint_into_ok [OF assms] by (auto simp: bal_inv_def)

lemma ex_mint: "fst (mint_into (balances_ops ex_cfg) 7 30 ex_state) = Inr 30"
  by code_simp

theorem mint_exact_witness:
  "\<exists>s'. mint_into (balances_ops ex_cfg) 7 30 ex_state = (Inr 30, s') \<and> total_issuance s' = 215"
proof -
  obtain s' where run: "mint_into (balances_ops ex_cfg) 7 30 ex_state = (Inr 30, s')"
    using ex_mint by (cases "mint_into (balances_ops ex_cfg) 7 30 ex_state") auto
  have "total_issuance ex_state = 185" by (simp add: ex_state_def)
  with run mint_exact [OF ex_inv run] show ?thesis by simp
qed

text \<open>
  (C12) A credit that was withdrawn exactly from one account and is resolved into another carries the amount
  over: after both steps the second account has it, the state is sound again and the coverage of the
  issuance is what it was before the withdrawal, however the balances were in between.
\<close>

theorem withdraw_resolve:
  assumes "sound c s" and "withdraw (balances_ops c) src amount Exact preservation force s = (Inr k, s1)"
    and "resolve (balances_ops c) dest k s1 = (Inr u, s')"
  shows "credit_peek k = amount \<and> bal_balance dest s' = bal_balance dest s1 + amount \<and>
    issuance_gap s1 = issuance_gap s + int amount \<and> issuance_gap s' = issuance_gap s \<and> sound c s'"
proof -
  note W = bf.withdraw_ok [OF _ _ assms(2)] and R = bf.resolve_ok [OF _ assms(3)]
  show ?thesis using assms(1) W R by (auto simp: sound_iff)
qed

definition ex_withdraw :: "(dispatch_error + credit) \<times> bal_state" where
  "ex_withdraw = withdraw (balances_ops ex_cfg) 1 40 Exact Preserve Polite ex_state"

lemma ex_withdraw_run: "fst ex_withdraw = Inr (Credit 40)"
  by code_simp

lemma ex_resolve_run: "fst (resolve (balances_ops ex_cfg) 3 (Credit 40) (snd ex_withdraw)) = Inr ()"
  by code_simp

theorem withdraw_resolve_witness:
  "\<exists>s1 s'. withdraw (balances_ops ex_cfg) 1 40 Exact Preserve Polite ex_state = (Inr (Credit 40), s1) \<and>
     resolve (balances_ops ex_cfg) 3 (Credit 40) s1 = (Inr (), s') \<and> sound ex_cfg s'"
proof -
  obtain s1 where w: "withdraw (balances_ops ex_cfg) 1 40 Exact Preserve Polite ex_state = (Inr (Credit 40), s1)"
    using ex_withdraw_run unfolding ex_withdraw_def by (metis prod.collapse)
  then have "snd ex_withdraw = s1" by (simp add: ex_withdraw_def)
  then obtain s' where r: "resolve (balances_ops ex_cfg) 3 (Credit 40) s1 = (Inr (), s')"
    using ex_resolve_run by (metis prod.collapse)
  show ?thesis using withdraw_resolve [OF ex_sound w r] w r by blast
qed

section \<open>Holds\<close>







definition ex_held :: bal_state where
  "ex_held = snd (hold (balances_hold_ops ex_cfg) 7 1 40 ex_state)"

lemma ex_held_inv: "bal_inv ex_cfg ex_held"
proof -
  have "fst (hold (balances_hold_ops ex_cfg) 7 1 40 ex_state) = Inr ()" by code_simp
  then have run: "hold (balances_hold_ops ex_cfg) 7 1 40 ex_state = (Inr (), ex_held)"
    unfolding ex_held_def by (metis prod.collapse)
  have "balance_on_hold 7 1 ex_state = 0" by code_simp
  with bh.hold_ok(1) [OF ex_inv _ _ run] ex_sound show ?thesis by (simp add: sound_iff u128_max_def)
qed



text \<open>
  Moving a hold to the free balance of another account: what arrives has left the hold of the source,
  it is the whole amount where exactness was asked for, and the coverage of the issuance is kept.
\<close>

theorem transfer_on_hold_free:
  assumes "bal_inv c s" and "bal_balance src s = 0 \<or> ed c \<le> bal_balance src s" and "src \<noteq> dest"
    and "transfer_on_hold (balances_hold_ops c) reason src dest amount precision RFree force s = (Inr r, s')"
  shows "r \<le> amount \<and> (precision = Exact \<longrightarrow> r = amount) \<and> r \<le> balance_on_hold reason src s \<and>
    balance_on_hold reason src s' = balance_on_hold reason src s - r \<and>
    bal_balance dest s' = bal_balance dest s + r \<and> issuance_gap s' = issuance_gap s \<and> bal_inv c s'"
  using bh.transfer_on_hold_ok [OF assms(1) _ _ assms(4)] assms(2,3) by (simp add: firm_def)

lemma ex_transfer_on_hold:
  "fst (transfer_on_hold (balances_hold_ops ex_cfg) 7 1 3 25 Exact RFree Polite ex_held) = Inr 25"
  by code_simp

theorem transfer_on_hold_free_witness:
  "\<exists>s'. transfer_on_hold (balances_hold_ops ex_cfg) 7 1 3 25 Exact RFree Polite ex_held = (Inr 25, s') \<and>
     balance_on_hold 7 1 s' = 15 \<and> bal_balance 3 s' = 40"
proof -
  obtain s' where run: "transfer_on_hold (balances_hold_ops ex_cfg) 7 1 3 25 Exact RFree Polite ex_held = (Inr 25, s')"
    using ex_transfer_on_hold by (metis prod.collapse)
  have b: "bal_balance 1 ex_held = 60" "bal_balance 3 ex_held = 15" "balance_on_hold 7 1 ex_held = 40" by code_simp+
  with run transfer_on_hold_free [OF ex_held_inv _ _ run] show ?thesis by simp
qed

section \<open>Freezes\<close>

text \<open>
  A freeze that was set is the freeze that is read, no other freeze of any account changes, no token
  moves, and the frozen amount of an account that is stored is the largest of its locks and freezes.
\<close>

theorem set_freeze_reads_back:
  assumes "bal_inv c s" and "set_freeze c i who amount s = (Inr u, s')"
  shows "balance_frozen i who s' = amount \<and>
    (\<forall>j x. (j, x) \<noteq> (i, who) \<longrightarrow> balance_frozen j x s' = balance_frozen j x s) \<and>
    (\<forall>x. bal_balance x s' = bal_balance x s) \<and> issuance_gap s' = issuance_gap s \<and>
    (stores c who s \<longrightarrow> frozen (account who s') = frozen_max (locks s' who) (freezes s' who)) \<and> bal_inv c s'"
  using set_freeze_ok [OF assms] by (auto simp: freeze_set_def same_tokens_def bal_balance_def issuance_gap_def)

lemma ex_set_freeze: "fst (set_freeze ex_cfg 4 1 30 ex_state) = Inr ()"
  by code_simp

theorem set_freeze_reads_back_witness:
  "\<exists>s'. set_freeze ex_cfg 4 1 30 ex_state = (Inr (), s') \<and> balance_frozen 4 1 s' = 30 \<and> bal_balance 1 s' = 100"
proof -
  obtain s' where run: "set_freeze ex_cfg 4 1 30 ex_state = (Inr (), s')"
    using ex_set_freeze by (metis prod.collapse)
  have "bal_balance 1 ex_state = 100" by code_simp
  with run set_freeze_reads_back [OF ex_inv run] show ?thesis by simp
qed

section \<open>Dust of held accounts\<close>





end
