(* ===== verification/Currency_Props.thy ===== *)
theory Currency_Props
  imports Balances_Examples
begin

text \<open>
  The properties of the \<open>Currency\<close>, \<open>ReservableCurrency\<close>, \<open>NamedReservableCurrency\<close> and
  \<open>LockableCurrency\<close> implementations of the balances pallet, with their instances on the example chain.
\<close>

section \<open>Reserves\<close>

text \<open>
  Reserving and unreserving the same amount is a round trip: between the two the amount sits in the
  reserved balance, afterwards both balances are what they were, everything was unreserved, and neither
  step changes the coverage of the issuance.
\<close>

theorem reserve_unreserve:
  assumes "sound c s" and "value \<noteq> 0" and "ed c \<le> free (account who s)"
    and "reserve c who value s = (Inr u, s1)" and "unreserve c who value s1 = (rest, s')"
  shows "free (account who s1) = free (account who s) - value \<and>
    reserved (account who s1) = reserved (account who s) + value \<and> rest = 0 \<and>
    free (account who s') = free (account who s) \<and> reserved (account who s') = reserved (account who s) \<and>
    issuance_gap s1 = issuance_gap s \<and> issuance_gap s' = issuance_gap s \<and> sound c s'"
proof -
  have inv: "bal_inv c s" using assms(1) by (simp add: sound_def)
  note R = reserve_ok [OF inv assms(2,4)]
  have s1: "sound c s1" using R(2) assms(1) by (simp add: moved_def sound_gap)
  have acc: "account who s1 = (account who s)\<lparr>free := free (account who s) - value, reserved := reserved (account who s) + value\<rparr>"
    using R(2) by (simp add: moved_def)
  have "dust_of c (unreserved (account who s1) (min (reserved (account who s1)) value)) = None"
    using assms(3) R(1) by (simp add: acc unreserved_def dust_of_def)
  with unreserve_ok [OF s1 assms(5)] R(1) R(2) s1 show ?thesis by (simp add: acc moved_def sound_gap)
qed

definition ex_reserve :: "(dispatch_error + unit) \<times> bal_state" where
  "ex_reserve = reserve ex_cfg 1 60 ex_state"

lemma ex_reserve_run: "fst ex_reserve = Inr () \<and> fst (unreserve ex_cfg 1 60 (snd ex_reserve)) = 0 \<and> account 1 ex_state = account_data_default\<lparr>free := 100\<rparr>"
  by code_simp

theorem reserve_unreserve_witness:
  "\<exists>s1 s'. reserve ex_cfg 1 60 ex_state = (Inr (), s1) \<and> reserved (account 1 s1) = 60 \<and>
     unreserve ex_cfg 1 60 s1 = (0, s') \<and> free (account 1 s') = 100"
proof -
  obtain s1 where r: "reserve ex_cfg 1 60 ex_state = (Inr (), s1)" "s1 = snd ex_reserve"
    using ex_reserve_run unfolding ex_reserve_def by (metis prod.collapse)
  then obtain s' where u: "unreserve ex_cfg 1 60 s1 = (0, s')" using ex_reserve_run by (metis prod.collapse)
  have a: "free (account 1 ex_state) = 100" "reserved (account 1 ex_state) = 0"
    using ex_reserve_run by (simp_all add: account_data_default_def)
  have "ed ex_cfg \<le> free (account 1 ex_state)" using a by simp
  from reserve_unreserve [OF ex_sound _ this r(1) u] a r(1) u show ?thesis by simp
qed







text \<open>
  A named reserve is read back: after reserving under an identifier, that identifier has the amount more,
  every other named reserve is unchanged, and the amount has moved from the free to the reserved balance.
\<close>

theorem reserve_named_reads_back:
  assumes "bal_inv c s" and "value \<noteq> 0" and "reserve_named c i who value s = (Inr u, s')"
  shows "reserved_balance_named i who s' = reserved_balance_named i who s + value \<and>
    (\<forall>j x. (j, x) \<noteq> (i, who) \<longrightarrow> reserved_balance_named j x s' = reserved_balance_named j x s) \<and>
    free (account who s') + value = free (account who s) \<and>
    reserved (account who s') = reserved (account who s) + value \<and>
    issuance_gap s' = issuance_gap s \<and> bal_inv c s'"
  using reserve_named_ok [OF assms] by (auto simp: named_set_def)

lemma ex_reserve_named: "fst (reserve_named ex_cfg 5 1 30 ex_state) = Inr () \<and> reserved_balance_named 5 1 ex_state = 0"
  by code_simp

theorem reserve_named_reads_back_witness:
  "\<exists>s'. reserve_named ex_cfg 5 1 30 ex_state = (Inr (), s') \<and> reserved_balance_named 5 1 s' = 30"
proof -
  obtain s' where run: "reserve_named ex_cfg 5 1 30 ex_state = (Inr (), s')"
    using ex_reserve_named by (metis prod.collapse)
  from run ex_reserve_named reserve_named_reads_back [OF ex_inv _ run] show ?thesis by simp
qed






section \<open>Deposits and forced balances\<close>

text \<open>
  (C23) Depositing into an account that may be created: the imbalance is the amount, unless a new account
  would be below the existential deposit or the balance would overflow, and then nothing happens. The
  balance grows by the imbalance and the coverage of the issuance shrinks by it.
\<close>

theorem deposit_creating_exact:
  assumes "bal_inv c s" and "value \<le> u128_max" and "deposit_creating c who value s = (p, s')"
  shows "pos_peek p = (if (ed c \<le> value \<or> account who s \<noteq> account_data_default) \<and>
                          free (account who s) + value \<le> u128_max then value else 0) \<and>
    account who s' = (account who s)\<lparr>free := free (account who s) + pos_peek p\<rparr> \<and>
    (\<forall>x. x \<noteq> who \<longrightarrow> account x s' = account x s) \<and>
    issuance_gap s' = issuance_gap s - int (pos_peek p) \<and> bal_inv c s'"
  using deposit_creating_ok [OF assms] by (simp add: deposited_def)

lemma ex_deposit: "fst (deposit_creating ex_cfg 8 9 ex_state) = PositiveImbalance 0 \<and> account 8 ex_state = account_data_default"
  by code_simp

theorem deposit_creating_exact_witness:
  "\<exists>s'. deposit_creating ex_cfg 8 9 ex_state = (PositiveImbalance 0, s') \<and> account 8 s' = account_data_default"
proof -
  obtain s' where run: "deposit_creating ex_cfg 8 9 ex_state = (PositiveImbalance 0, s')"
    using ex_deposit by (metis prod.collapse)
  have "(9::nat) \<le> u128_max" by (simp add: u128_max_def)
  from run ex_deposit deposit_creating_exact [OF ex_inv this run] show ?thesis by simp
qed


section \<open>Locks\<close>



lemma balance_locked_zero:
  assumes "\<forall>l \<in> set (locks s who). lock_amount l = 0"
  shows "balance_locked i who s = 0"
proof -
  have "fold (\<lambda>l acc. (acc + lock_amount l) mod (u128_max + 1)) (filter (\<lambda>l. lock_ident l = i) ls) 0 = 0"
    if "\<forall>l \<in> set ls. lock_amount l = 0" for ls :: "balance_lock list"
    using that by (induction ls) auto
  with assms show ?thesis by (simp add: balance_locked_def)
qed

text \<open>
  A lock on an account that the chain does not store: the lock is recorded, but the account stays without
  frozen balance, so that the pallet's own check of the state reports it.
\<close>

theorem lock_of_nobody_is_bad:
  assumes "bal_inv c s" and "\<not> stores c who s" and "0 < amount" and "amount \<le> u128_max" and "reasons \<noteq> 0"
  shows "frozen (account who (set_lock c i who amount reasons s)) = 0 \<and>
    account_frozen_greater_than_locks [who] (set_lock c i who amount reasons s) = Inl ''bad locks''"
proof -
  let ?s = "set_lock c i who amount reasons s"
  have L: "bal_inv c ?s" "same_tokens s ?s" "balance_locked i who ?s = amount"
    using set_lock_ok [OF assms(1,4,5), of i who] by (simp_all add: lock_set_def)
  have "\<not> stores c who ?s" using L(2) assms(2) by (simp add: stores_def same_tokens_def)
  then have "account who ?s = account_data_default"
    using account_inv(2) [of c ?s who] L(1) by (simp add: bal_inv_def settled_def stores_def)
  then have 0: "frozen (account who ?s) = 0" by (simp add: account_data_default_def)
  have "0 < fold max (map lock_amount (locks ?s who)) 0"
  proof (rule ccontr)
    assume "\<not> ?thesis"
    then have "\<forall>l \<in> set (locks ?s who). lock_amount l = 0" using Max.set_eq_fold [of 0 "map lock_amount (locks ?s who)"]
      by (auto simp: Max_eq_iff)
    from balance_locked_zero [OF this] L(3) assms(3) show False by simp
  qed
  with 0 show ?thesis by (simp add: account_frozen_greater_than_locks_def)
qed

theorem lock_of_nobody_is_bad_witness:
  "account_frozen_greater_than_locks [9] ex_state = Inr () \<and>
   account_frozen_greater_than_locks [9] (set_lock ex_cfg 3 9 25 2 ex_state) = Inl ''bad locks''"
proof -
  have "(25::nat) \<le> u128_max" "\<not> stores ex_cfg 9 ex_state" "locks ex_state 9 = []"
    by (auto simp: u128_max_def stores_def account_def stored_get_def get_info_def ex_state_def)
  then have "account_frozen_greater_than_locks [9] ex_state = Inr ()"
    "account_frozen_greater_than_locks [9] (set_lock ex_cfg 3 9 25 2 ex_state) = Inl ''bad locks''"
    using lock_of_nobody_is_bad [of ex_cfg ex_state 9 25 2 3] ex_inv by (simp_all add: account_frozen_greater_than_locks_def [of _ ex_state])
  then show ?thesis by blast
qed

end
