(* ===== verification/Calls_Props.thy ===== *)
theory Calls_Props
  imports Balances_Examples
begin

text \<open>
  The properties of the dispatchables and of the genesis of the balances pallet: what every sequence of calls
  keeps, who may make them, and what the single calls do.
\<close>

section \<open>The chain as a whole\<close>


definition ex_genesis :: genesis_config where
  "ex_genesis = \<lparr>gc_balances = [(1, 100), (2, 50)], gc_dev_accounts = None\<rparr>"

definition ex_born :: bal_state where
  "ex_born = the (genesis_build ex_cfg (\<lambda>_. None) ex_genesis empty_state)"

lemma ex_genesis_run:
  "genesis_build ex_cfg (\<lambda>_. None) ex_genesis empty_state \<noteq> None \<and> total_issuance ex_born = 150 \<and>
   fst (dispatch ex_cfg Some (Signed 1) (TransferAllowDeath 2 95) ex_born) = Inr () \<and>
   free (account 2 (snd (dispatch ex_cfg Some (Signed 1) (TransferAllowDeath 2 95) ex_born))) = 145"
  by code_simp


text \<open>
  (C29) The genesis state: when the builder accepts balances that the issuance can hold, every account listed
  has its balance, and the issuance is the sum of them, all of it held by accounts.
\<close>

theorem genesis_balances:
  assumes "cfg_ok c" and "gc_dev_accounts g = None" and "genesis_build c key g empty_state = Some s"
    and "sum_list (map snd (gc_balances g)) \<le> u128_max"
  shows "total_issuance s = sum_list (map snd (gc_balances g)) \<and> circulating s = total_issuance s \<and>
    (\<forall>(w, n) \<in> set (gc_balances g). account w s = account_data_default\<lparr>free := n\<rparr>) \<and> sound c s"
  using genesis_build_ok [OF assms] by (simp add: issuance_gap_def)

theorem genesis_balances_witness:
  "\<exists>s. genesis_build ex_cfg (\<lambda>_. None) ex_genesis empty_state = Some s \<and> total_issuance s = 150 \<and>
     account 2 s = account_data_default\<lparr>free := 50\<rparr>"
proof -
  have run: "genesis_build ex_cfg (\<lambda>_. None) ex_genesis empty_state = Some ex_born"
    using ex_genesis_run by (auto simp: ex_born_def)
  have "gc_dev_accounts ex_genesis = None" "sum_list (map snd (gc_balances ex_genesis)) \<le> u128_max"
    by (simp_all add: ex_genesis_def u128_max_def)
  from genesis_balances [OF ex_cfg_ok this(1) run this(2)] run show ?thesis by (simp add: ex_genesis_def)
qed

text \<open>
  (C30) With development accounts the books start out wrong: the accounts get their balances and the issuance
  does not count them, so that it is short by all of them from the first block on.
\<close>

theorem dev_accounts_not_issued:
  assumes "cfg_ok c" and "ed c \<le> b" and "b \<le> u128_max" and "gc_balances g = []"
    and "gc_dev_accounts g = Some (n, b, Some d)" and "inj_on (\<lambda>i. key (replace_placeholder (decimal i) d)) {..<n}"
    and "genesis_build c key g empty_state = Some s"
  shows "total_issuance s = 0 \<and> circulating s = n * b \<and> 0 < n * b"
proof -
  let ?e = "empty_state\<lparr>total_issuance := 0\<rparr>"
  have inv: "bal_inv c ?e" using empty_inv [OF assms(1), of 0] by simp
  have run: "0 < n" "dev_loop c key b d [0..<n] ?e = Some s"
    using assms(4,5,7) by (auto simp: genesis_build_def derive_dev_account_def split: option.splits if_splits)
  have "distinct (map (\<lambda>i. key (replace_placeholder (decimal i) d)) [0..<n])"
    using assms(6) by (simp add: distinct_map atLeast0LessThan)
  moreover have "account w ?e = account_data_default" for w
    by (simp add: account_def stored_get_def get_info_def empty_state_def account_info_default_def)
  ultimately have "issuance_gap s = issuance_gap ?e - int (n * b) \<and> total_issuance s = 0"
    using dev_loop_gap [OF assms(2,3) inv run(2)] by simp
  moreover have "circulating ?e = 0" by (simp add: circulating_def map_sum_def empty_state_def)
  moreover have "0 < b" using assms(1,2) by (simp add: cfg_ok_def)
  ultimately have "int (circulating s) = int (n * b) \<and> total_issuance s = 0" by (simp add: issuance_gap_def)
  with run(1) \<open>0 < b\<close> show ?thesis by (simp only: of_nat_eq_iff) simp
qed

definition ex_dev :: genesis_config where
  "ex_dev = \<lparr>gc_balances = [], gc_dev_accounts = Some (3, 70, Some ''//{}'')\<rparr>"

definition ex_key :: "string \<Rightarrow> account_id option" where
  "ex_key u = (if length u = 3 then Some (of_char (u ! 2)) else None)"

lemma ex_dev_run: "genesis_build ex_cfg ex_key ex_dev empty_state \<noteq> None"
  by code_simp

theorem dev_accounts_not_issued_witness:
  "\<exists>s. genesis_build ex_cfg ex_key ex_dev empty_state = Some s \<and> total_issuance s = 0 \<and> circulating s = 210"
proof -
  obtain s where run: "genesis_build ex_cfg ex_key ex_dev empty_state = Some s" using ex_dev_run by blast
  have "distinct (map (\<lambda>i. ex_key (replace_placeholder (decimal i) ''//{}'')) [0..<3])" by code_simp
  then have "inj_on (\<lambda>i. ex_key (replace_placeholder (decimal i) ''//{}'')) {..<3}"
    by (simp only: distinct_map set_upt atLeast0LessThan)
  from dev_accounts_not_issued [OF ex_cfg_ok _ _ _ _ this run, of 70] run show ?thesis
    by (simp add: ex_dev_def u128_max_def)
qed

section \<open>Single calls\<close>

fun requires_root :: "'l call \<Rightarrow> bool" where
  "requires_root (ForceTransfer _ _ _) = True"
| "requires_root (ForceUnreserve _ _) = True"
| "requires_root (ForceSetBalance _ _) = True"
| "requires_root (ForceAdjustTotalIssuance _ _) = True"
| "requires_root _ = False"

text \<open>
  (C31) Only the right origin gets anything done: a call that changes the state was made by root where it is a
  forced one and by a signed account otherwise, and a call that fails leaves the state as it was.
\<close>

theorem dispatch_authorised:
  assumes "dispatch c lk o1 call s = (r, s')"
  shows "(requires_root call \<and> o1 \<noteq> Root \<longrightarrow> r = Inl DE_BadOrigin \<and> s' = s) \<and>
    (\<not> requires_root call \<and> (\<forall>who. o1 \<noteq> Signed who) \<longrightarrow> r = Inl DE_BadOrigin \<and> s' = s) \<and>
    (\<forall>e. r = Inl e \<longrightarrow> s' = s)"
proof (intro conjI impI allI)
  show "s' = s" if "r = Inl e" for e
    using assms that by (cases call) (auto dest: transactional_Inl)
  show "r = Inl DE_BadOrigin" "s' = s" if "requires_root call \<and> o1 \<noteq> Root"
    using assms that by (cases call; cases o1; simp add: force_transfer_def force_unreserve_def force_set_balance_def
        force_adjust_total_issuance_def ensure_root_def transactional_def ebind_def ethrow_def)+
  show "r = Inl DE_BadOrigin" "s' = s" if "\<not> requires_root call \<and> (\<forall>who. o1 \<noteq> Signed who)"
    using assms that by (cases call; cases o1; simp add: transfer_allow_death_def transfer_keep_alive_def transfer_all_def
        upgrade_accounts_def burn_def ensure_signed_def transactional_def ebind_def ethrow_def)+
qed

theorem dispatch_authorised_witness:
  "\<exists>s'. dispatch ex_cfg Some (Signed 1) (ForceSetBalance 2 1000) ex_state = (Inl DE_BadOrigin, s') \<and> s' = ex_state"
proof -
  obtain r s' where run: "dispatch ex_cfg Some (Signed 1) (ForceSetBalance 2 1000) ex_state = (r, s')" by (rule prod.exhaust)
  from dispatch_authorised [OF this] run show ?thesis by simp
qed

text \<open>
  (C32) Root sets a balance: the account ends with the balance, or with none where it would be below the
  existential deposit; its reserve and all other accounts stay; and the issuance moves by exactly the change
  of the balance.
\<close>

theorem force_set_balance_exact:
  assumes "sound c s" and "lk l = Some who" and "total_issuance s + (n - free (account who s)) \<le> u128_max"
    and "force_set_balance c lk o1 l n s = (Inr u, s')"
  shows "free (account who s') = (if n < ed c then 0 else n) \<and> reserved (account who s') = reserved (account who s) \<and>
    (\<forall>x. x \<noteq> who \<longrightarrow> account x s' = account x s) \<and>
    int (total_issuance s') - int (total_issuance s) = int (free (account who s')) - int (free (account who s)) \<and>
    sound c s'"
  using force_set_balance_ok [where lk = lk and l = l, OF assms] by simp

lemma ex_force_set: "fst (force_set_balance ex_cfg Some Root 1 40 ex_state) = Inr () \<and> free (account 1 ex_state) = 100"
  by code_simp

theorem force_set_balance_exact_witness:
  "\<exists>s'. force_set_balance ex_cfg Some Root 1 40 ex_state = (Inr (), s') \<and> free (account 1 s') = 40 \<and>
     total_issuance s' = 125"
proof -
  obtain s' where run: "force_set_balance ex_cfg Some Root 1 40 ex_state = (Inr (), s')"
    using ex_force_set by (metis prod.collapse)
  have ti: "total_issuance ex_state = 185" by (simp add: ex_state_def)
  from force_set_balance_exact [OF ex_sound _ _ run, of 1] ex_force_set ti run show ?thesis by (simp add: u128_max_def)
qed

text \<open>
  Upgrading accounts is free of charge exactly when at least nine in ten of the listed accounts did need
  the upgrade: the rounding of the proportion to parts per billion never changes the answer.
\<close>

lemma upgrade_loop_count: "upgrade_loop c is n s = (m, s') \<Longrightarrow> n \<le> u32_max \<Longrightarrow> m \<le> n + length is \<and> m \<le> u32_max"
  by (induction "is" arbitrary: n s)
    (auto simp: sat_add_def Let_def split: prod.splits if_splits dest!: spec, fastforce+)

theorem upgrade_accounts_free:
  assumes "upgrade_loop c who 0 s = (n, s')" and "who \<noteq> []" and "length who \<le> u32_max"
  shows "upgrade_accounts c (Signed signer) who s =
    (Inr (if 9 * length who \<le> 10 * n then Pays_No else Pays_Yes), s')"
proof -
  let ?k = "length who"
  have n: "n \<le> ?k" using upgrade_loop_count [OF assms(1)] by simp
  have k: "0 < ?k" using assms(2) by simp
  have "pt_accuracy perbill \<le> u32_max" by (simp add: perbill_def u32_max_def)
  from mr_u32.from_rational_correct(1) [OF per_things_ok(4) this n assms(3) k, of R_Down]
  have "from_rational perbill (multiply_rational_low u32_max) n ?k = 1000000000 * n div ?k"
    by (simp add: from_rational_def rounded_div_def perbill_def)
  moreover have "from_percent perbill 90 = 900000000"
    using from_percent_exact [OF per_things_ok(4), of 90] by (simp add: perbill_def)
  moreover have "900000000 \<le> 1000000000 * n div ?k \<longleftrightarrow> 9 * ?k \<le> 10 * n"
    using k by (simp add: less_eq_div_iff_mult_less_eq)
  ultimately show ?thesis
    using assms by (simp add: upgrade_accounts_def ensure_signed_def ebind_def eret_def elift_def)
qed

definition ex_old :: bal_state where
  "ex_old = ex_state\<lparr>sys_account := [1 \<mapsto> (ex_info 1 0 100 0)\<lparr>ai_data := \<lparr>free = 100, reserved = 0, frozen = 0, flags = 0\<rparr>\<rparr>]\<rparr>"

lemma ex_upgrade_loop: "fst (upgrade_loop ex_cfg [1] 0 ex_old) = 1"
  by code_simp

theorem upgrade_accounts_free_witness: "fst (upgrade_accounts ex_cfg (Signed 5) [1] ex_old) = Inr Pays_No"
proof -
  obtain s' where run: "upgrade_loop ex_cfg [1] 0 ex_old = (1, s')" using ex_upgrade_loop by (metis prod.collapse)
  from upgrade_accounts_free [OF run, of 5] show ?thesis by (simp add: u32_max_def)
qed

end
