(* ===== verification/Arith_Props.thy ===== *)
theory Arith_Props
  imports Per_Things
begin

text \<open>
  The properties of the 128-bit arithmetic and of the per-things: the routines that avoid overflow compute the
  rounded results of the plain arithmetic.
\<close>

section \<open>128-bit arithmetic\<close>

text \<open>
  The product of two 128-bit numbers, assembled from four products of halves and the carries of the
  additions, is their product: nothing is lost in 256 bits.
\<close>

theorem product_of_exact: "double_val (product_of a b) = unat a * unat b"
  by (rule product_of_val)

text \<open>
  (C33) The division of a 256-bit number by a 128-bit one, which guesses quotients and iterates, gives the
  quotient and the remainder.
\<close>

theorem double_div_exact:
  assumes "b \<noteq> 0" and "double_div d b = (q, r)"
  shows "double_val d = double_val q * unat b + unat r \<and> unat r < unat b"
  using double_div_correct [OF assms] unat_pos [OF assms(1)] by simp

theorem double_div_exact_witness:
  "\<exists>q r. double_div \<lparr>d_high = 3, d_low = 7\<rparr> 10 = (q, r) \<and> 3 * 2 ^ 128 + 7 = double_val q * 10 + unat r \<and> unat r < 10"
proof -
  obtain q r where run: "double_div \<lparr>d_high = 3, d_low = 7\<rparr> 10 = (q, r)" by (rule prod.exhaust)
  from double_div_exact [OF _ run] run show ?thesis by (simp add: double_val_def)
qed

text \<open>
  (C34) Multiplying by a fraction: the result is the exact product divided by the denominator, rounded as asked,
  and nothing exactly when the denominator is zero or the rounded result does not fit into 128 bits.
\<close>

theorem multiply_by_rational_exact:
  "multiply_by_rational_with_rounding a b c r =
     (if c = 0 \<or> 2 ^ 128 \<le> rounded_div r (unat a * unat b) (unat c) then None
      else Some (word_of_nat (rounded_div r (unat a * unat b) (unat c))))"
  by (rule multiply_by_rational_correct)

text \<open>
  (C35) The square root by bits is the integer square root: its square does not exceed the number, and that of
  its successor does.
\<close>

theorem sqrt_exact: "unat (sqrt n) ^ 2 \<le> unat n \<and> unat n < (unat (sqrt n) + 1) ^ 2"
  using sqrt_correct [of n] by (simp add: power2_eq_square)

section \<open>Per-things\<close>

text \<open>
  (C36) Taking a part of a number of any width: the routine that never multiplies beyond the width of the number
  computes the part of the exact product, rounded as asked, and never more than the number.
\<close>

theorem overflow_prune_mul_exact:
  assumes "P \<in> {percent, per_u16, permill, perbill, perquintill}" and "part \<le> pt_accuracy P" and "x \<le> nmax"
  shows "overflow_prune_mul P nmax x part r = rounded_div r (x * part) (pt_accuracy P) \<and>
    overflow_prune_mul P nmax x part r \<le> x"
proof -
  have "per_thing_ok P" using assms(1) per_things_ok by auto
  from overflow_prune_mul_correct [OF this assms(2,3)] show ?thesis by simp
qed

theorem overflow_prune_mul_exact_witness:
  "overflow_prune_mul perbill u128_max u128_max 333333333 R_Up = rounded_div R_Up (u128_max * 333333333) 1000000000"
  using overflow_prune_mul_exact [of perbill 333333333 u128_max u128_max R_Up] by (simp add: perbill_def)

text \<open>
  Dividing a number by a part: the result is the exact quotient, rounded as asked and saturated at the
  largest number of its width.
\<close>

theorem reciprocal_mul_exact:
  assumes "P \<in> {percent, per_u16, permill, perbill, perquintill}" and "0 < part" and "part \<le> pt_accuracy P"
  shows "saturating_reciprocal_mul P nmax x part r = Some (min nmax (rounded_div r (x * pt_accuracy P) part))"
proof -
  have "per_thing_ok P" using assms(1) per_things_ok by auto
  from saturating_reciprocal_mul_correct [OF this assms(3,2)] show ?thesis .
qed

theorem reciprocal_mul_exact_witness:
  "saturating_reciprocal_mul percent 255 200 50 R_Down = Some 255"
  using reciprocal_mul_exact [of percent 50 255 200 R_Down] by (simp add: percent_def rounded_div_def)

text \<open>
  (C37) The nearest part to a fraction of 128-bit numbers, however large the two are: the exact quotient, rounded
  as asked, which is never more than one.
\<close>

theorem from_rational_exact:
  assumes "P \<in> {percent, per_u16, permill, perbill, perquintill}" and "p \<le> q" and "q \<le> u128_max" and "0 < q"
  shows "from_rational_with_rounding P multiply_rational_u128 p q r = Some (rounded_div r (pt_accuracy P * p) q) \<and>
    rounded_div r (pt_accuracy P * p) q \<le> pt_accuracy P"
proof -
  have "per_thing_ok P" using assms(1) per_things_ok by auto
  moreover have "pt_accuracy P \<le> u128_max"
    using assms(1) by (auto simp: percent_def per_u16_def permill_def perbill_def perquintill_def u128_max_def)
  ultimately show ?thesis using mr_u128.from_rational_correct [OF _ _ assms(2-4)] by simp
qed

theorem from_rational_exact_witness:
  "from_rational_with_rounding percent multiply_rational_u128 1 3 R_Up = Some 34"
  using from_rational_exact [of percent 1 3 R_Up] by (simp add: percent_def rounded_div_def u128_max_def)


end
