(* ===== verification/Vesting.thy ===== *)
theory Vesting
  imports Balances_Calls
begin

text \<open>
  The vesting pallet (\<^verbatim>\<open>substrate/frame/vesting/src/lib.rs\<close> and \<^verbatim>\<open>vesting_info.rs\<close>).

  \<^item> The pallet is written against a \<open>LockableCurrency\<close>: here a record of the operations it calls, with the
    locale \<open>lockable_laws\<close> for what it relies on. The balances pallet provides it (\<open>balances_lockable\<close>).
  \<^item> The current block number and the conversion of block numbers to balances are parameters of the runtime.
  \<^item> A schedule unlocks \<open>per_block\<close> units with every block after its start; an account may have several of them,
    and a single lock of the currency covers what is not vested.
\<close>

section \<open>Schedules\<close>

type_synonym block_number = nat

record vesting_info =
  vi_locked :: balance
  vi_per_block :: balance
  vi_starting_block :: block_number

definition is_valid :: "vesting_info \<Rightarrow> bool" where
  "is_valid v \<longleftrightarrow> vi_locked v \<noteq> 0 \<and> vi_per_block v \<noteq> 0"

definition per_block :: "vesting_info \<Rightarrow> balance" where
  "per_block v = max (vi_per_block v) 1"

definition locked_at :: "(block_number \<Rightarrow> balance) \<Rightarrow> vesting_info \<Rightarrow> block_number \<Rightarrow> balance" where
  "locked_at convert v n =
     (let vested_block_count = convert (n - vi_starting_block v)
      in case checked_mul u128_max vested_block_count (per_block v) of
           Some to_unlock \<Rightarrow> vi_locked v - to_unlock
         | None \<Rightarrow> 0)"

definition ending_block_as_balance :: "(block_number \<Rightarrow> balance) \<Rightarrow> vesting_info \<Rightarrow> balance" where
  "ending_block_as_balance convert v =
     (let starting_block = convert (vi_starting_block v);
          duration = (if per_block v \<ge> vi_locked v then 1
                      else vi_locked v div per_block v + (if vi_locked v mod per_block v = 0 then 0 else 1))
      in sat_add u128_max starting_block duration)"

section \<open>The pallet\<close>

definition VESTING_ID :: lock_id where
  "VESTING_ID = 8531352012945516320"

datatype vesting_error = NotVesting | AtMaxVestingSchedules | AmountLow | ScheduleIndexOutOfBounds | InvalidScheduleParams

datatype vesting_event =
    VestingCreated account_id nat
  | VestingUpdated account_id balance
  | VestingCompleted account_id

datatype vesting_action = Passive | Remove nat | Merge nat nat

fun should_remove :: "vesting_action \<Rightarrow> nat \<Rightarrow> bool" where
  "should_remove Passive index = False"
| "should_remove (Remove index1) index = (index1 = index)"
| "should_remove (Merge index1 index2) index = (index1 = index \<or> index2 = index)"

definition pick_schedules :: "vesting_action \<Rightarrow> 'v list \<Rightarrow> 'v list" where
  "pick_schedules action schedules =
     map snd (filter (\<lambda>(index, _). \<not> should_remove action index) (List.enumerate 0 schedules))"

record 's lockable_ops =
  lo_free_balance :: "account_id \<Rightarrow> 's \<Rightarrow> balance"
  lo_transfer :: "account_id \<Rightarrow> account_id \<Rightarrow> balance \<Rightarrow> existence_requirement \<Rightarrow> ('s, dispatch_error, unit) em"
  lo_set_lock :: "lock_id \<Rightarrow> account_id \<Rightarrow> balance \<Rightarrow> withdraw_reasons \<Rightarrow> 's \<Rightarrow> 's"
  lo_remove_lock :: "lock_id \<Rightarrow> account_id \<Rightarrow> 's \<Rightarrow> 's"

record vesting_config =
  block_number_to_balance :: "block_number \<Rightarrow> balance"
  min_vested_transfer :: balance
  unvested_allowed :: withdraw_reasons
  max_vesting_schedules :: nat

record 's vest_state =
  cur :: 's
  vesting :: "account_id \<rightharpoonup> vesting_info list"
  v_events :: "vesting_event list"

type_synonym ('s, 'a) vest_em = "('s vest_state, vesting_error pallet_error, 'a) em"

definition in_cur :: "('s \<Rightarrow> 's) \<Rightarrow> 's vest_state \<Rightarrow> 's vest_state" where
  "in_cur f st = st\<lparr>cur := f (cur st)\<rparr>"

definition ecur :: "('s, dispatch_error, 'a) em \<Rightarrow> ('s, 'a) vest_em" where
  "ecur = ezoom cur (\<lambda>t st. st\<lparr>cur := t\<rparr>) PD"

definition v_event :: "vesting_event \<Rightarrow> 's vest_state \<Rightarrow> 's vest_state" where
  "v_event e st = st\<lparr>v_events := v_events st @ [e]\<rparr>"

definition merge_vesting_info ::
  "(block_number \<Rightarrow> balance) \<Rightarrow> block_number \<Rightarrow> vesting_info \<Rightarrow> vesting_info \<Rightarrow> vesting_info option" where
  "merge_vesting_info convert now schedule1 schedule2 =
     (let schedule1_ending_block = ending_block_as_balance convert schedule1;
          schedule2_ending_block = ending_block_as_balance convert schedule2;
          now_as_balance = convert now in
      case (schedule1_ending_block \<le> now_as_balance, schedule2_ending_block \<le> now_as_balance) of
        (True, True) \<Rightarrow> None
      | (True, False) \<Rightarrow> Some schedule2
      | (False, True) \<Rightarrow> Some schedule1
      | (False, False) \<Rightarrow>
          (let locked = sat_add u128_max (locked_at convert schedule1 now) (locked_at convert schedule2 now);
               ending_block = max schedule1_ending_block schedule2_ending_block;
               starting_block = max (max now (vi_starting_block schedule1)) (vi_starting_block schedule2);
               duration = max (ending_block - convert starting_block) 1;
               per_block = max (locked div duration) 1
           in Some \<lparr>vi_locked = locked, vi_per_block = per_block, vi_starting_block = starting_block\<rparr>))"

definition report_schedule_updates ::
  "(block_number \<Rightarrow> balance) \<Rightarrow> block_number \<Rightarrow> vesting_info list \<Rightarrow> vesting_action \<Rightarrow> vesting_info list \<times> balance" where
  "report_schedule_updates convert now schedules action =
     (let filtered_schedules = filter (\<lambda>v. locked_at convert v now \<noteq> 0) (pick_schedules action schedules)
      in (filtered_schedules,
          fold (\<lambda>v total. sat_add u128_max total (locked_at convert v now)) filtered_schedules 0))"

definition nth_option :: "'a list \<Rightarrow> nat \<Rightarrow> 'a option" where
  "nth_option xs i = (if i < length xs then Some (xs ! i) else None)"

definition exec_action ::
  "(block_number \<Rightarrow> balance) \<Rightarrow> block_number \<Rightarrow> vesting_info list \<Rightarrow> vesting_action
     \<Rightarrow> ('s, vesting_info list \<times> balance) vest_em" where
  "exec_action convert now schedules action =
     (case action of
        Merge idx1 idx2 \<Rightarrow>
          ebind (eoption (nth_option schedules idx1) (PE ScheduleIndexOutOfBounds)) (\<lambda>schedule1.
          ebind (eoption (nth_option schedules idx2) (PE ScheduleIndexOutOfBounds)) (\<lambda>schedule2.
          let (schedules', locked_now) = report_schedule_updates convert now schedules action in
          eret (case merge_vesting_info convert now schedule1 schedule2 of
                  Some new_schedule \<Rightarrow>
                    (schedules' @ [new_schedule], sat_add u128_max locked_now (locked_at convert new_schedule now))
                | None \<Rightarrow> (schedules', locked_now))))
      | _ \<Rightarrow> eret (report_schedule_updates convert now schedules action))"

definition write_lock ::
  "'s lockable_ops \<Rightarrow> vesting_config \<Rightarrow> account_id \<Rightarrow> balance \<Rightarrow> 's vest_state \<Rightarrow> 's vest_state" where
  "write_lock L vc who total_locked_now st =
     (if total_locked_now = 0
      then v_event (VestingCompleted who) (in_cur (lo_remove_lock L VESTING_ID who) st)
      else let reasons = withdraw_reasons_except (unvested_allowed vc)
           in v_event (VestingUpdated who total_locked_now)
                (in_cur (lo_set_lock L VESTING_ID who total_locked_now reasons) st))"

definition write_vesting ::
  "vesting_config \<Rightarrow> account_id \<Rightarrow> vesting_info list \<Rightarrow> ('s, unit) vest_em" where
  "write_vesting vc who schedules =
     ebind (eensure (length schedules \<le> max_vesting_schedules vc) (PE AtMaxVestingSchedules)) (\<lambda>_.
     emod (\<lambda>st. st\<lparr>vesting := (vesting st)(who := if length schedules = 0 then None else Some schedules)\<rparr>))"

text \<open>The four functions that update an account end in the same way.\<close>

definition act ::
  "'s lockable_ops \<Rightarrow> vesting_config \<Rightarrow> block_number \<Rightarrow> account_id \<Rightarrow> vesting_info list \<Rightarrow> vesting_action \<Rightarrow> ('s, unit) vest_em" where
  "act L vc now who schedules action =
     ebind (exec_action (block_number_to_balance vc) now schedules action) (\<lambda>(schedules', locked_now).
     ebind (write_vesting vc who schedules') (\<lambda>_.
     emod (write_lock L vc who locked_now)))"

definition do_vest :: "'s lockable_ops \<Rightarrow> vesting_config \<Rightarrow> block_number \<Rightarrow> account_id \<Rightarrow> ('s, unit) vest_em" where
  "do_vest L vc now who =
     ebind (eget (\<lambda>st. vesting st who)) (\<lambda>o1.
     ebind (eoption o1 (PE NotVesting)) (\<lambda>schedules.
     act L vc now who schedules Passive))"

definition add_vesting_schedule ::
  "'s lockable_ops \<Rightarrow> vesting_config \<Rightarrow> block_number \<Rightarrow> account_id \<Rightarrow> balance \<Rightarrow> balance \<Rightarrow> block_number
     \<Rightarrow> ('s, unit) vest_em" where
  "add_vesting_schedule L vc now who locked pb starting_block =
     (if locked = 0 then eret ()
      else
        let vesting_schedule = \<lparr>vi_locked = locked, vi_per_block = pb, vi_starting_block = starting_block\<rparr> in
        ebind (eensure (is_valid vesting_schedule) (PE InvalidScheduleParams)) (\<lambda>_.
        ebind (eget (\<lambda>st. case vesting st who of None \<Rightarrow> [] | Some ss \<Rightarrow> ss)) (\<lambda>schedules.
        ebind (eensure (length schedules < max_vesting_schedules vc) (PE AtMaxVestingSchedules)) (\<lambda>_.
        let schedules' = schedules @ [vesting_schedule] in
        ebind (emod (v_event (VestingCreated who (length schedules' - 1)))) (\<lambda>_.
        act L vc now who schedules' Passive)))))"

definition can_add_vesting_schedule ::
  "vesting_config \<Rightarrow> account_id \<Rightarrow> balance \<Rightarrow> balance \<Rightarrow> block_number \<Rightarrow> ('s, unit) vest_em" where
  "can_add_vesting_schedule vc who locked pb starting_block =
     ebind (eensure (is_valid \<lparr>vi_locked = locked, vi_per_block = pb, vi_starting_block = starting_block\<rparr>)
              (PE InvalidScheduleParams)) (\<lambda>_.
     ebind (eget (\<lambda>st. case vesting st who of None \<Rightarrow> 0 | Some ss \<Rightarrow> length ss)) (\<lambda>n.
     eensure (n < max_vesting_schedules vc) (PE AtMaxVestingSchedules)))"

definition do_vested_transfer ::
  "'s lockable_ops \<Rightarrow> vesting_config \<Rightarrow> block_number \<Rightarrow> account_id \<Rightarrow> account_id \<Rightarrow> vesting_info \<Rightarrow> ('s, unit) vest_em" where
  "do_vested_transfer L vc now source target schedule =
     ebind (eensure (vi_locked schedule \<ge> min_vested_transfer vc) (PE AmountLow)) (\<lambda>_.
     ebind (eensure (is_valid schedule) (PE InvalidScheduleParams)) (\<lambda>_.
     ebind (can_add_vesting_schedule vc target (vi_locked schedule) (per_block schedule) (vi_starting_block schedule)) (\<lambda>_.
     ebind (ecur (lo_transfer L source target (vi_locked schedule) AllowDeath)) (\<lambda>_.
     ebind (eresult (add_vesting_schedule L vc now target (vi_locked schedule) (per_block schedule) (vi_starting_block schedule))) (\<lambda>_.
     eret ())))))"

definition remove_vesting_schedule ::
  "'s lockable_ops \<Rightarrow> vesting_config \<Rightarrow> block_number \<Rightarrow> account_id \<Rightarrow> nat \<Rightarrow> ('s, unit) vest_em" where
  "remove_vesting_schedule L vc now who schedule_index =
     ebind (eget (\<lambda>st. vesting st who)) (\<lambda>o1.
     ebind (eoption o1 (PE NotVesting)) (\<lambda>schedules.
     act L vc now who schedules (Remove schedule_index)))"

definition vesting_balance ::
  "'s lockable_ops \<Rightarrow> vesting_config \<Rightarrow> block_number \<Rightarrow> account_id \<Rightarrow> 's vest_state \<Rightarrow> balance option" where
  "vesting_balance L vc now who st =
     (case vesting st who of
        Some v \<Rightarrow>
          (let total_locked_now =
                 fold (\<lambda>schedule total. sat_add u128_max (locked_at (block_number_to_balance vc) schedule now) total) v 0
           in Some (min (lo_free_balance L who (cur st)) total_locked_now))
      | None \<Rightarrow> None)"

text \<open>The payout of another pallet over a duration.\<close>

definition vested_payout ::
  "'s lockable_ops \<Rightarrow> vesting_config \<Rightarrow> block_number \<Rightarrow> account_id \<Rightarrow> account_id \<Rightarrow> balance \<Rightarrow> block_number
     \<Rightarrow> block_number option \<Rightarrow> ('s, unit) vest_em" where
  "vested_payout L vc now source dest amount duration start_at =
     (if amount = 0 then eret ()
      else if duration = 0 then ecur (lo_transfer L source dest amount AllowDeath)
      else
        let starting_block = (case start_at of Some b \<Rightarrow> b | None \<Rightarrow> now);
            duration_as_balance = block_number_to_balance vc duration;
            per_block = max ((sat_add u128_max amount duration_as_balance - 1) div duration_as_balance) 1
        in do_vested_transfer L vc now source dest
             \<lparr>vi_locked = amount, vi_per_block = per_block, vi_starting_block = starting_block\<rparr>)"

text \<open>The transfer on behalf of another pallet runs in a storage layer of its own.\<close>

definition vested_transfer_for ::
  "'s lockable_ops \<Rightarrow> vesting_config \<Rightarrow> block_number \<Rightarrow> account_id \<Rightarrow> account_id \<Rightarrow> balance \<Rightarrow> balance \<Rightarrow> block_number
     \<Rightarrow> ('s, unit) vest_em" where
  "vested_transfer_for L vc now source target locked pb starting_block =
     transactional (do_vested_transfer L vc now source target
       \<lparr>vi_locked = locked, vi_per_block = pb, vi_starting_block = starting_block\<rparr>)"

section \<open>Dispatchables\<close>

datatype 'l vesting_call =
    Vest
  | VestOther 'l
  | VestedTransfer 'l vesting_info
  | ForceVestedTransfer 'l 'l vesting_info
  | MergeSchedules nat nat
  | ForceRemoveVestingSchedule 'l nat

definition vest :: "'s lockable_ops \<Rightarrow> vesting_config \<Rightarrow> block_number \<Rightarrow> raw_origin \<Rightarrow> ('s, unit) vest_em" where
  "vest L vc now origin = ebind (ecur (ensure_signed origin)) (do_vest L vc now)"

definition vest_other ::
  "'s lockable_ops \<Rightarrow> vesting_config \<Rightarrow> ('l \<Rightarrow> account_id option) \<Rightarrow> block_number \<Rightarrow> raw_origin \<Rightarrow> 'l \<Rightarrow> ('s, unit) vest_em" where
  "vest_other L vc lk now origin target =
     ebind (ecur (ensure_signed origin)) (\<lambda>_.
     ebind (ecur (elookup lk target)) (do_vest L vc now))"

definition vested_transfer ::
  "'s lockable_ops \<Rightarrow> vesting_config \<Rightarrow> ('l \<Rightarrow> account_id option) \<Rightarrow> block_number \<Rightarrow> raw_origin \<Rightarrow> 'l \<Rightarrow> vesting_info
     \<Rightarrow> ('s, unit) vest_em" where
  "vested_transfer L vc lk now origin target0 schedule =
     ebind (ecur (ensure_signed origin)) (\<lambda>transactor.
     ebind (ecur (elookup lk target0)) (\<lambda>target.
     do_vested_transfer L vc now transactor target schedule))"

definition force_vested_transfer ::
  "'s lockable_ops \<Rightarrow> vesting_config \<Rightarrow> ('l \<Rightarrow> account_id option) \<Rightarrow> block_number \<Rightarrow> raw_origin \<Rightarrow> 'l \<Rightarrow> 'l \<Rightarrow> vesting_info
     \<Rightarrow> ('s, unit) vest_em" where
  "force_vested_transfer L vc lk now origin source0 target0 schedule =
     ebind (ecur (ensure_root origin)) (\<lambda>_.
     ebind (ecur (elookup lk target0)) (\<lambda>target.
     ebind (ecur (elookup lk source0)) (\<lambda>source.
     do_vested_transfer L vc now source target schedule)))"

definition merge_schedules ::
  "'s lockable_ops \<Rightarrow> vesting_config \<Rightarrow> block_number \<Rightarrow> raw_origin \<Rightarrow> nat \<Rightarrow> nat \<Rightarrow> ('s, unit) vest_em" where
  "merge_schedules L vc now origin schedule1_index schedule2_index =
     ebind (ecur (ensure_signed origin)) (\<lambda>who.
     if schedule1_index = schedule2_index then eret ()
     else
       ebind (eget (\<lambda>st. vesting st who)) (\<lambda>o1.
       ebind (eoption o1 (PE NotVesting)) (\<lambda>schedules.
       act L vc now who schedules (Merge schedule1_index schedule2_index))))"

definition force_remove_vesting_schedule ::
  "'s lockable_ops \<Rightarrow> vesting_config \<Rightarrow> ('l \<Rightarrow> account_id option) \<Rightarrow> block_number \<Rightarrow> raw_origin \<Rightarrow> 'l \<Rightarrow> nat \<Rightarrow> ('s, unit) vest_em" where
  "force_remove_vesting_schedule L vc lk now origin target schedule_index =
     ebind (ecur (ensure_root origin)) (\<lambda>_.
     ebind (ecur (elookup lk target)) (\<lambda>who.
     ebind (eget (\<lambda>st. case vesting st who of None \<Rightarrow> 0 | Some ss \<Rightarrow> length ss)) (\<lambda>schedules_count.
     ebind (eensure (schedule_index < schedules_count) (PE InvalidScheduleParams)) (\<lambda>_.
     remove_vesting_schedule L vc now who schedule_index))))"

fun vesting_dispatch ::
  "'s lockable_ops \<Rightarrow> vesting_config \<Rightarrow> ('l \<Rightarrow> account_id option) \<Rightarrow> block_number \<Rightarrow> raw_origin \<Rightarrow> 'l vesting_call
     \<Rightarrow> ('s, unit) vest_em" where
  "vesting_dispatch L vc lk now o1 Vest = transactional (vest L vc now o1)"
| "vesting_dispatch L vc lk now o1 (VestOther target) = transactional (vest_other L vc lk now o1 target)"
| "vesting_dispatch L vc lk now o1 (VestedTransfer target schedule) =
     transactional (vested_transfer L vc lk now o1 target schedule)"
| "vesting_dispatch L vc lk now o1 (ForceVestedTransfer source target schedule) =
     transactional (force_vested_transfer L vc lk now o1 source target schedule)"
| "vesting_dispatch L vc lk now o1 (MergeSchedules i j) = transactional (merge_schedules L vc now o1 i j)"
| "vesting_dispatch L vc lk now o1 (ForceRemoveVestingSchedule target i) =
     transactional (force_remove_vesting_schedule L vc lk now o1 target i)"

section \<open>Genesis\<close>

text \<open>A panic is \<open>None\<close>.\<close>

fun vesting_genesis ::
  "'s lockable_ops \<Rightarrow> vesting_config \<Rightarrow> (account_id \<times> block_number \<times> block_number \<times> balance) list
     \<Rightarrow> 's vest_state \<Rightarrow> 's vest_state option" where
  "vesting_genesis L vc [] st = Some st"
| "vesting_genesis L vc ((who, begin, len, liquid) # vs) st =
     (let balance = lo_free_balance L who (cur st) in
      if balance = 0 then None
      else
        let locked = balance - liquid;
            length_as_balance = block_number_to_balance vc len;
            per_block = locked div max length_as_balance 1;
            info = \<lparr>vi_locked = locked, vi_per_block = per_block, vi_starting_block = begin\<rparr>;
            old = (case vesting st who of None \<Rightarrow> [] | Some ss \<Rightarrow> ss)
        in if \<not> is_valid info then None
           else if \<not> length old < max_vesting_schedules vc then None
           else
             let reasons = withdraw_reasons_except (unvested_allowed vc)
             in vesting_genesis L vc vs
                  (in_cur (lo_set_lock L VESTING_ID who locked reasons)
                    (st\<lparr>vesting := (vesting st)(who \<mapsto> old @ [info])\<rparr>)))"

definition vesting_integrity_test :: "vesting_config \<Rightarrow> bool" where
  "vesting_integrity_test vc \<longleftrightarrow> max_vesting_schedules vc > 0"

section \<open>What a schedule locks\<close>

lemma locked_at_eq:
  "vi_locked v \<le> u128_max \<Longrightarrow> locked_at convert v n = vi_locked v - convert (n - vi_starting_block v) * per_block v"
  by (auto simp: locked_at_def Let_def split: option.split)

lemma locked_at_le: "locked_at convert v n \<le> vi_locked v"
  by (auto simp: locked_at_def Let_def split: option.split)

lemma locked_at_antimono:
  assumes "mono convert" and "m \<le> n"
  shows "locked_at convert v n \<le> locked_at convert v m"
proof -
  define a b where "a = convert (m - vi_starting_block v) * per_block v" and "b = convert (n - vi_starting_block v) * per_block v"
  have "a \<le> b" using assms by (auto simp: a_def b_def monoD)
  then show ?thesis
    by (auto simp: locked_at_def Let_def a_def [symmetric] b_def [symmetric] checked_mul_def)
qed

lemma ceil_div_le:
  fixes l p k :: nat
  assumes "0 < p"
  shows "l \<le> k * p \<longleftrightarrow> (if l mod p = 0 then l div p \<le> k else l div p < k)"
proof (cases "l mod p = 0")
  case True
  then have "l = l div p * p" using div_mult_mod_eq [of l p] by simp
  then show ?thesis using assms True by (metis mult_le_cancel2 neq0_conv)
next
  case False
  then have "l \<noteq> k * p" by auto
  then have "l \<le> k * p \<longleftrightarrow> l < k * p" by auto
  with False assms show ?thesis by (simp add: less_mult_imp_div_less div_less_iff_less_mult)
qed

lemma ended_unlocked:
  assumes "convert = (\<lambda>n. n)" and "is_valid v" and "now < u128_max"
  shows "ending_block_as_balance convert v \<le> now \<longleftrightarrow> vi_locked v \<le> (now - vi_starting_block v) * per_block v"
proof -
  let ?p = "per_block v" and ?l = "vi_locked v" and ?b = "vi_starting_block v"
  have p: "0 < ?p" and l: "0 < ?l" using assms(2) by (simp_all add: per_block_def is_valid_def)
  define d where "d = (if ?p \<ge> ?l then 1 else ?l div ?p + (if ?l mod ?p = 0 then 0 else 1))"
  have d: "d \<le> k \<longleftrightarrow> ?l \<le> k * ?p" for k
  proof (cases "?p \<ge> ?l")
    case True
    then show ?thesis using l by (cases k) (auto simp: d_def)
  next
    case False
    have "?l \<le> k * ?p \<longleftrightarrow> (if ?l mod ?p = 0 then ?l div ?p \<le> k else ?l div ?p < k)"
      using p by (rule ceil_div_le)
    with False show ?thesis by (simp add: d_def Suc_le_eq)
  qed
  have "0 < d" using l by (auto simp: d_def div_greater_zero_iff)
  then have "?b + d \<le> now \<longleftrightarrow> d \<le> now - ?b" by auto
  moreover have "ending_block_as_balance convert v \<le> now \<longleftrightarrow> ?b + d \<le> now"
    using assms(1,3) by (auto simp: ending_block_as_balance_def d_def [symmetric] sat_add_def Let_def)
  ultimately show ?thesis using d by simp
qed

lemma ended_locked_at:
  assumes "convert = (\<lambda>n. n)" and "is_valid v" and "now < u128_max" and "vi_locked v \<le> u128_max"
  shows "ending_block_as_balance convert v \<le> now \<longleftrightarrow> locked_at convert v now = 0"
  using ended_unlocked [OF assms(1-3)] locked_at_eq [OF assms(4), of convert now] assms(1) by simp

definition unvested :: "(block_number \<Rightarrow> balance) \<Rightarrow> block_number \<Rightarrow> vesting_info list \<Rightarrow> nat" where
  "unvested convert now ss = (\<Sum>v \<leftarrow> ss. locked_at convert v now)"

lemma unvested_simps [simp]:
  "unvested convert now [] = 0"
  "unvested convert now (v # ss) = locked_at convert v now + unvested convert now ss"
  "unvested convert now (ss @ ts) = unvested convert now ss + unvested convert now ts"
  by (simp_all add: unvested_def)

lemma unvested_antimono:
  assumes "mono convert" and "m \<le> n"
  shows "unvested convert n ss \<le> unvested convert m ss"
  using locked_at_antimono [OF assms] by (simp add: unvested_def sum_list_mono)

lemma unvested_filter [simp]:
  "unvested convert now (filter (\<lambda>v. locked_at convert v now \<noteq> 0) ss) = unvested convert now ss"
  "unvested convert now (filter (\<lambda>v. 0 < locked_at convert v now) ss) = unvested convert now ss"
  by (induction ss) auto

lemma fold_sat_add:
  "a \<le> m \<Longrightarrow> fold (\<lambda>v total. sat_add m total (f v)) xs a = min m (a + (\<Sum>v \<leftarrow> xs. f v))"
  by (induction xs arbitrary: a) (auto simp: sat_add_def min_def add_ac)

lemma pick_Passive [simp]: "pick_schedules Passive ss = ss"
  by (simp add: pick_schedules_def)

lemma length_pick: "length (pick_schedules a ss) \<le> length ss"
  using length_filter_le [of _ "List.enumerate 0 ss"] by (simp add: pick_schedules_def)

lemma set_pick: "set (pick_schedules a ss) \<subseteq> set ss"
  unfolding pick_schedules_def by (auto simp: in_set_enumerate_eq)

lemma report_schedules:
  assumes "report_schedule_updates convert now ss action = (ss', tot)"
  shows "ss' = filter (\<lambda>v. locked_at convert v now \<noteq> 0) (pick_schedules action ss)"
    and "tot = min u128_max (unvested convert now ss')"
  using assms fold_sat_add [of 0 u128_max "\<lambda>v. locked_at convert v now"]
  by (auto simp: report_schedule_updates_def Let_def unvested_def)

lemma exec_action_total:
  assumes "exec_action convert now ss action st = (Inr (ss', tot), st')"
  shows "st' = st \<and> tot = min u128_max (unvested convert now ss')"
proof (cases action)
  case (Merge i j)
  obtain fs t where r: "report_schedule_updates convert now ss action = (fs, t)" by (rule prod.exhaust)
  note R = report_schedules [OF r]
  from assms show ?thesis
    using R(2) by (auto simp: exec_action_def Merge [symmetric] r sat_add_def split: vesting_action.splits option.splits)
       (auto simp: exec_action_def Merge r [unfolded Merge] sat_add_def min_def split: option.splits)
qed (use assms report_schedules(2) in \<open>auto simp: exec_action_def\<close>)

section \<open>What the pallet relies on\<close>

locale lockable_laws =
  fixes ops :: "'c \<Rightarrow> 's lockable_ops" and inv :: "'c \<Rightarrow> 's \<Rightarrow> bool"
    and locked_of :: "lock_id \<Rightarrow> account_id \<Rightarrow> 's \<Rightarrow> balance"
  assumes set_lock_law: "inv c s \<Longrightarrow> amount \<le> u128_max \<Longrightarrow> reasons \<noteq> 0 \<Longrightarrow>
      inv c (lo_set_lock (ops c) i who amount reasons s) \<and>
      (\<forall>j x. locked_of j x (lo_set_lock (ops c) i who amount reasons s) =
        (if j = i \<and> x = who then amount else locked_of j x s))"
    and remove_lock_law: "inv c s \<Longrightarrow>
      inv c (lo_remove_lock (ops c) i who s) \<and>
      (\<forall>j x. locked_of j x (lo_remove_lock (ops c) i who s) = (if j = i \<and> x = who then 0 else locked_of j x s))"
    and transfer_law: "inv c s \<Longrightarrow> lo_transfer (ops c) source dest amount req s = (Inr u, s') \<Longrightarrow>
      inv c s' \<and> (\<forall>j x. locked_of j x s' = locked_of j x s)"

definition schedules :: "account_id \<Rightarrow> 's vest_state \<Rightarrow> vesting_info list" where
  "schedules who st = (case vesting st who of None \<Rightarrow> [] | Some ss \<Rightarrow> ss)"

lemma schedules_upd [simp]:
  "schedules x (st\<lparr>cur := s\<rparr>) = schedules x st" "schedules x (in_cur f st) = schedules x st"
  "schedules x (v_event e st) = schedules x st"
  "schedules x (st\<lparr>vesting := (vesting st)(who := None)\<rparr>) = (if x = who then [] else schedules x st)"
  "schedules x (st\<lparr>vesting := (vesting st)(who \<mapsto> ss)\<rparr>) = (if x = who then ss else schedules x st)"
  by (auto simp: schedules_def in_cur_def v_event_def)

lemma cur_upd [simp]: "cur (in_cur f st) = f (cur st)" "cur (v_event e st) = cur st"
  by (simp_all add: in_cur_def v_event_def)

definition vc_ok :: "vesting_config \<Rightarrow> bool" where
  "vc_ok vc \<longleftrightarrow> mono (block_number_to_balance vc) \<and> withdraw_reasons_except (unvested_allowed vc) \<noteq> 0"

text \<open>The lock of the pallet covers what the schedules of the account have not unlocked.\<close>

definition lock_covers :: "(lock_id \<Rightarrow> account_id \<Rightarrow> 's \<Rightarrow> balance) \<Rightarrow> vesting_config \<Rightarrow> block_number \<Rightarrow> 's vest_state \<Rightarrow> bool" where
  "lock_covers locked_of vc now st \<longleftrightarrow>
     (\<forall>who. min u128_max (unvested (block_number_to_balance vc) now (schedules who st)) \<le> locked_of VESTING_ID who (cur st))"

context lockable_laws
begin

lemma write_lock_ok:
  assumes "vc_ok vc" and "inv c (cur st)" and "n \<le> u128_max"
  shows "inv c (cur (write_lock (ops c) vc who n st))"
    and "locked_of j x (cur (write_lock (ops c) vc who n st)) =
      (if j = VESTING_ID \<and> x = who then n else locked_of j x (cur st))"
    and "schedules x (write_lock (ops c) vc who n st) = schedules x st"
  using set_lock_law [OF assms(2,3)] remove_lock_law [OF assms(2)] assms(1)
  by (auto simp: write_lock_def vc_ok_def Let_def)

lemma act_ok:
  assumes vc: "vc_ok vc" and inv: "inv c (cur st)" and run: "act (ops c) vc now who ss action st = (Inr u, st')"
  obtains ss' where "exec_action (block_number_to_balance vc) now ss action st =
      (Inr (ss', min u128_max (unvested (block_number_to_balance vc) now ss')), st)"
    and "inv c (cur st')" and "\<And>x. schedules x st' = (if x = who then ss' else schedules x st)"
    and "\<And>j x. locked_of j x (cur st') = (if j = VESTING_ID \<and> x = who
           then min u128_max (unvested (block_number_to_balance vc) now ss') else locked_of j x (cur st))"
proof -
  from run obtain ss' n st1 st2 where e: "exec_action (block_number_to_balance vc) now ss action st = (Inr (ss', n), st1)"
    and w: "write_vesting vc who ss' st1 = (Inr (), st2)" and st': "st' = write_lock (ops c) vc who n st2"
    by (auto simp: act_def)
  from exec_action_total [OF e] have n: "st1 = st" "n = min u128_max (unvested (block_number_to_balance vc) now ss')" by auto
  have st2: "st2 = st\<lparr>vesting := (vesting st)(who := if length ss' = 0 then None else Some ss')\<rparr>"
    using w by (simp add: write_vesting_def n)
  have c2: "inv c (cur st2)" "cur st2 = cur st" using inv by (simp_all add: st2)
  have "n \<le> u128_max" by (simp add: n)
  note W = write_lock_ok [OF vc c2(1) this, where who = who, folded st']
  show thesis
    by (rule that [of ss']) (use e n W c2 in \<open>auto simp: st2\<close>)
qed

lemma act_covers:
  assumes "vc_ok vc" and "inv c (cur st)" and "lock_covers locked_of vc now st"
    and "act (ops c) vc now who ss action st = (Inr u, st')"
  shows "inv c (cur st') \<and> lock_covers locked_of vc now st'"
  using assms(1,2,4) by (rule act_ok) (use assms(3) in \<open>auto simp: lock_covers_def\<close>)

lemma exec_passive: "exec_action convert now ss Passive st = (Inr (report_schedule_updates convert now ss Passive), st)"
  by (simp add: exec_action_def eret_def)

lemma act_passive_succeeds:
  assumes "length ss \<le> max_vesting_schedules vc"
  shows "\<exists>st'. act L vc now who ss Passive st = (Inr (), st')"
proof -
  obtain ss' n where r: "report_schedule_updates (block_number_to_balance vc) now ss Passive = (ss', n)" by (rule prod.exhaust)
  have "length ss' \<le> length ss" using report_schedules(1) [OF r] by simp
  with assms show ?thesis by (simp add: act_def exec_passive r write_vesting_def)
qed

lemma add_ok:
  assumes vc: "vc_ok vc" and inv: "inv c (cur st)" and cov: "lock_covers locked_of vc now st"
    and run: "add_vesting_schedule (ops c) vc now who n pb b st = (Inr u, st')"
  shows "inv c (cur st') \<and> lock_covers locked_of vc now st'"
proof (cases "n = 0")
  case False
  with run obtain ss e where "act (ops c) vc now who ss Passive (v_event e st) = (Inr (), st')"
    by (auto simp: add_vesting_schedule_def Let_def)
  from act_covers [OF vc _ _ this] inv cov show ?thesis by (simp add: lock_covers_def)
qed (use assms in \<open>simp add: add_vesting_schedule_def\<close>)

lemma add_succeeds:
  assumes "length (schedules who st) < max_vesting_schedules vc" and "n \<noteq> 0" and "pb \<noteq> 0"
  shows "\<exists>st'. add_vesting_schedule L vc now who n pb b st = (Inr (), st')"
  using assms act_passive_succeeds [of "schedules who st @ [\<lparr>vi_locked = n, vi_per_block = pb, vi_starting_block = b\<rparr>]" vc]
  by (simp add: add_vesting_schedule_def is_valid_def schedules_def Let_def)

lemma vested_transfer_ok:
  assumes vc: "vc_ok vc" and inv: "inv c (cur st)" and cov: "lock_covers locked_of vc now st"
    and run: "do_vested_transfer (ops c) vc now source target v st = (Inr u, st')"
  obtains st1 where "lo_transfer (ops c) source target (vi_locked v) AllowDeath (cur st) = (Inr (), cur st1)"
    and "add_vesting_schedule (ops c) vc now target (vi_locked v) (per_block v) (vi_starting_block v) st1 = (Inr (), st')"
    and "inv c (cur st')" and "lock_covers locked_of vc now st'"
proof -
  from run obtain s1 r st1 where v: "is_valid v" and t: "lo_transfer (ops c) source target (vi_locked v) AllowDeath (cur st) = (Inr (), s1)"
    and n: "length (schedules target st) < max_vesting_schedules vc" and st1: "st1 = st\<lparr>cur := s1\<rparr>"
    and a: "add_vesting_schedule (ops c) vc now target (vi_locked v) (per_block v) (vi_starting_block v) st1 = (r, st')"
    by (auto simp: do_vested_transfer_def can_add_vesting_schedule_def ecur_def schedules_def split: option.splits)
  have "\<exists>st'. add_vesting_schedule (ops c) vc now target (vi_locked v) (per_block v) (vi_starting_block v) st1 = (Inr (), st')"
    using v n by (intro add_succeeds) (simp_all add: st1 is_valid_def per_block_def)
  with a have a': "add_vesting_schedule (ops c) vc now target (vi_locked v) (per_block v) (vi_starting_block v) st1 = (Inr (), st')"
    by auto
  note T = transfer_law [OF inv t]
  have "lock_covers locked_of vc now st1" using cov T by (simp add: lock_covers_def st1)
  with add_ok [OF vc _ _ a'] T have "inv c (cur st')" "lock_covers locked_of vc now st'" by (simp_all add: st1)
  with t a' show thesis by (intro that [of st1]) (simp_all add: st1)
qed

lemma dispatch_covers:
  assumes vc: "vc_ok vc" and inv: "inv c (cur st)" and cov: "lock_covers locked_of vc now st"
    and run: "vesting_dispatch (ops c) vc lk now o1 call st = (r, st')"
  shows "inv c (cur st') \<and> lock_covers locked_of vc now st'"
proof (cases r)
  case (Inl e)
  have "st' = st" using run unfolding Inl by (cases call) (auto dest: transactional_Inl)
  with inv cov show ?thesis by simp
next
  case (Inr u)
  note run' = run [unfolded Inr]
  note A = act_covers [OF vc inv cov]
  note T = vested_transfer_ok [OF vc inv cov]
  show ?thesis
  proof (cases call)
    case (VestedTransfer l v)
    with run' obtain src tgt where "do_vested_transfer (ops c) vc now src tgt v st = (Inr u, st')"
      by (auto simp: vested_transfer_def ecur_def)
    then show ?thesis by (rule T) simp
  next
    case (ForceVestedTransfer l1 l2 v)
    with run' obtain src tgt where "do_vested_transfer (ops c) vc now src tgt v st = (Inr u, st')"
      by (auto simp: force_vested_transfer_def ecur_def)
    then show ?thesis by (rule T) simp
  qed (use run' A inv cov in \<open>auto simp: vest_def vest_other_def do_vest_def merge_schedules_def
      force_remove_vesting_schedule_def remove_vesting_schedule_def ecur_def split: if_splits\<close>)
qed

end

section \<open>The balances pallet as the currency\<close>

definition balances_lockable :: "bal_config \<Rightarrow> bal_state lockable_ops" where
  "balances_lockable c = \<lparr>lo_free_balance = free_balance, lo_transfer = cur_transfer c,
     lo_set_lock = set_lock c, lo_remove_lock = remove_lock c\<rparr>"

lemma balances_lockable_sel [simp]:
  "lo_free_balance (balances_lockable c) = free_balance" "lo_transfer (balances_lockable c) = cur_transfer c"
  "lo_set_lock (balances_lockable c) = set_lock c" "lo_remove_lock (balances_lockable c) = remove_lock c"
  by (simp_all add: balances_lockable_def)

lemma lock_set_sound: "sound c s \<Longrightarrow> lock_set c i who n s s' \<Longrightarrow> sound c s'"
  by (simp add: sound_def lock_set_def same_tokens_def)

lemma cur_transfer_locks:
  assumes "sound c s" and "cur_transfer c source dest amount req s = (Inr u, s')"
  shows "sound c s' \<and> (\<forall>j x. balance_locked j x s' = balance_locked j x s)"
proof (cases "amount = 0 \<or> source = dest")
  case False
  with assms(2) obtain v r where "transfer (balances_ops c) source dest amount v s = (Inr r, s')"
    by (auto simp: cur_transfer_def Let_def)
  from transfer_sound(1) [OF assms(1) this] transfer_lists [OF assms(1) this] show ?thesis
    by (simp add: same_lists_def balance_locked_def)
qed (use assms in \<open>auto simp: cur_transfer_def\<close>)

interpretation bv: lockable_laws balances_lockable sound balance_locked
proof (unfold_locales, goal_cases)
  case (1 c s amount reasons i who)
  then have "lock_set c i who amount s (set_lock c i who amount reasons s)" by (intro set_lock_ok) (simp_all add: sound_def)
  with lock_set_sound [OF 1(1) this] show ?case by (simp add: lock_set_def)
next
  case (2 c s i who)
  then have "lock_set c i who 0 s (remove_lock c i who s)" by (intro remove_lock_ok) (simp add: sound_def)
  with lock_set_sound [OF 2 this] show ?case by (simp add: lock_set_def)
next
  case (3 c s source dest amount req u s')
  then show ?case using cur_transfer_locks by simp
qed

section \<open>Runs of the two pallets\<close>

lemma genesis_covers:
  assumes "vc_ok vc"
  shows "sound c (cur st) \<Longrightarrow> distinct (map fst vs) \<Longrightarrow> \<forall>who \<in> fst ` set vs. schedules who st = [] \<Longrightarrow>
    lock_covers balance_locked vc now st \<Longrightarrow> vesting_genesis (balances_lockable c) vc vs st = Some st' \<Longrightarrow>
    sound c (cur st') \<and> lock_covers balance_locked vc now st'"
proof (induction vs arbitrary: st)
  case (Cons v vs)
  obtain who b n liquid where v: "v = (who, b, n, liquid)" by (metis prod_cases4)
  define locked where "locked = free_balance who (cur st) - liquid"
  define info where "info = \<lparr>vi_locked = locked, vi_per_block = locked div max (block_number_to_balance vc n) 1, vi_starting_block = b\<rparr>"
  define st1 where "st1 = in_cur (set_lock c VESTING_ID who locked (withdraw_reasons_except (unvested_allowed vc)))
    (st\<lparr>vesting := (vesting st)(who \<mapsto> [info])\<rparr>)"
  have none: "(case vesting st who of None \<Rightarrow> [] | Some ss \<Rightarrow> ss) = []"
    using Cons.prems(3) v by (simp add: schedules_def)
  have run: "vesting_genesis (balances_lockable c) vc vs st1 = Some st'"
    using Cons.prems(5) unfolding v by (simp add: none Let_def locked_def info_def st1_def split: if_splits)
  have "free_balance who (cur st) \<le> u128_max"
    using account_data_ok [of c "cur st" who] Cons.prems(1) by (simp add: sound_def data_ok_def free_balance_def)
  then have l: "locked \<le> u128_max" by (simp add: locked_def)
  have r: "withdraw_reasons_except (unvested_allowed vc) \<noteq> 0" using assms by (simp add: vc_ok_def)
  note S = bv.set_lock_law [OF Cons.prems(1) l r, of VESTING_ID who, simplified]
  have "locked_at (block_number_to_balance vc) info now \<le> locked"
    using locked_at_le [of _ info] by (simp add: info_def)
  then have cov: "lock_covers balance_locked vc now st1"
    using Cons.prems(4) S by (auto simp: lock_covers_def st1_def)
  have "sound c (cur st1)" using S by (simp add: st1_def)
  moreover have "\<forall>x \<in> fst ` set vs. schedules x st1 = []" "distinct (map fst vs)"
    using Cons.prems(2,3) v by (auto simp: st1_def)
  ultimately show ?case using Cons.IH [OF _ _ _ cov run] by blast
qed simp

text \<open>
  The states that the two pallets reach together: the genesis of the vesting pallet on a sound state
  without vesting locks, time that passes, and calls of either pallet in any order.
\<close>

inductive vest_reachable ::
  "bal_config \<Rightarrow> vesting_config \<Rightarrow> ('l \<Rightarrow> account_id option) \<Rightarrow> block_number \<Rightarrow> bal_state vest_state \<Rightarrow> bool" for c vc lk where
  vest_genesis: "sound c s \<Longrightarrow> distinct (map fst vs) \<Longrightarrow>
    vesting_genesis (balances_lockable c) vc vs \<lparr>cur = s, vesting = Map.empty, v_events = []\<rparr> = Some st \<Longrightarrow>
    vest_reachable c vc lk 0 st"
| vest_time: "vest_reachable c vc lk now st \<Longrightarrow> now \<le> later \<Longrightarrow> vest_reachable c vc lk later st"
| vest_call: "vest_reachable c vc lk now st \<Longrightarrow> vesting_dispatch (balances_lockable c) vc lk now o1 call st = (r, st') \<Longrightarrow>
    vest_reachable c vc lk now st'"
| balances_call: "vest_reachable c vc lk now st \<Longrightarrow> call_ok lk (cur st) bcall \<Longrightarrow>
    dispatch c lk o1 bcall (cur st) = (r', s') \<Longrightarrow> vest_reachable c vc lk now (st\<lparr>cur := s'\<rparr>)"

lemma vest_reachable_covers:
  assumes "vc_ok vc"
  shows "vest_reachable c vc lk now st \<Longrightarrow> sound c (cur st) \<and> lock_covers balance_locked vc now st"
proof (induction rule: vest_reachable.induct)
  case (vest_genesis s vs st)
  have "lock_covers balance_locked vc 0 \<lparr>cur = s, vesting = Map.empty, v_events = []\<rparr>"
    by (simp add: lock_covers_def schedules_def)
  with genesis_covers [OF assms _ vest_genesis(2) _ _ vest_genesis(3)] vest_genesis(1) show ?case by (simp add: schedules_def)
next
  case (vest_time now st later)
  have "unvested (block_number_to_balance vc) later ss \<le> unvested (block_number_to_balance vc) now ss" for ss
    using unvested_antimono [OF _ vest_time(2)] assms by (simp add: vc_ok_def)
  with vest_time show ?case unfolding lock_covers_def by (meson le_trans min.mono order_refl)
next
  case (vest_call now st o1 call r st')
  then show ?case using bv.dispatch_covers [OF assms] by blast
next
  case (balances_call now st bcall o1 r' s')
  then have s: "sound c (cur st)" by simp
  from dispatch_sound [OF s balances_call(2,3)] dispatch_lists [OF s balances_call(2,3)] balances_call(4) show ?case
    by (simp add: lock_covers_def same_lists_def balance_locked_def)
qed

section \<open>Merging and the end of vesting\<close>

lemma sum_pick:
  "unvested convert now (map snd (filter (\<lambda>(k, _). P k) (List.enumerate 0 ss))) =
     (\<Sum>k \<in> {k. k < length ss \<and> P k}. locked_at convert (ss ! k) now)"
proof (induction ss rule: rev_induct)
  case (snoc v ss)
  have "{k. k < length (ss @ [v]) \<and> P k} = {k. k < length ss \<and> P k} \<union> (if P (length ss) then {length ss} else {})"
    by (auto simp: less_Suc_eq)
  then have "(\<Sum>k \<in> {k. k < length (ss @ [v]) \<and> P k}. locked_at convert ((ss @ [v]) ! k) now) =
    (\<Sum>k \<in> {k. k < length ss \<and> P k}. locked_at convert (ss ! k) now) + (if P (length ss) then locked_at convert v now else 0)"
    by (simp add: nth_append)
  with snoc show ?case by (simp add: enumerate_append_eq)
qed simp

lemma unvested_nth: "unvested convert now ss = (\<Sum>k < length ss. locked_at convert (ss ! k) now)"
  by (simp add: unvested_def sum_list_sum_nth atLeast0LessThan)

lemma unvested_pick_merge:
  assumes "i < length ss" and "j < length ss" and "i \<noteq> j"
  shows "unvested convert now (pick_schedules (Merge i j) ss) + locked_at convert (ss ! i) now + locked_at convert (ss ! j) now =
    unvested convert now ss"
proof -
  have "{..<length ss} = insert i (insert j {k. k < length ss \<and> \<not> (i = k \<or> j = k)})" using assms by auto
  then have "unvested convert now ss = locked_at convert (ss ! i) now + (locked_at convert (ss ! j) now +
     (\<Sum>k \<in> {k. k < length ss \<and> \<not> (i = k \<or> j = k)}. locked_at convert (ss ! k) now))"
    using assms(3) by (simp add: unvested_nth)
  then show ?thesis by (simp add: pick_schedules_def sum_pick)
qed

lemma merge_locked_at:
  assumes "convert = (\<lambda>n. n)" and "now < u128_max" and "is_valid v" "is_valid w" and "vi_locked v \<le> u128_max" "vi_locked w \<le> u128_max"
  shows "(case merge_vesting_info convert now v w of None \<Rightarrow> 0 | Some u \<Rightarrow> locked_at convert u now) =
    min u128_max (locked_at convert v now + locked_at convert w now)"
proof -
  note E = ended_locked_at [OF assms(1,3,2,5)] ended_locked_at [OF assms(1,4,2,6)]
  have le: "locked_at convert v now \<le> u128_max" "locked_at convert w now \<le> u128_max"
    using locked_at_le assms(5,6) le_trans by blast+
  show ?thesis
  proof (cases "locked_at convert v now = 0 \<or> locked_at convert w now = 0")
    case True
    with E le show ?thesis using assms(1) by (auto simp: merge_vesting_info_def Let_def)
  next
    case False
    let ?l = "sat_add u128_max (locked_at convert v now) (locked_at convert w now)"
    have e: "\<not> ending_block_as_balance convert v \<le> convert now" "\<not> ending_block_as_balance convert w \<le> convert now"
      using False E assms(1) by simp_all
    define b where "b = max (max now (vi_starting_block v)) (vi_starting_block w)"
    define p where "p = max (?l div max (max (ending_block_as_balance convert v) (ending_block_as_balance convert w) - convert b) 1) 1"
    define u where "u = \<lparr>vi_locked = ?l, vi_per_block = p, vi_starting_block = b\<rparr>"
    have u: "merge_vesting_info convert now v w = Some u" "vi_locked u = ?l" "now \<le> vi_starting_block u"
      unfolding merge_vesting_info_def Let_def b_def [symmetric] p_def [symmetric] u_def [symmetric] using e
      by (simp_all only: if_False bool.case prod.case eq_False [THEN iffD2]) (simp_all add: u_def b_def)
    have "locked_at convert u now = ?l" using locked_at_eq [of u convert now] u assms(1) by simp
    with u(1) show ?thesis by (simp add: sat_add_def)
  qed
qed

lemma length_pick_merge:
  assumes "i < length ss" and "j < length ss" and "i \<noteq> j"
  shows "length (pick_schedules (Merge i j) ss) + 2 = length ss"
proof -
  have "length (pick_schedules (Merge i j) ss) = card {k. k < length ss \<and> \<not> (i = k \<or> j = k)}"
    by (simp add: pick_schedules_def length_filter_conv_card nth_enumerate_eq cong: conj_cong)
  moreover have "{..<length ss} = insert i (insert j {k. k < length ss \<and> \<not> (i = k \<or> j = k)})" using assms by auto
  then have "length ss = card (insert i (insert j {k. k < length ss \<and> \<not> (i = k \<or> j = k)}))"
    by (metis card_lessThan)
  ultimately show ?thesis using assms(3) by simp
qed

lemma merge_keeps_unvested:
  assumes id: "convert = (\<lambda>n. n)" and now: "now < u128_max" and ok: "\<forall>v \<in> set ss. is_valid v \<and> vi_locked v \<le> u128_max"
    and "i \<noteq> j" and run: "exec_action convert now ss (Merge i j) st = (Inr (ss', t), st')"
  shows "t = min u128_max (unvested convert now ss)" and "length ss' < length ss"
proof -
  obtain fs a where r: "report_schedule_updates convert now ss (Merge i j) = (fs, a)" by (rule prod.exhaust)
  note R = report_schedules [OF r]
  from run have ij: "i < length ss" "j < length ss" by (auto simp: exec_action_def nth_option_def split: if_splits)
  define m where "m = merge_vesting_info convert now (ss ! i) (ss ! j)"
  have res: "(ss', t) = (case m of Some u \<Rightarrow> (fs @ [u], sat_add u128_max a (locked_at convert u now)) | None \<Rightarrow> (fs, a))"
    using run ij by (simp add: exec_action_def r nth_option_def m_def)
  have M: "(case m of None \<Rightarrow> 0 | Some u \<Rightarrow> locked_at convert u now) =
    min u128_max (locked_at convert (ss ! i) now + locked_at convert (ss ! j) now)"
    unfolding m_def using ok ij by (intro merge_locked_at id now) auto
  have "unvested convert now fs = unvested convert now (pick_schedules (Merge i j) ss)" by (simp add: R(1))
  with unvested_pick_merge [OF ij assms(4), of convert now]
  have sum: "unvested convert now fs + (locked_at convert (ss ! i) now + locked_at convert (ss ! j) now) = unvested convert now ss"
    by simp
  show "t = min u128_max (unvested convert now ss)"
    unfolding sum [symmetric] using res M R(2) by (cases m) (auto simp: sat_add_def min_def split: if_splits)
  have "length fs \<le> length (pick_schedules (Merge i j) ss)" unfolding R(1) by (rule length_filter_le)
  then have "length fs + 2 \<le> length ss" using length_pick_merge [OF ij assms(4)] by linarith
  then show "length ss' < length ss" using res by (cases m) auto
qed

lemma locked_before_end:
  assumes "convert = (\<lambda>n. n)" and "is_valid v" and "vi_locked v \<le> u128_max" and "ending_block_as_balance convert v < u128_max"
  shows "ending_block_as_balance convert v - max now (vi_starting_block v) \<le> locked_at convert v now"
proof -
  let ?e = "ending_block_as_balance convert v" and ?b = "vi_starting_block v" and ?p = "per_block v"
  have p: "1 \<le> ?p" by (simp add: per_block_def)
  show ?thesis
  proof (cases "?e \<le> max now ?b")
    case False
    then have "\<not> ?e \<le> ?e - 1" by simp
    then have "(?e - 1 - ?b) * ?p < vi_locked v"
      using ended_unlocked [OF assms(1,2), of "?e - 1"] assms(4) by simp
    moreover have "(?e - 1 - ?b) = (?e - 1 - max now ?b) + (now - ?b)" using False by simp
    ultimately have "(?e - 1 - max now ?b) * ?p + (now - ?b) * ?p < vi_locked v" by (simp add: distrib_right)
    moreover have "?e - 1 - max now ?b \<le> (?e - 1 - max now ?b) * ?p" using p by simp
    ultimately have "?e - 1 - max now ?b < vi_locked v - (now - ?b) * ?p" by linarith
    moreover have "locked_at convert v now = vi_locked v - (now - ?b) * ?p"
      using locked_at_eq [OF assms(3), of convert now] assms(1) by simp
    ultimately show ?thesis by linarith
  qed simp
qed

lemma merged_end_ge:
  assumes id: "convert = (\<lambda>n. n)" and vw: "is_valid v" "is_valid w" "vi_locked v \<le> u128_max" "vi_locked w \<le> u128_max"
    and e: "ending_block_as_balance convert v < u128_max" "ending_block_as_balance convert w < u128_max"
    and m: "merge_vesting_info convert now v w = Some u"
  shows "max (ending_block_as_balance convert v) (ending_block_as_balance convert w) \<le> ending_block_as_balance convert u"
proof (cases "ending_block_as_balance convert v \<le> now \<or> ending_block_as_balance convert w \<le> now")
  case True
  then show ?thesis
    using m id unfolding merge_vesting_info_def Let_def by (auto split: if_splits bool.splits)
next
  case False
  let ?e = "max (ending_block_as_balance convert v) (ending_block_as_balance convert w)"
  define b where "b = max (max now (vi_starting_block v)) (vi_starting_block w)"
  define l where "l = sat_add u128_max (locked_at convert v now) (locked_at convert w now)"
  define d where "d = max (?e - b) 1"
  have "\<not> ending_block_as_balance convert v \<le> convert now" "\<not> ending_block_as_balance convert w \<le> convert now"
    using False id by simp_all
  then have u: "u = \<lparr>vi_locked = l, vi_per_block = max (l div d) 1, vi_starting_block = b\<rparr>"
    using m id unfolding merge_vesting_info_def Let_def b_def l_def d_def by simp
  have "ending_block_as_balance convert v - b \<le> locked_at convert v now" "ending_block_as_balance convert w - b \<le> locked_at convert w now"
    using locked_before_end [OF id vw(1,3) e(1), of now] locked_before_end [OF id vw(2,4) e(2), of now] by (auto simp: b_def)
  moreover have "0 < locked_at convert v now"
    using ended_locked_at [OF id vw(1) _ vw(3), of now] False e(1) by simp
  ultimately have d: "1 \<le> d" "d \<le> l" using e by (auto simp: d_def l_def sat_add_def)
  then have p: "1 \<le> l div d" by (simp add: div_greater_zero_iff Suc_le_eq)
  have "(d - 1) * (l div d) < l"
  proof -
    have "d * (l div d) \<le> l" by simp
    moreover have "(d - 1) * (l div d) < d * (l div d)" using d p by simp
    ultimately show ?thesis by linarith
  qed
  moreover have "?e - 1 - b \<le> d - 1" by (simp add: d_def)
  then have "(?e - 1 - b) * (l div d) \<le> (d - 1) * (l div d)" by simp
  ultimately have "\<not> l \<le> (?e - 1 - b) * (l div d)" by linarith
  moreover have "is_valid u" "per_block u = l div d" using d p by (auto simp: u is_valid_def per_block_def)
  moreover have "?e - 1 < u128_max" using e by auto
  ultimately have "\<not> ending_block_as_balance convert u \<le> ?e - 1"
    using ended_unlocked [OF id \<open>is_valid u\<close>, of "?e - 1"] by (simp add: u)
  then show ?thesis by linarith
qed

end
