(* ===== verification/Vesting_Props.thy ===== *)
theory Vesting_Props
  imports Vesting Balances_Examples
begin

text \<open>
  The properties of the vesting pallet on top of the balances pallet, with their instances.
\<close>

definition ex_vc :: vesting_config where
  "ex_vc = \<lparr>block_number_to_balance = (\<lambda>n. n), min_vested_transfer = 5, unvested_allowed = TRANSFER OR RESERVE,
     max_vesting_schedules = 3\<rparr>"

definition ex_vest :: "bal_state vest_state" where
  "ex_vest = \<lparr>cur = ex_state, vesting = Map.empty, v_events = []\<rparr>"

definition ex_schedule :: vesting_info where
  "ex_schedule = \<lparr>vi_locked = 30, vi_per_block = 3, vi_starting_block = 5\<rparr>"

lemma ex_vc_ok: "vc_ok ex_vc"
proof -
  have "withdraw_reasons_except (unvested_allowed ex_vc) \<noteq> 0" by code_simp
  then show ?thesis by (simp add: vc_ok_def ex_vc_def mono_def)
qed







definition ex_second :: vesting_info where
  "ex_second = \<lparr>vi_locked = 25, vi_per_block = 2, vi_starting_block = 8\<rparr>"




text \<open>
  (C19) Vesting ends: once the ending blocks of all schedules of an account have passed, a call of \<open>vest\<close> by its
  owner succeeds, removes its schedules and leaves nothing of the balance locked for vesting.
\<close>

theorem vest_completes:
  assumes "vc_ok vc" and "block_number_to_balance vc = (\<lambda>n. n)" and "now < u128_max" and "sound c (cur st)"
    and "vesting st who = Some ss" and "length ss \<le> max_vesting_schedules vc"
    and "\<forall>v \<in> set ss. is_valid v \<and> vi_locked v \<le> u128_max \<and> ending_block_as_balance (block_number_to_balance vc) v \<le> now"
  shows "\<exists>st'. vest (balances_lockable c) vc now (Signed who) st = (Inr (), st') \<and> schedules who st' = [] \<and>
    balance_locked VESTING_ID who (cur st') = 0"
proof -
  have zero: "\<forall>v \<in> set ss. locked_at (block_number_to_balance vc) v now = 0"
    using assms(7) ended_locked_at [OF assms(2) _ assms(3)] by blast
  obtain st' where a: "act (balances_lockable c) vc now who ss Passive st = (Inr (), st')"
    using bv.act_passive_succeeds [OF assms(6)] by blast
  have run: "vest (balances_lockable c) vc now (Signed who) st = (Inr (), st')"
    using a assms(5) by (simp add: vest_def do_vest_def ecur_def ensure_signed_def)
  have "report_schedule_updates (block_number_to_balance vc) now ss Passive = ([], 0)"
    using zero by (simp add: report_schedule_updates_def)
  then have e: "exec_action (block_number_to_balance vc) now ss Passive st = (Inr ([], 0), st)"
    by (simp add: bv.exec_passive)
  show ?thesis by (rule bv.act_ok [OF assms(1,4) a]) (use run e in auto)
qed

definition ex_done :: "bal_state vest_state" where
  "ex_done = ex_vest\<lparr>vesting := [1 \<mapsto> [ex_schedule]]\<rparr>"

theorem vest_completes_witness:
  "\<exists>st'. vest (balances_lockable ex_cfg) ex_vc 15 (Signed 1) ex_done = (Inr (), st') \<and> schedules 1 st' = []"
proof -
  have e: "ending_block_as_balance (block_number_to_balance ex_vc) ex_schedule = 15" by code_simp
  have v: "vesting ex_done 1 = Some [ex_schedule]" "cur ex_done = ex_state" by (simp_all add: ex_done_def ex_vest_def)
  have "sound ex_cfg (cur ex_done)" by (simp add: v ex_sound)
  from vest_completes [OF ex_vc_ok _ _ this v(1), of 15] e show ?thesis
    by (auto simp: ex_vc_def ex_schedule_def is_valid_def u128_max_def)
qed

text \<open>
  Merging never brings the end of vesting forward: the merged schedule ends at the later one of the two
  ends, or after it, and does so even where one of the two has ended already.
\<close>

theorem merge_never_shortens:
  assumes "is_valid v" and "is_valid w" and "vi_locked v \<le> u128_max" and "vi_locked w \<le> u128_max"
    and "ending_block_as_balance (\<lambda>n. n) v < u128_max" and "ending_block_as_balance (\<lambda>n. n) w < u128_max"
    and "merge_vesting_info (\<lambda>n. n) now v w = Some u"
  shows "max (ending_block_as_balance (\<lambda>n. n) v) (ending_block_as_balance (\<lambda>n. n) w) \<le> ending_block_as_balance (\<lambda>n. n) u"
  using refl assms by (rule merged_end_ge)

lemma ex_merged:
  "merge_vesting_info (\<lambda>n. n) 10 ex_schedule ex_second = Some \<lparr>vi_locked = 36, vi_per_block = 3, vi_starting_block = 10\<rparr> \<and>
   ending_block_as_balance (\<lambda>n. n) ex_schedule = 15 \<and> ending_block_as_balance (\<lambda>n. n) ex_second = 21 \<and>
   ending_block_as_balance (\<lambda>n. n) \<lparr>vi_locked = 36, vi_per_block = 3, vi_starting_block = 10\<rparr> = 22"
  by code_simp

theorem merge_never_shortens_witness:
  "\<exists>u. merge_vesting_info (\<lambda>n. n) 10 ex_schedule ex_second = Some u \<and> 21 \<le> ending_block_as_balance (\<lambda>n. n) u"
proof -
  have "is_valid ex_schedule" "is_valid ex_second" "vi_locked ex_schedule \<le> u128_max" "vi_locked ex_second \<le> u128_max"
    "ending_block_as_balance (\<lambda>n. n) ex_schedule < u128_max" "ending_block_as_balance (\<lambda>n. n) ex_second < u128_max"
    using ex_merged by (simp_all add: is_valid_def ex_schedule_def ex_second_def u128_max_def)
  from merge_never_shortens [OF this, of 10] ex_merged show ?thesis by auto
qed

text \<open>
  The end of a merged schedule is not always the later one of the two ends, as the documentation of the call
  says: the amount per block is rounded down, and the merged schedule may run on after it.
\<close>

theorem merged_end_differs:
  "\<exists>v w u. is_valid v \<and> is_valid w \<and> merge_vesting_info (\<lambda>n. n) 10 v w = Some u \<and>
     max (ending_block_as_balance (\<lambda>n. n) v) (ending_block_as_balance (\<lambda>n. n) w) < ending_block_as_balance (\<lambda>n. n) u"
proof (intro exI conjI)
  show "is_valid ex_schedule" "is_valid ex_second" by (simp_all add: is_valid_def ex_schedule_def ex_second_def)
  show "merge_vesting_info (\<lambda>n. n) 10 ex_schedule ex_second = Some \<lparr>vi_locked = 36, vi_per_block = 3, vi_starting_block = 10\<rparr>"
    "max (ending_block_as_balance (\<lambda>n. n) ex_schedule) (ending_block_as_balance (\<lambda>n. n) ex_second) <
      ending_block_as_balance (\<lambda>n. n) \<lparr>vi_locked = 36, vi_per_block = 3, vi_starting_block = 10\<rparr>"
    using ex_merged by simp_all
qed


end
