(* ===== verification/Bridge_Lanes.thy ===== *)
theory Bridge_Lanes
  imports System_Accounts
begin

text \<open>
  Message lanes of the bridges: the data of both ends of a lane
  (\<open>src/bridges/primitives/messages/src/lib.rs\<close>), the outbound end that numbers, stores and prunes messages
  (\<open>src/bridges/modules/messages/src/outbound_lane.rs\<close>), the inbound end that dispatches them and remembers who
  delivered which (\<open>inbound_lane.rs\<close>), and the rewards of the relayers.

  The two ends are programs over the storage traits of the pallet, which are records of operations here; what a
  storage owes is stated by the locales \<open>outbound_store\<close> and \<open>inbound_store\<close>, and the effect of each operation on the
  lane is proved there once. Nonces are 64-bit numbers: an addition of the code that is neither checked nor
  saturating is \<open>add64\<close>, which wraps around.
\<close>

section \<open>Nonces and ranges of nonces\<close>

type_synonym nonce = nat
type_synonym lane_id = nat
type_synonym message_payload = "8 word list"

definition add64 :: "nat \<Rightarrow> nat \<Rightarrow> nat" where
  "add64 a b = (a + b) mod (u64_max + 1)"

lemma add64_exact [simp]: "a + b \<le> u64_max \<Longrightarrow> add64 a b = a + b"
  by (simp add: add64_def)

definition range_checked_len :: "nonce \<Rightarrow> nonce \<Rightarrow> nonce option" where
  "range_checked_len a b =
     (case checked_sub b a of None \<Rightarrow> None | Some len \<Rightarrow> checked_add u64_max len 1)"

definition range_saturating_len :: "nonce \<Rightarrow> nonce \<Rightarrow> nonce" where
  "range_saturating_len a b =
     (case checked_sub b a of None \<Rightarrow> 0 | Some len \<Rightarrow> sat_add u64_max len 1)"

lemma range_saturating_len_eq: "b < u64_max \<or> 0 < a \<Longrightarrow> b \<le> u64_max \<Longrightarrow> range_saturating_len a b = Suc b - a"
  by (auto simp: range_saturating_len_def sat_add_def split: option.split)

section \<open>Lane data\<close>

datatype lane_state = Opened | Closed

fun is_active :: "lane_state \<Rightarrow> bool" where
  "is_active Opened = True"
| "is_active Closed = False"

record delivered_messages =
  dm_begin :: nonce
  dm_end :: nonce

definition delivered_messages_new :: "nonce \<Rightarrow> delivered_messages" where
  "delivered_messages_new nonce = \<lparr>dm_begin = nonce, dm_end = nonce\<rparr>"

definition total_messages :: "delivered_messages \<Rightarrow> nonce" where
  "total_messages m = range_saturating_len (dm_begin m) (dm_end m)"

definition note_dispatched_message :: "delivered_messages \<Rightarrow> delivered_messages" where
  "note_dispatched_message m = m\<lparr>dm_end := add64 (dm_end m) 1\<rparr>"

definition contains_message :: "delivered_messages \<Rightarrow> nonce \<Rightarrow> bool" where
  "contains_message m nonce \<longleftrightarrow> dm_begin m \<le> nonce \<and> nonce \<le> dm_end m"

record unrewarded_relayer =
  ur_relayer :: account_id
  ur_messages :: delivered_messages

record inbound_lane_data =
  relayers :: "unrewarded_relayer list"
  last_confirmed_nonce :: nonce
  il_state :: lane_state

definition inbound_lane_data_default :: inbound_lane_data where
  "inbound_lane_data_default = \<lparr>relayers = [], last_confirmed_nonce = 0, il_state = Closed\<rparr>"

definition inbound_lane_data_opened :: inbound_lane_data where
  "inbound_lane_data_opened = inbound_lane_data_default\<lparr>il_state := Opened\<rparr>"

definition last_delivered_nonce :: "inbound_lane_data \<Rightarrow> nonce" where
  "last_delivered_nonce d = (if relayers d = [] then last_confirmed_nonce d else dm_end (ur_messages (last (relayers d))))"

definition total_unrewarded_messages :: "inbound_lane_data \<Rightarrow> nonce" where
  "total_unrewarded_messages d =
     (if relayers d = [] then 0
      else range_saturating_len (dm_begin (ur_messages (hd (relayers d)))) (dm_end (ur_messages (last (relayers d)))))"

record unrewarded_relayers_state =
  unrewarded_relayer_entries :: nonce
  messages_in_oldest_entry :: nonce
  urs_total_messages :: nonce
  urs_last_delivered_nonce :: nonce

definition relayers_state_of :: "inbound_lane_data \<Rightarrow> unrewarded_relayers_state" where
  "relayers_state_of lane =
     \<lparr>unrewarded_relayer_entries = length (relayers lane),
      messages_in_oldest_entry = (if relayers lane = [] then 0 else total_messages (ur_messages (hd (relayers lane)))),
      urs_total_messages = total_unrewarded_messages lane,
      urs_last_delivered_nonce = last_delivered_nonce lane\<rparr>"

definition relayers_state_is_valid :: "unrewarded_relayers_state \<Rightarrow> inbound_lane_data \<Rightarrow> bool" where
  "relayers_state_is_valid st lane_data \<longleftrightarrow> st = relayers_state_of lane_data"

record outbound_lane_data =
  oldest_unpruned_nonce :: nonce
  latest_received_nonce :: nonce
  latest_generated_nonce :: nonce
  ol_state :: lane_state

definition outbound_lane_data_default :: outbound_lane_data where
  "outbound_lane_data_default =
     \<lparr>oldest_unpruned_nonce = 1, latest_received_nonce = 0, latest_generated_nonce = 0, ol_state = Closed\<rparr>"

definition outbound_lane_data_opened :: outbound_lane_data where
  "outbound_lane_data_opened = outbound_lane_data_default\<lparr>ol_state := Opened\<rparr>"

definition data_queued_messages :: "outbound_lane_data \<Rightarrow> nonce \<times> nonce" where
  "data_queued_messages d = (add64 (latest_received_nonce d) 1, latest_generated_nonce d)"

text \<open>
  The map of rewards is a \<open>BTreeMap\<close>: an association list in the order of its keys.
\<close>

fun btree_add :: "account_id \<Rightarrow> nonce \<Rightarrow> (account_id \<times> nonce) list \<Rightarrow> (account_id \<times> nonce) list" where
  "btree_add r n [] = [(r, add64 0 n)]"
| "btree_add r n ((r', m) # xs) =
     (if r = r' then (r, add64 m n) # xs
      else if r < r' then (r, add64 0 n) # (r', m) # xs
      else (r', m) # btree_add r n xs)"

fun rewards_loop ::
  "unrewarded_relayer list \<Rightarrow> nonce \<times> nonce \<Rightarrow> (account_id \<times> nonce) list \<Rightarrow> (account_id \<times> nonce) list" where
  "rewards_loop [] received_range rewards = rewards"
| "rewards_loop (entry # es) received_range rewards =
     (let nonce_begin = max (dm_begin (ur_messages entry)) (fst received_range);
          nonce_end = min (dm_end (ur_messages entry)) (snd received_range)
      in rewards_loop es received_range
           (if nonce_end \<ge> nonce_begin then btree_add (ur_relayer entry) (add64 (nonce_end - nonce_begin) 1) rewards
            else rewards))"

definition calc_relayers_rewards :: "unrewarded_relayer list \<Rightarrow> nonce \<times> nonce \<Rightarrow> (account_id \<times> nonce) list" where
  "calc_relayers_rewards messages_relayers received_range = rewards_loop messages_relayers received_range []"

section \<open>The outbound end\<close>

record 's outbound_ops =
  oo_data :: "'s \<Rightarrow> outbound_lane_data"
  oo_set_data :: "outbound_lane_data \<Rightarrow> 's \<Rightarrow> 's"
  oo_message :: "'s \<Rightarrow> nonce \<Rightarrow> message_payload option"
  oo_save_message :: "nonce \<Rightarrow> message_payload \<Rightarrow> 's \<Rightarrow> 's"
  oo_remove_message :: "nonce \<Rightarrow> 's \<Rightarrow> 's"

datatype reception_confirmation_error =
    FailedToConfirmFutureMessages
  | EmptyUnrewardedRelayerEntry
  | NonConsecutiveUnrewardedRelayerEntries
  | TryingToConfirmMoreMessagesThanExpected

definition out_set_state :: "'s outbound_ops \<Rightarrow> lane_state \<Rightarrow> 's \<Rightarrow> 's" where
  "out_set_state ops lst s = oo_set_data ops ((oo_data ops s)\<lparr>ol_state := lst\<rparr>) s"

definition out_queued_messages :: "'s outbound_ops \<Rightarrow> 's \<Rightarrow> nonce \<times> nonce" where
  "out_queued_messages ops s = (let data = oo_data ops s in (oldest_unpruned_nonce data, latest_generated_nonce data))"

definition out_send_message :: "'s outbound_ops \<Rightarrow> message_payload \<Rightarrow> 's \<Rightarrow> nonce \<times> 's" where
  "out_send_message ops payload s =
     (let data = oo_data ops s;
          nonce = add64 (latest_generated_nonce data) 1;
          data = data\<lparr>latest_generated_nonce := nonce\<rparr>
      in (nonce, oo_set_data ops data (oo_save_message ops nonce payload s)))"

fun relayers_correct_loop ::
  "nonce option \<Rightarrow> nonce \<Rightarrow> unrewarded_relayer list \<Rightarrow> reception_confirmation_error + unit" where
  "relayers_correct_loop expected_entry_begin latest_received [] = Inr ()"
| "relayers_correct_loop expected_entry_begin latest_received (entry # es) =
     (if dm_end (ur_messages entry) < dm_begin (ur_messages entry) then Inl EmptyUnrewardedRelayerEntry
      else if expected_entry_begin \<noteq> Some (dm_begin (ur_messages entry))
      then Inl NonConsecutiveUnrewardedRelayerEntries
      else if dm_end (ur_messages entry) > latest_received then Inl FailedToConfirmFutureMessages
      else relayers_correct_loop (checked_add u64_max (dm_end (ur_messages entry)) 1) latest_received es)"

definition ensure_unrewarded_relayers_are_correct ::
  "nonce \<Rightarrow> unrewarded_relayer list \<Rightarrow> reception_confirmation_error + unit" where
  "ensure_unrewarded_relayers_are_correct latest_received rs =
     relayers_correct_loop (case rs of [] \<Rightarrow> None | entry # _ \<Rightarrow> Some (dm_begin (ur_messages entry))) latest_received rs"

definition remove_messages :: "'s outbound_ops \<Rightarrow> nonce \<Rightarrow> nonce \<Rightarrow> 's \<Rightarrow> 's" where
  "remove_messages ops a b s = fold (oo_remove_message ops) [a ..< Suc b] s"

definition confirm_delivery ::
  "'s outbound_ops \<Rightarrow> nonce \<Rightarrow> nonce \<Rightarrow> unrewarded_relayer list
     \<Rightarrow> ('s, reception_confirmation_error, delivered_messages option) em" where
  "confirm_delivery ops max_allowed_messages latest_delivered_nonce rs =
     ebind (eget (oo_data ops)) (\<lambda>data.
     let confirmed_messages = \<lparr>dm_begin = sat_add u64_max (latest_received_nonce data) 1, dm_end = latest_delivered_nonce\<rparr>
     in if total_messages confirmed_messages = 0 then eret None
        else
          ebind (eensure (\<not> dm_end confirmed_messages > latest_generated_nonce data) FailedToConfirmFutureMessages) (\<lambda>_.
          ebind (eensure (\<not> total_messages confirmed_messages > max_allowed_messages)
                   TryingToConfirmMoreMessagesThanExpected) (\<lambda>_.
          ebind (esum (ensure_unrewarded_relayers_are_correct (dm_end confirmed_messages) rs)) (\<lambda>_.
          ebind (emod (remove_messages ops (dm_begin confirmed_messages) (dm_end confirmed_messages))) (\<lambda>_.
          ebind (emod (oo_set_data ops (data\<lparr>latest_received_nonce := dm_end confirmed_messages,
                   oldest_unpruned_nonce := sat_add u64_max (dm_end confirmed_messages) 1\<rparr>))) (\<lambda>_.
          eret (Some confirmed_messages)))))))"

definition remove_oldest_unpruned_message :: "'s outbound_ops \<Rightarrow> 's \<Rightarrow> 's" where
  "remove_oldest_unpruned_message ops s =
     (let data = oo_data ops s;
          s = oo_remove_message ops (oldest_unpruned_nonce data) s
      in oo_set_data ops (data\<lparr>oldest_unpruned_nonce := add64 (oldest_unpruned_nonce data) 1\<rparr>) s)"

section \<open>The inbound end\<close>

record 's inbound_ops =
  io_id :: lane_id
  io_max_unrewarded_relayer_entries :: nonce
  io_max_unconfirmed_messages :: nonce
  io_data :: "'s \<Rightarrow> inbound_lane_data"
  io_set_data :: "inbound_lane_data \<Rightarrow> 's \<Rightarrow> 's"

record message_key =
  mk_lane_id :: lane_id
  mk_nonce :: nonce

record message =
  m_key :: message_key
  m_payload :: message_payload

datatype 'r reception_result =
    Dispatched 'r
  | InvalidNonce
  | TooManyUnrewardedRelayers
  | TooManyUnconfirmedMessages

definition in_set_state :: "'s inbound_ops \<Rightarrow> lane_state \<Rightarrow> 's \<Rightarrow> 's" where
  "in_set_state ops lst s = io_set_data ops ((io_data ops s)\<lparr>il_state := lst\<rparr>) s"

definition confirm_relayers :: "nonce \<Rightarrow> unrewarded_relayer list \<Rightarrow> unrewarded_relayer list" where
  "confirm_relayers new_confirmed_nonce rs =
     (case dropWhile (\<lambda>entry. dm_end (ur_messages entry) \<le> new_confirmed_nonce) rs of
        [] \<Rightarrow> []
      | entry # es \<Rightarrow>
          (if dm_begin (ur_messages entry) \<le> new_confirmed_nonce
           then entry\<lparr>ur_messages := (ur_messages entry)\<lparr>dm_begin := add64 new_confirmed_nonce 1\<rparr>\<rparr>
           else entry) # es)"

definition receive_state_update :: "'s inbound_ops \<Rightarrow> outbound_lane_data \<Rightarrow> 's \<Rightarrow> nonce option \<times> 's" where
  "receive_state_update ops outbound s =
     (let data = io_data ops s;
          new_confirmed_nonce = latest_received_nonce outbound
      in if new_confirmed_nonce > last_delivered_nonce data then (None, s)
         else if new_confirmed_nonce \<le> last_confirmed_nonce data then (None, s)
         else
           (Some new_confirmed_nonce,
            io_set_data ops (data\<lparr>last_confirmed_nonce := new_confirmed_nonce,
                                relayers := confirm_relayers new_confirmed_nonce (relayers data)\<rparr>) s))"

definition note_delivered :: "account_id \<Rightarrow> nonce \<Rightarrow> unrewarded_relayer list \<Rightarrow> unrewarded_relayer list" where
  "note_delivered relayer nonce rs =
     (if rs \<noteq> [] \<and> ur_relayer (last rs) = relayer
      then butlast rs @ [(last rs)\<lparr>ur_messages := note_dispatched_message (ur_messages (last rs))\<rparr>]
      else rs @ [\<lparr>ur_relayer = relayer, ur_messages = delivered_messages_new nonce\<rparr>])"

definition receive_message ::
  "'s inbound_ops \<Rightarrow> (message \<Rightarrow> 's \<Rightarrow> 'r \<times> 's) \<Rightarrow> account_id \<Rightarrow> nonce \<Rightarrow> message_payload
     \<Rightarrow> 's \<Rightarrow> 'r reception_result \<times> 's" where
  "receive_message ops dispatch relayer nonce message_data s =
     (let data = io_data ops s in
      if Some nonce \<noteq> checked_add u64_max (last_delivered_nonce data) 1 then (InvalidNonce, s)
      else if length (relayers data) \<ge> io_max_unrewarded_relayer_entries ops then (TooManyUnrewardedRelayers, s)
      else if nonce - last_confirmed_nonce data > io_max_unconfirmed_messages ops then (TooManyUnconfirmedMessages, s)
      else
        let (dispatch_result, s) = dispatch \<lparr>m_key = \<lparr>mk_lane_id = io_id ops, mk_nonce = nonce\<rparr>, m_payload = message_data\<rparr> s
        in (Dispatched dispatch_result,
            io_set_data ops (data\<lparr>relayers := note_delivered relayer nonce (relayers data)\<rparr>) s))"

section \<open>Unrewarded relayers cover a range without gaps\<close>

fun contiguous :: "nonce \<Rightarrow> unrewarded_relayer list \<Rightarrow> bool" where
  "contiguous b [] = True"
| "contiguous b (e # es) \<longleftrightarrow> dm_begin (ur_messages e) = b \<and> b \<le> dm_end (ur_messages e) \<and>
     contiguous (Suc (dm_end (ur_messages e))) es"

fun next_nonce :: "nonce \<Rightarrow> unrewarded_relayer list \<Rightarrow> nonce" where
  "next_nonce b [] = b"
| "next_nonce b (e # es) = next_nonce (Suc (dm_end (ur_messages e))) es"

definition inbound_ok :: "inbound_lane_data \<Rightarrow> bool" where
  "inbound_ok d \<longleftrightarrow> contiguous (Suc (last_confirmed_nonce d)) (relayers d) \<and> last_delivered_nonce d \<le> u64_max"

lemma next_nonce_last: "rs \<noteq> [] \<Longrightarrow> next_nonce b rs = Suc (dm_end (ur_messages (last rs)))"
  by (induction rs arbitrary: b) auto

lemma next_nonce_append [simp]: "next_nonce b (xs @ ys) = next_nonce (next_nonce b xs) ys"
  by (induction xs arbitrary: b) auto

lemma contiguous_append [simp]: "contiguous b (xs @ ys) \<longleftrightarrow> contiguous b xs \<and> contiguous (next_nonce b xs) ys"
  by (induction xs arbitrary: b) auto

lemma contiguous_next_ge: "contiguous b rs \<Longrightarrow> b \<le> next_nonce b rs"
proof (induction rs arbitrary: b)
  case (Cons e es)
  then have "Suc (dm_end (ur_messages e)) \<le> next_nonce (Suc (dm_end (ur_messages e))) es" by simp
  with Cons.prems show ?case by simp
qed simp

lemma contiguous_next_gt: "contiguous b rs \<Longrightarrow> rs \<noteq> [] \<Longrightarrow> b < next_nonce b rs"
  by (cases rs) (auto dest: contiguous_next_ge)

lemma last_delivered_next: "Suc (last_delivered_nonce d) = next_nonce (Suc (last_confirmed_nonce d)) (relayers d)"
  by (cases "relayers d = []") (auto simp: last_delivered_nonce_def next_nonce_last)

lemma inbound_ok_le: "inbound_ok d \<Longrightarrow> last_confirmed_nonce d \<le> last_delivered_nonce d"
  using contiguous_next_ge [of "Suc (last_confirmed_nonce d)" "relayers d"] last_delivered_next [of d]
  by (simp add: inbound_ok_def)

lemma inbound_ok_total:
  assumes "inbound_ok d"
  shows "total_unrewarded_messages d = last_delivered_nonce d - last_confirmed_nonce d"
proof (cases "relayers d")
  case Nil
  then show ?thesis by (simp add: total_unrewarded_messages_def last_delivered_nonce_def)
next
  case (Cons e es)
  with assms have b: "dm_begin (ur_messages e) = Suc (last_confirmed_nonce d)" and "last_delivered_nonce d \<le> u64_max"
    by (simp_all add: inbound_ok_def)
  then have "range_saturating_len (dm_begin (ur_messages e)) (last_delivered_nonce d) =
      Suc (last_delivered_nonce d) - dm_begin (ur_messages e)"
    by (intro range_saturating_len_eq) auto
  with Cons b show ?thesis by (simp add: total_unrewarded_messages_def last_delivered_nonce_def)
qed

lemma confirm_relayers_ok:
  assumes "contiguous b rs" and "b \<le> Suc n" and "n < next_nonce b rs" and "next_nonce b rs \<le> Suc u64_max"
  shows "contiguous (Suc n) (confirm_relayers n rs) \<and> next_nonce (Suc n) (confirm_relayers n rs) = next_nonce b rs \<and>
    length (confirm_relayers n rs) \<le> length rs"
  using assms
proof (induction rs arbitrary: b)
  case Nil
  then show ?case by (simp add: confirm_relayers_def)
next
  case (Cons e es)
  show ?case
  proof (cases "dm_end (ur_messages e) \<le> n")
    case True
    then have "confirm_relayers n (e # es) = confirm_relayers n es" by (simp add: confirm_relayers_def)
    with Cons.IH [of "Suc (dm_end (ur_messages e))"] Cons.prems True show ?thesis by auto
  next
    case False
    have "Suc (dm_end (ur_messages e)) \<le> next_nonce b (e # es)"
      using Cons.prems(1) contiguous_next_ge by simp
    with False Cons.prems have "add64 n 1 = Suc n" by (subst add64_exact) auto
    with False Cons.prems show ?thesis by (auto simp: confirm_relayers_def)
  qed
qed

lemma note_delivered_ok:
  assumes "contiguous b rs" and "nonce = next_nonce b rs" and "nonce \<le> u64_max"
  shows "contiguous b (note_delivered r nonce rs)" and "next_nonce b (note_delivered r nonce rs) = Suc nonce"
    and "length (note_delivered r nonce rs) \<le> Suc (length rs)"
proof -
  consider (new) "rs = [] \<or> ur_relayer (last rs) \<noteq> r" | (old) ys e where "rs = ys @ [e]" "ur_relayer e = r"
    by (cases rs rule: rev_cases) auto
  then have "contiguous b (note_delivered r nonce rs) \<and> next_nonce b (note_delivered r nonce rs) = Suc nonce \<and>
    length (note_delivered r nonce rs) \<le> Suc (length rs)"
  proof cases
    case new
    then have "note_delivered r nonce rs = rs @ [\<lparr>ur_relayer = r, ur_messages = delivered_messages_new nonce\<rparr>]"
      by (auto simp: note_delivered_def)
    with assms show ?thesis by (simp add: delivered_messages_new_def)
  next
    case old
    then have "note_delivered r nonce rs = ys @ [e\<lparr>ur_messages := note_dispatched_message (ur_messages e)\<rparr>]"
      by (simp add: note_delivered_def)
    with assms old show ?thesis by (auto simp: note_dispatched_message_def)
  qed
  then show "contiguous b (note_delivered r nonce rs)" "next_nonce b (note_delivered r nonce rs) = Suc nonce"
    "length (note_delivered r nonce rs) \<le> Suc (length rs)" by auto
qed

section \<open>Rewards\<close>

definition delivered_by :: "unrewarded_relayer list \<Rightarrow> account_id \<Rightarrow> nonce set" where
  "delivered_by rs r = {n. \<exists>e \<in> set rs. ur_relayer e = r \<and> contains_message (ur_messages e) n}"

definition reward_of :: "(account_id \<times> nonce) list \<Rightarrow> account_id \<Rightarrow> nonce" where
  "reward_of xs r = opt_val id (map_of xs r)"

definition rewards_sum :: "(account_id \<times> nonce) list \<Rightarrow> nonce" where
  "rewards_sum xs = sum_list (map snd xs)"

abbreviation in_order :: "(account_id \<times> nonce) list \<Rightarrow> bool" where
  "in_order xs \<equiv> sorted_wrt (<) (map fst xs)"

lemma btree_add_keys: "fst ` set (btree_add r n xs) = insert r (fst ` set xs)"
  by (induction r n xs rule: btree_add.induct) auto

lemma btree_add_order: "in_order xs \<Longrightarrow> in_order (btree_add r n xs)"
proof (induction r n xs rule: btree_add.induct)
  case (2 r n r' m xs)
  have "\<forall>k \<in> set (map fst (btree_add r n xs)). k = r \<or> k \<in> set (map fst xs)"
    using btree_add_keys [of r n xs] by auto
  with 2 show ?case by fastforce
qed simp

lemma btree_add_lookup:
  "in_order xs \<Longrightarrow> map_of (btree_add r n xs) = (map_of xs)(r \<mapsto> add64 (reward_of xs r) n)"
proof (induction r n xs rule: btree_add.induct)
  case (2 r n r' m xs)
  have "r < r' \<Longrightarrow> map_of xs r = None" using "2.prems" by (force simp: map_of_eq_None_iff)
  with 2 show ?case by (auto simp: reward_of_def fun_eq_iff)
qed (simp add: reward_of_def fun_eq_iff)

lemma btree_add_sum:
  "rewards_sum xs + n \<le> u64_max \<Longrightarrow> rewards_sum (btree_add r n xs) = rewards_sum xs + n"
  by (induction r n xs rule: btree_add.induct) (auto simp: rewards_sum_def)

lemma delivered_by_Cons:
  "delivered_by (e # es) r = (if ur_relayer e = r then {dm_begin (ur_messages e) .. dm_end (ur_messages e)} else {}) \<union> delivered_by es r"
  by (auto simp: delivered_by_def contains_message_def)

lemma delivered_by_range: "contiguous c es \<Longrightarrow> n \<in> delivered_by es r \<Longrightarrow> c \<le> n \<and> n < next_nonce c es"
proof (induction es arbitrary: c)
  case (Cons e es)
  then show ?case using contiguous_next_ge [of "Suc (dm_end (ur_messages e))" es]
    by (fastforce simp: delivered_by_Cons split: if_splits)
qed (simp add: delivered_by_def)

lemma delivered_by_finite: "finite (delivered_by rs r)"
  by (induction rs) (auto simp: delivered_by_Cons, simp add: delivered_by_def)

lemma card_range_Int: "card ({a..b} \<inter> {c..d::nat}) = (if max c a \<le> min d b then min d b - max c a + 1 else 0)"
proof -
  have "{a..b} \<inter> {c..d} = {max c a .. min d b}" by auto
  then have "card ({a..b} \<inter> {c..d}) = Suc (min d b) - max c a" by simp
  then show ?thesis by (simp only: split: if_split) linarith
qed

definition entry_share :: "nonce \<Rightarrow> nonce \<Rightarrow> unrewarded_relayer \<Rightarrow> nonce" where
  "entry_share a b e = card ({a..b} \<inter> {dm_begin (ur_messages e) .. dm_end (ur_messages e)})"

lemma rewards_loop_Cons:
  assumes "entry_share a b e \<le> u64_max"
  shows "rewards_loop (e # es) (a, b) acc =
    rewards_loop es (a, b) (if 0 < entry_share a b e then btree_add (ur_relayer e) (entry_share a b e) acc else acc)"
proof -
  define x y where "x = max (dm_begin (ur_messages e)) a" and "y = min (dm_end (ur_messages e)) b"
  have share: "entry_share a b e = (if x \<le> y then y - x + 1 else 0)"
    unfolding entry_share_def x_def y_def by (rule card_range_Int)
  have loop: "rewards_loop (e # es) (a, b) acc =
      rewards_loop es (a, b) (if x \<le> y then btree_add (ur_relayer e) (add64 (y - x) 1) acc else acc)"
    by (simp add: x_def y_def Let_def)
  show ?thesis using assms unfolding loop share by (cases "x \<le> y") simp_all
qed

lemma delivered_share:
  assumes "contiguous c (e # es)"
  shows "card ({a..b} \<inter> delivered_by (e # es) r) =
    (if ur_relayer e = r then entry_share a b e else 0) + card ({a..b} \<inter> delivered_by es r)"
proof -
  let ?X = "{dm_begin (ur_messages e) .. dm_end (ur_messages e)}"
  have "?X \<inter> delivered_by es r = {}"
    using assms delivered_by_range [of "Suc (dm_end (ur_messages e))" es] by fastforce
  then have "card ({a..b} \<inter> ?X \<union> {a..b} \<inter> delivered_by es r) = card ({a..b} \<inter> ?X) + card ({a..b} \<inter> delivered_by es r)"
    by (intro card_Un_disjoint) (auto simp: delivered_by_finite)
  then show ?thesis by (simp add: delivered_by_Cons entry_share_def Int_Un_distrib)
qed

lemma reward_of_btree_add:
  assumes "in_order xs" and "reward_of xs r + n \<le> u64_max"
  shows "reward_of (btree_add r n xs) q = reward_of xs q + (if q = r then n else 0)"
  using assms by (simp add: reward_of_def [of "btree_add r n xs"] btree_add_lookup) (simp add: reward_of_def)

lemma rewards_loop_lookup:
  assumes "contiguous c es" and "in_order acc"
    and "\<And>r. reward_of acc r + card ({a..b} \<inter> delivered_by es r) \<le> u64_max"
  shows "in_order (rewards_loop es (a, b) acc) \<and>
    reward_of (rewards_loop es (a, b) acc) r = reward_of acc r + card ({a..b} \<inter> delivered_by es r)"
  using assms
proof (induction es arbitrary: c acc)
  case Nil
  then show ?case by (simp add: delivered_by_def)
next
  case (Cons e es)
  note share = delivered_share [OF Cons.prems(1), of a b]
  define acc' where "acc' = (if 0 < entry_share a b e then btree_add (ur_relayer e) (entry_share a b e) acc else acc)"
  have bound: "reward_of acc (ur_relayer e) + entry_share a b e \<le> u64_max"
    using Cons.prems(3) [of "ur_relayer e"] share [of "ur_relayer e"] by simp
  have acc': "in_order acc'" "reward_of acc' q = reward_of acc q + (if q = ur_relayer e then entry_share a b e else 0)" for q
    using Cons.prems(2) bound by (auto simp: acc'_def btree_add_order reward_of_btree_add)
  have "reward_of acc' q + card ({a..b} \<inter> delivered_by es q) \<le> u64_max" for q
    using Cons.prems(3) [of q] share [of q] acc'(2) [of q] by (simp split: if_splits)
  with Cons.IH [of "Suc (dm_end (ur_messages e))" acc'] Cons.prems(1) acc'(1)
  have "in_order (rewards_loop es (a, b) acc') \<and>
      reward_of (rewards_loop es (a, b) acc') r = reward_of acc' r + card ({a..b} \<inter> delivered_by es r)" by simp
  moreover have "rewards_loop (e # es) (a, b) acc = rewards_loop es (a, b) acc'"
    using bound by (simp only: rewards_loop_Cons acc'_def)
  ultimately show ?case using share [of r] acc'(2) [of r] by simp
qed

lemma calc_relayers_rewards_exact:
  assumes "contiguous c rs" and "0 < c" and "next_nonce c rs \<le> Suc u64_max"
  shows "reward_of (calc_relayers_rewards rs (a, b)) r = card ({a..b} \<inter> delivered_by rs r)"
    and "in_order (calc_relayers_rewards rs (a, b))"
proof -
  have "card ({a..b} \<inter> delivered_by rs q) \<le> u64_max" for q
  proof -
    have "{a..b} \<inter> delivered_by rs q \<subseteq> {1..u64_max}"
      using delivered_by_range [OF assms(1)] assms(2,3) by fastforce
    from card_mono [OF _ this] show ?thesis by simp
  qed
  with rewards_loop_lookup [OF assms(1), of "[]" a b r]
  show "reward_of (calc_relayers_rewards rs (a, b)) r = card ({a..b} \<inter> delivered_by rs r)"
    and "in_order (calc_relayers_rewards rs (a, b))"
    by (auto simp: calc_relayers_rewards_def reward_of_def)
qed

lemma rewards_loop_sum:
  assumes "contiguous c es" and "rewards_sum acc + card ({a..b} \<inter> {c ..< next_nonce c es}) \<le> u64_max"
  shows "rewards_sum (rewards_loop es (a, b) acc) = rewards_sum acc + card ({a..b} \<inter> {c ..< next_nonce c es})"
  using assms
proof (induction es arbitrary: c acc)
  case (Cons e es)
  let ?n = "Suc (dm_end (ur_messages e))"
  have split: "{c ..< next_nonce c (e # es)} = {c..dm_end (ur_messages e)} \<union> {?n ..< next_nonce ?n es}"
    using Cons.prems(1) contiguous_next_ge [of ?n es] by auto
  have card: "card ({a..b} \<inter> {c ..< next_nonce c (e # es)}) =
      entry_share a b e + card ({a..b} \<inter> {?n ..< next_nonce ?n es})"
    unfolding split Int_Un_distrib entry_share_def using Cons.prems(1) by (subst card_Un_disjoint) auto
  then have le: "rewards_sum acc + entry_share a b e \<le> u64_max" using Cons.prems(2) by simp
  define acc' where "acc' = (if 0 < entry_share a b e then btree_add (ur_relayer e) (entry_share a b e) acc else acc)"
  have acc': "rewards_sum acc' = rewards_sum acc + entry_share a b e"
    using le by (simp add: acc'_def btree_add_sum)
  have "rewards_loop (e # es) (a, b) acc = rewards_loop es (a, b) acc'"
    using le by (simp only: rewards_loop_Cons acc'_def)
  with Cons.IH [of ?n acc'] Cons.prems card acc' show ?case by simp
qed simp

lemma calc_relayers_rewards_sum:
  assumes "contiguous c rs" and "c \<le> a" and "0 < c" and "Suc b = next_nonce c rs" and "b \<le> u64_max"
  shows "rewards_sum (calc_relayers_rewards rs (a, b)) = Suc b - a"
proof -
  have "{a..b} \<inter> {c ..< next_nonce c rs} = {a..b}" using assms by auto
  with rewards_loop_sum [OF assms(1), of "[]" a b] assms show ?thesis
    by (simp add: calc_relayers_rewards_def rewards_sum_def)
qed

section \<open>What a storage of an outbound lane owes\<close>

locale outbound_store =
  fixes ops :: "'s outbound_ops" and committed :: "'s \<Rightarrow> outbound_lane_data option" and frame :: "'s \<Rightarrow> 'f"
  assumes data_set [simp]: "oo_data ops (oo_set_data ops d s) = d"
    and data_save [simp]: "oo_data ops (oo_save_message ops n p s) = oo_data ops s"
    and data_remove [simp]: "oo_data ops (oo_remove_message ops n s) = oo_data ops s"
    and message_set [simp]: "oo_message ops (oo_set_data ops d s) = oo_message ops s"
    and message_save [simp]: "oo_message ops (oo_save_message ops n p s) = (oo_message ops s)(n \<mapsto> p)"
    and message_remove [simp]: "oo_message ops (oo_remove_message ops n s) = (oo_message ops s)(n := None)"
    and committed_ops [simp]: "committed (oo_set_data ops d s) = Some d" "committed (oo_save_message ops n p s) = committed s"
      "committed (oo_remove_message ops n s) = committed s"
    and frame_ops [simp]: "frame (oo_set_data ops d s) = frame s" "frame (oo_save_message ops n p s) = frame s"
      "frame (oo_remove_message ops n s) = frame s"
begin

lemma remove_messages_ok:
  "oo_data ops (remove_messages ops a b s) = oo_data ops s"
  "oo_message ops (remove_messages ops a b s) = (\<lambda>n. if a \<le> n \<and> n \<le> b then None else oo_message ops s n)"
  "frame (remove_messages ops a b s) = frame s"
proof -
  have "oo_data ops (fold (oo_remove_message ops) ns s) = oo_data ops s \<and>
      oo_message ops (fold (oo_remove_message ops) ns s) = (\<lambda>n. if n \<in> set ns then None else oo_message ops s n) \<and>
      frame (fold (oo_remove_message ops) ns s) = frame s" for ns
    by (induction ns arbitrary: s) (auto simp: fun_eq_iff)
  from this [of "[a ..< Suc b]"] show "oo_data ops (remove_messages ops a b s) = oo_data ops s"
    "oo_message ops (remove_messages ops a b s) = (\<lambda>n. if a \<le> n \<and> n \<le> b then None else oo_message ops s n)"
    "frame (remove_messages ops a b s) = frame s"
    by (auto simp: remove_messages_def fun_eq_iff less_Suc_eq_le)
qed

lemma send_ok:
  assumes "out_send_message ops payload s = (nonce, s')" and "latest_generated_nonce (oo_data ops s) < u64_max"
  shows "nonce = Suc (latest_generated_nonce (oo_data ops s))"
    and "oo_data ops s' = (oo_data ops s)\<lparr>latest_generated_nonce := nonce\<rparr>"
    and "oo_message ops s' = (oo_message ops s)(nonce \<mapsto> payload)" and "committed s' = Some (oo_data ops s')"
    and "frame s' = frame s"
  using assms by (auto simp: out_send_message_def Let_def)

lemma confirm_ok:
  assumes run: "confirm_delivery ops mx k rs s = (Inr r, s')" and k: "k \<le> u64_max"
    and le: "latest_received_nonce (oo_data ops s) < u64_max"
  shows "r = None \<and> s' = s \<and> k \<le> latest_received_nonce (oo_data ops s) \<or>
    r = Some \<lparr>dm_begin = Suc (latest_received_nonce (oo_data ops s)), dm_end = k\<rparr> \<and>
    latest_received_nonce (oo_data ops s) < k \<and> k \<le> latest_generated_nonce (oo_data ops s) \<and>
    oo_data ops s' = (oo_data ops s)\<lparr>latest_received_nonce := k, oldest_unpruned_nonce := sat_add u64_max k 1\<rparr> \<and>
    oo_message ops s' = (\<lambda>n. if latest_received_nonce (oo_data ops s) < n \<and> n \<le> k then None else oo_message ops s n) \<and>
    committed s' = Some (oo_data ops s') \<and> frame s' = frame s"
proof -
  let ?a = "latest_received_nonce (oo_data ops s)"
  have total: "total_messages \<lparr>dm_begin = Suc ?a, dm_end = k\<rparr> = k - ?a"
    using k le by (simp add: total_messages_def range_saturating_len_eq)
  have a: "sat_add u64_max ?a (Suc 0) = Suc ?a" using le by (subst sat_add_exact) auto
  show ?thesis
    using run by (auto simp: confirm_delivery_def Let_def a total remove_messages_ok Suc_le_eq fun_eq_iff split: if_splits)
qed

end

section \<open>What a storage of an inbound lane owes\<close>

locale inbound_store =
  fixes ops :: "'s inbound_ops"
  assumes data_set [simp]: "io_data ops (io_set_data ops d s) = d"
begin

lemma state_update_ok:
  assumes "receive_state_update ops outbound s = (r, s')" and "inbound_ok (io_data ops s)"
  shows "inbound_ok (io_data ops s') \<and> last_delivered_nonce (io_data ops s') = last_delivered_nonce (io_data ops s) \<and>
    (last_confirmed_nonce (io_data ops s') = last_confirmed_nonce (io_data ops s) \<or>
     last_confirmed_nonce (io_data ops s') = latest_received_nonce outbound) \<and>
    last_confirmed_nonce (io_data ops s) \<le> last_confirmed_nonce (io_data ops s') \<and>
    length (relayers (io_data ops s')) \<le> length (relayers (io_data ops s)) \<and>
    il_state (io_data ops s') = il_state (io_data ops s) \<and> (s' = s \<or> s' = io_set_data ops (io_data ops s') s)"
proof -
  let ?d = "io_data ops s" and ?n = "latest_received_nonce outbound"
  show ?thesis
  proof (cases "?n > last_delivered_nonce ?d \<or> ?n \<le> last_confirmed_nonce ?d")
    case True
    with assms(1) have "s' = s" by (auto simp: receive_state_update_def Let_def split: if_splits)
    with assms(2) show ?thesis by simp
  next
    case False
    with assms(1) have s': "s' = io_set_data ops (?d\<lparr>last_confirmed_nonce := ?n, relayers := confirm_relayers ?n (relayers ?d)\<rparr>) s"
      by (auto simp: receive_state_update_def Let_def)
    have "contiguous (Suc ?n) (confirm_relayers ?n (relayers ?d)) \<and>
        next_nonce (Suc ?n) (confirm_relayers ?n (relayers ?d)) = next_nonce (Suc (last_confirmed_nonce ?d)) (relayers ?d) \<and>
        length (confirm_relayers ?n (relayers ?d)) \<le> length (relayers ?d)"
      using assms(2) False last_delivered_next [of ?d] by (intro confirm_relayers_ok) (auto simp: inbound_ok_def)
    moreover have "Suc (last_delivered_nonce (io_data ops s')) = next_nonce (Suc ?n) (confirm_relayers ?n (relayers ?d))"
      using last_delivered_next [of "io_data ops s'"] by (simp add: s')
    ultimately show ?thesis
      using assms(2) False last_delivered_next [of ?d] by (auto simp: inbound_ok_def s')
  qed
qed

lemma receive_message_ok:
  assumes run: "receive_message ops dispatch relayer nonce payload s = (r, s')" and ok: "inbound_ok (io_data ops s)"
    and disp: "\<And>m s. io_data ops (snd (dispatch m s)) = io_data ops s"
  shows "(\<forall>x. r \<noteq> Dispatched x) \<and> s' = s \<or>
    (\<exists>x s1. r = Dispatched x \<and> nonce = Suc (last_delivered_nonce (io_data ops s)) \<and>
      dispatch \<lparr>m_key = \<lparr>mk_lane_id = io_id ops, mk_nonce = nonce\<rparr>, m_payload = payload\<rparr> s = (x, s1) \<and>
      s' = io_set_data ops (io_data ops s') s1 \<and> inbound_ok (io_data ops s') \<and>
      last_delivered_nonce (io_data ops s') = nonce \<and>
      last_confirmed_nonce (io_data ops s') = last_confirmed_nonce (io_data ops s) \<and>
      il_state (io_data ops s') = il_state (io_data ops s) \<and>
      nonce - last_confirmed_nonce (io_data ops s) \<le> io_max_unconfirmed_messages ops \<and>
      length (relayers (io_data ops s')) \<le> io_max_unrewarded_relayer_entries ops)"
proof (cases "\<exists>x. r = Dispatched x")
  case False
  with run show ?thesis by (auto simp: receive_message_def Let_def split: if_splits prod.splits)
next
  case True
  then obtain x where x: "r = Dispatched x" by blast
  let ?d = "io_data ops s" and ?m = "\<lparr>m_key = \<lparr>mk_lane_id = io_id ops, mk_nonce = nonce\<rparr>, m_payload = payload\<rparr>"
  obtain y s1 where y: "dispatch ?m s = (y, s1)" by (cases "dispatch ?m s")
  from run x y have n: "nonce = Suc (last_delivered_nonce ?d)" "nonce \<le> u64_max"
    and lim: "length (relayers ?d) < io_max_unrewarded_relayer_entries ops"
      "nonce - last_confirmed_nonce ?d \<le> io_max_unconfirmed_messages ops"
    and s': "s' = io_set_data ops (?d\<lparr>relayers := note_delivered relayer nonce (relayers ?d)\<rparr>) s1" and xy: "x = y"
    by (auto simp: receive_message_def Let_def split: if_splits dest: sym)
  have "contiguous (Suc (last_confirmed_nonce ?d)) (relayers ?d)" "nonce = next_nonce (Suc (last_confirmed_nonce ?d)) (relayers ?d)"
    using ok n(1) last_delivered_next [of ?d] by (simp_all add: inbound_ok_def)
  note nd = note_delivered_ok [OF this n(2), of relayer]
  have "Suc (last_delivered_nonce (io_data ops s')) = Suc nonce"
    using last_delivered_next [of "io_data ops s'"] nd(2) by (simp add: s')
  with nd n lim xy y x show ?thesis by (auto simp: s' inbound_ok_def)
qed

end

end
