(* ===== verification/Bridge_Messages.thy ===== *)
theory Bridge_Messages
  imports Bridge_Lanes
begin

text \<open>
  The messages pallet of the bridges (\<open>src/bridges/modules/messages/src/\<close>): the storage of the pallet, the lanes
  manager that opens lanes over it, the verification of storage proofs from the bridged chain, sending, and the two
  calls of relayers that deliver messages and confirm their delivery.

  The state of the pallet is the record \<open>messages_state\<close>. The dispatcher of messages and the payment handlers are
  parameters of the pallet (traits of its configuration): the dispatcher works on a state of its own, \<open>mdisp\<close>, and the
  handlers on \<open>mext\<close>; decoding a payload is a part of dispatching it. A storage proof is what the proof checker reads
  from it, a value, nothing or an error, at the keys of messages, outbound lanes and inbound lanes; the checker and
  the finalised headers are parameters as well. Weights of the calls come from benchmarks and are parameters.
\<close>

section \<open>Weights\<close>

record weight =
  ref_time :: nat
  proof_size :: nat

definition sub64 :: "nat \<Rightarrow> nat \<Rightarrow> nat" where
  "sub64 a b = (a + (u64_max + 1) - b) mod (u64_max + 1)"

definition set_proof_size :: "weight \<Rightarrow> nat \<Rightarrow> weight" where
  "set_proof_size w c = w\<lparr>proof_size := c\<rparr>"

definition weight_min :: "weight \<Rightarrow> weight \<Rightarrow> weight" where
  "weight_min v w = \<lparr>ref_time = min (ref_time v) (ref_time w), proof_size = min (proof_size v) (proof_size w)\<rparr>"

definition weight_saturating_sub :: "weight \<Rightarrow> weight \<Rightarrow> weight" where
  "weight_saturating_sub v w = \<lparr>ref_time = ref_time v - ref_time w, proof_size = proof_size v - proof_size w\<rparr>"

definition weight_any_gt :: "weight \<Rightarrow> weight \<Rightarrow> bool" where
  "weight_any_gt v w \<longleftrightarrow> ref_time v > ref_time w \<or> proof_size v > proof_size w"

definition weight_sub :: "weight \<Rightarrow> weight \<Rightarrow> weight" where
  "weight_sub v w = \<lparr>ref_time = sub64 (ref_time v) (ref_time w), proof_size = sub64 (proof_size v) (proof_size w)\<rparr>"

section \<open>Errors, modes and proofs\<close>

datatype basic_operating_mode = Normal | Halted

datatype messages_operating_mode = Basic basic_operating_mode | RejectingOutboundMessages

fun is_halted :: "messages_operating_mode \<Rightarrow> bool" where
  "is_halted (Basic m) \<longleftrightarrow> m = Halted"
| "is_halted RejectingOutboundMessages \<longleftrightarrow> False"

datatype owned_bridge_module_error = ModuleHalted

datatype lanes_manager_error =
    InboundLaneAlreadyExists
  | OutboundLaneAlreadyExists
  | UnknownInboundLane
  | UnknownOutboundLane
  | ClosedInboundLane
  | ClosedOutboundLane
  | LaneDispatcherInactive

datatype storage_proof_error =
    UnableToGenerateTrieProof
  | InvalidProof
  | UnsortedEntries
  | UnavailableKey
  | EmptyVal
  | DecodeError
  | UnusedKey
  | StorageRootMismatch
  | StorageValueUnavailable
  | DuplicateNodes

datatype header_chain_error = UnknownHeader | HeaderStorageProof storage_proof_error

datatype verification_error =
    EmptyMessageProof
  | HeaderChain header_chain_error
  | InboundLaneStorage storage_proof_error
  | InvalidMessageWeight
  | MessagesCountMismatch
  | MessageStorage storage_proof_error
  | MessageTooLarge
  | OutboundLaneStorage storage_proof_error
  | StorageProof storage_proof_error
  | Other string

datatype messages_error =
    NotOperatingNormally
  | LanesManager lanes_manager_error
  | MessageRejectedByPallet verification_error
  | TooManyMessagesInTheProof
  | InvalidMessagesProof
  | InvalidMessagesDeliveryProof
  | InvalidUnrewardedRelayersState
  | InsufficientDispatchWeight
  | ReceptionConfirmation reception_confirmation_error
  | BridgeModule owned_bridge_module_error

type_synonym hash = nat
type_synonym raw_storage_proof = "8 word list list"

definition raw_storage_proof_size :: "nat \<Rightarrow> raw_storage_proof \<Rightarrow> nat" where
  "raw_storage_proof_size usize_max raw = fold (\<lambda>node sum. sat_add usize_max sum (length node)) raw 0"

record messages_proof =
  bridged_header_hash :: hash
  storage_proof :: raw_storage_proof
  mp_lane :: lane_id
  nonces_start :: nonce
  nonces_end :: nonce

record delivery_proof =
  dp_header_hash :: hash
  dp_storage_proof :: raw_storage_proof
  dp_lane :: lane_id

record proved_lane_messages =
  lane_state_of :: "outbound_lane_data option"
  lane_messages :: "message list"

text \<open>
  What a proof can show: the values of the bridged chain at the keys of this pallet there. A value that does not
  have the type of its key stands for bytes that cannot be decoded.
\<close>

datatype storage_key = MessageKeyOf message_key | OutboundLaneKey lane_id | InboundLaneKey lane_id

datatype storage_item =
    SMessage message_payload
  | SOutbound outbound_lane_data
  | SInbound inbound_lane_data

record proof_checker =
  pc_read :: "storage_key \<Rightarrow> storage_item option option"
  pc_no_unused :: "storage_key list \<Rightarrow> bool"
  pc_accessed :: "storage_key list"

fun decode_payload :: "storage_item \<Rightarrow> message_payload option" where
  "decode_payload (SMessage p) = Some p"
| "decode_payload _ = None"

fun decode_outbound :: "storage_item \<Rightarrow> outbound_lane_data option" where
  "decode_outbound (SOutbound d) = Some d"
| "decode_outbound _ = None"

fun decode_inbound :: "storage_item \<Rightarrow> inbound_lane_data option" where
  "decode_inbound (SInbound d) = Some d"
| "decode_inbound _ = None"

definition emap_err :: "('e \<Rightarrow> 'f) \<Rightarrow> ('s, 'e, 'a) em \<Rightarrow> ('s, 'f, 'a) em" where
  "emap_err h m = ezoom (\<lambda>s. s) (\<lambda>t s. t) h m"

lemma emap_err_iff [simp]: "emap_err h m s = (Inr x, s') \<longleftrightarrow> m s = (Inr x, s')"
  by (auto simp: emap_err_def)

definition read_value :: "storage_key \<Rightarrow> (proof_checker, storage_proof_error, storage_item option) em" where
  "read_value key =
     ebind (emod (\<lambda>c. c\<lparr>pc_accessed := key # pc_accessed c\<rparr>)) (\<lambda>_.
     ebind (eget (\<lambda>c. pc_read c key)) (\<lambda>r.
     eoption r StorageValueUnavailable))"

definition read_and_decode_value ::
  "(storage_item \<Rightarrow> 'a option) \<Rightarrow> storage_key \<Rightarrow> (proof_checker, storage_proof_error, 'a option) em" where
  "read_and_decode_value decode key =
     ebind (read_value key) (\<lambda>v.
     case v of None \<Rightarrow> eret None
     | Some b \<Rightarrow> ebind (eoption (decode b) DecodeError) (\<lambda>x. eret (Some x)))"

definition read_and_decode_mandatory_value ::
  "(storage_item \<Rightarrow> 'a option) \<Rightarrow> storage_key \<Rightarrow> (proof_checker, storage_proof_error, 'a) em" where
  "read_and_decode_mandatory_value decode key =
     ebind (read_and_decode_value decode key) (\<lambda>v. eoption v EmptyVal)"

definition read_and_decode_opt_value ::
  "(storage_item \<Rightarrow> 'a option) \<Rightarrow> storage_key \<Rightarrow> (proof_checker, storage_proof_error, 'a option) em" where
  "read_and_decode_opt_value decode key c =
     (case read_and_decode_value decode key c of
        (Inl StorageValueUnavailable, c') \<Rightarrow> (Inr None, c')
      | r \<Rightarrow> r)"

definition ensure_no_unused_keys :: "(proof_checker, storage_proof_error, unit) em" where
  "ensure_no_unused_keys = ebind (eget (\<lambda>c. pc_no_unused c (pc_accessed c))) (\<lambda>b. eensure b UnusedKey)"

section \<open>State and configuration\<close>

record 'r dispatch_result =
  unspent_weight :: weight
  dispatch_level_result :: 'r

datatype 'r messages_event =
    MessageAccepted lane_id nonce
  | MessagesReceived lane_id "(nonce \<times> 'r dispatch_result reception_result) list"
  | MessagesDelivered lane_id delivered_messages

record ('d, 'r, 'x) messages_state =
  pallet_owner :: "account_id option"
  pallet_operating_mode :: messages_operating_mode
  inbound_lanes :: "lane_id \<Rightarrow> inbound_lane_data option"
  outbound_lanes :: "lane_id \<Rightarrow> outbound_lane_data option"
  outbound_messages :: "message_key \<Rightarrow> message_payload option"
  mdisp :: 'd
  mext :: 'x
  m_events :: "'r messages_event list"

record ('d, 'r, 'x) messages_config =
  mc_max_unrewarded_relayers :: nonce
  mc_max_unconfirmed_messages :: nonce
  mc_maximal_incoming_message_size :: nat
  mc_usize_max :: nat
  mc_relayer_entry_len :: nat
  mc_finalized_state_root :: "hash \<Rightarrow> hash option"
  mc_checker :: "hash \<Rightarrow> raw_storage_proof \<Rightarrow> storage_proof_error + proof_checker"
  md_is_active :: "lane_id \<Rightarrow> 'd \<Rightarrow> bool"
  md_dispatch_weight :: "message \<Rightarrow> 'd \<Rightarrow> weight"
  md_dispatch :: "message \<Rightarrow> 'd \<Rightarrow> 'r dispatch_result \<times> 'd"
  mp_delivery :: "account_id \<Rightarrow> nonce \<Rightarrow> nonce \<Rightarrow> weight \<Rightarrow> 'x \<Rightarrow> 'x"
  mp_confirmation :: "lane_id \<Rightarrow> unrewarded_relayer list \<Rightarrow> account_id \<Rightarrow> nonce \<times> nonce \<Rightarrow> 'x \<Rightarrow> nonce \<times> 'x"
  mp_on_messages_delivered :: "lane_id \<Rightarrow> nonce \<Rightarrow> 'x \<Rightarrow> 'x"
  mw_receive_messages_proof :: "nat \<Rightarrow> nat \<Rightarrow> weight \<Rightarrow> weight"
  mw_receive_messages_delivery_proof :: "nat \<Rightarrow> unrewarded_relayers_state \<Rightarrow> weight"

type_synonym ('d, 'r, 'x, 'a) messages_em = "(('d, 'r, 'x) messages_state, messages_error pallet_error, 'a) em"

definition raw_proof_size :: "('d, 'r, 'x) messages_config \<Rightarrow> raw_storage_proof \<Rightarrow> nat" where
  "raw_proof_size cfg raw = min u32_max (raw_storage_proof_size (mc_usize_max cfg) raw)"

definition m_event :: "'r messages_event \<Rightarrow> ('d, 'r, 'x) messages_state \<Rightarrow> ('d, 'r, 'x) messages_state" where
  "m_event e st = st\<lparr>m_events := m_events st @ [e]\<rparr>"

section \<open>Verification of proofs\<close>

definition verify_storage_proof ::
  "('d, 'r, 'x) messages_config \<Rightarrow> hash \<Rightarrow> raw_storage_proof \<Rightarrow> header_chain_error + proof_checker" where
  "verify_storage_proof cfg header_hash raw =
     (case mc_finalized_state_root cfg header_hash of
        None \<Rightarrow> Inl UnknownHeader
      | Some state_root \<Rightarrow>
          (case mc_checker cfg state_root raw of Inl e \<Rightarrow> Inl (HeaderStorageProof e) | Inr checker \<Rightarrow> Inr checker))"

fun read_messages :: "lane_id \<Rightarrow> nonce list \<Rightarrow> (proof_checker, verification_error, message list) em" where
  "read_messages lane [] = eret []"
| "read_messages lane (nonce # nonces) =
     (let message_key = \<lparr>mk_lane_id = lane, mk_nonce = nonce\<rparr> in
      ebind (emap_err MessageStorage (read_and_decode_mandatory_value decode_payload (MessageKeyOf message_key))) (\<lambda>payload.
      ebind (read_messages lane nonces) (\<lambda>messages.
      eret (\<lparr>m_key = message_key, m_payload = payload\<rparr> # messages))))"

definition verify_messages_proof ::
  "('d, 'r, 'x) messages_config \<Rightarrow> messages_proof \<Rightarrow> nat \<Rightarrow> verification_error + (lane_id \<times> proved_lane_messages)" where
  "verify_messages_proof cfg proof messages_count =
     (case verify_storage_proof cfg (bridged_header_hash proof) (storage_proof proof) of
        Inl e \<Rightarrow> Inl (HeaderChain e)
      | Inr parser \<Rightarrow>
          fst (ebind (eensure (range_saturating_len (nonces_start proof) (nonces_end proof) = messages_count)
                        MessagesCountMismatch) (\<lambda>_.
               ebind (read_messages (mp_lane proof) [nonces_start proof ..< Suc (nonces_end proof)]) (\<lambda>messages.
               ebind (emap_err OutboundLaneStorage
                        (read_and_decode_opt_value decode_outbound (OutboundLaneKey (mp_lane proof)))) (\<lambda>lane_state.
               ebind (eensure (\<not> (lane_state = None \<and> messages = [])) EmptyMessageProof) (\<lambda>_.
               ebind (emap_err StorageProof ensure_no_unused_keys) (\<lambda>_.
               eret (mp_lane proof, \<lparr>lane_state_of = lane_state, lane_messages = messages\<rparr>)))))) parser))"

definition verify_messages_delivery_proof ::
  "('d, 'r, 'x) messages_config \<Rightarrow> delivery_proof \<Rightarrow> verification_error + (lane_id \<times> inbound_lane_data)" where
  "verify_messages_delivery_proof cfg proof =
     (case verify_storage_proof cfg (dp_header_hash proof) (dp_storage_proof proof) of
        Inl e \<Rightarrow> Inl (HeaderChain e)
      | Inr parser \<Rightarrow>
          fst (ebind (emap_err InboundLaneStorage
                        (read_and_decode_mandatory_value decode_inbound (InboundLaneKey (dp_lane proof)))) (\<lambda>lane_data.
               ebind (emap_err StorageProof ensure_no_unused_keys) (\<lambda>_.
               eret (dp_lane proof, lane_data))) parser))"

section \<open>Lanes over the storage of the pallet\<close>

text \<open>A lane object: the cached data of the lane and the storage of the pallet.\<close>

definition runtime_inbound ::
  "('d, 'r, 'x) messages_config \<Rightarrow> lane_id \<Rightarrow> (inbound_lane_data \<times> ('d, 'r, 'x) messages_state) inbound_ops" where
  "runtime_inbound cfg lane =
     \<lparr>io_id = lane,
      io_max_unrewarded_relayer_entries = mc_max_unrewarded_relayers cfg,
      io_max_unconfirmed_messages = mc_max_unconfirmed_messages cfg,
      io_data = fst,
      io_set_data = (\<lambda>data (cached, st). (data, st\<lparr>inbound_lanes := (inbound_lanes st)(lane \<mapsto> data)\<rparr>))\<rparr>"

definition runtime_outbound ::
  "lane_id \<Rightarrow> (outbound_lane_data \<times> ('d, 'r, 'x) messages_state) outbound_ops" where
  "runtime_outbound lane =
     \<lparr>oo_data = fst,
      oo_set_data = (\<lambda>data (cached, st). (data, st\<lparr>outbound_lanes := (outbound_lanes st)(lane \<mapsto> data)\<rparr>)),
      oo_message = (\<lambda>(cached, st) nonce. outbound_messages st \<lparr>mk_lane_id = lane, mk_nonce = nonce\<rparr>),
      oo_save_message = (\<lambda>nonce payload (cached, st).
        (cached, st\<lparr>outbound_messages := (outbound_messages st)(\<lparr>mk_lane_id = lane, mk_nonce = nonce\<rparr> \<mapsto> payload)\<rparr>)),
      oo_remove_message = (\<lambda>nonce (cached, st).
        (cached, st\<lparr>outbound_messages := (outbound_messages st)(\<lparr>mk_lane_id = lane, mk_nonce = nonce\<rparr> := None)\<rparr>))\<rparr>"

definition purge_inbound :: "lane_id \<Rightarrow> ('d, 'r, 'x) messages_state \<Rightarrow> ('d, 'r, 'x) messages_state" where
  "purge_inbound lane st = st\<lparr>inbound_lanes := (inbound_lanes st)(lane := None)\<rparr>"

definition purge_outbound :: "lane_id \<Rightarrow> ('d, 'r, 'x) messages_state \<Rightarrow> ('d, 'r, 'x) messages_state" where
  "purge_outbound lane st = st\<lparr>outbound_lanes := (outbound_lanes st)(lane := None)\<rparr>"

definition inbound_from_lane_id ::
  "('d, 'r, 'x) messages_config \<Rightarrow> lane_id \<Rightarrow> bool
     \<Rightarrow> (('d, 'r, 'x) messages_state, lanes_manager_error, inbound_lane_data) em" where
  "inbound_from_lane_id cfg lane check_active =
     ebind (eget (\<lambda>st. inbound_lanes st lane)) (\<lambda>o1.
     ebind (eoption o1 UnknownInboundLane) (\<lambda>cached_data.
     if check_active then
       ebind (eensure (is_active (il_state cached_data)) ClosedInboundLane) (\<lambda>_.
       ebind (eget (\<lambda>st. md_is_active cfg lane (mdisp st))) (\<lambda>active.
       ebind (eensure active LaneDispatcherInactive) (\<lambda>_.
       eret cached_data)))
     else eret cached_data))"

definition outbound_from_lane_id ::
  "lane_id \<Rightarrow> bool \<Rightarrow> (('d, 'r, 'x) messages_state, lanes_manager_error, outbound_lane_data) em" where
  "outbound_from_lane_id lane check_active =
     ebind (eget (\<lambda>st. outbound_lanes st lane)) (\<lambda>o1.
     ebind (eoption o1 UnknownOutboundLane) (\<lambda>cached_data.
     ebind (eensure (\<not> check_active \<or> is_active (ol_state cached_data)) ClosedOutboundLane) (\<lambda>_.
     eret cached_data)))"

definition active_inbound_lane ::
  "('d, 'r, 'x) messages_config \<Rightarrow> lane_id \<Rightarrow> (('d, 'r, 'x) messages_state, lanes_manager_error, inbound_lane_data) em" where
  "active_inbound_lane cfg lane = inbound_from_lane_id cfg lane True"

definition any_state_inbound_lane ::
  "('d, 'r, 'x) messages_config \<Rightarrow> lane_id \<Rightarrow> (('d, 'r, 'x) messages_state, lanes_manager_error, inbound_lane_data) em" where
  "any_state_inbound_lane cfg lane = inbound_from_lane_id cfg lane False"

definition active_outbound_lane ::
  "lane_id \<Rightarrow> (('d, 'r, 'x) messages_state, lanes_manager_error, outbound_lane_data) em" where
  "active_outbound_lane lane = outbound_from_lane_id lane True"

definition any_state_outbound_lane ::
  "lane_id \<Rightarrow> (('d, 'r, 'x) messages_state, lanes_manager_error, outbound_lane_data) em" where
  "any_state_outbound_lane lane = outbound_from_lane_id lane False"

definition create_inbound_lane ::
  "('d, 'r, 'x) messages_config \<Rightarrow> lane_id \<Rightarrow> (('d, 'r, 'x) messages_state, lanes_manager_error, inbound_lane_data) em" where
  "create_inbound_lane cfg lane =
     ebind (eget (\<lambda>st. inbound_lanes st lane)) (\<lambda>o1.
     ebind (eensure (o1 = None) InboundLaneAlreadyExists) (\<lambda>_.
     ebind (emod (\<lambda>st. st\<lparr>inbound_lanes := (inbound_lanes st)(lane \<mapsto> inbound_lane_data_default\<lparr>il_state := Opened\<rparr>)\<rparr>)) (\<lambda>_.
     active_inbound_lane cfg lane)))"

definition create_outbound_lane ::
  "lane_id \<Rightarrow> (('d, 'r, 'x) messages_state, lanes_manager_error, outbound_lane_data) em" where
  "create_outbound_lane lane =
     ebind (eget (\<lambda>st. outbound_lanes st lane)) (\<lambda>o1.
     ebind (eensure (o1 = None) OutboundLaneAlreadyExists) (\<lambda>_.
     ebind (emod (\<lambda>st. st\<lparr>outbound_lanes := (outbound_lanes st)(lane \<mapsto> outbound_lane_data_default\<lparr>ol_state := Opened\<rparr>)\<rparr>)) (\<lambda>_.
     active_outbound_lane lane)))"

text \<open>A function that holds a lane object runs on the object; afterwards only the storage remains.\<close>

definition with_lane :: "'l \<Rightarrow> ('l \<times> 's, 'e, 'a) em \<Rightarrow> ('s, 'e, 'a) em" where
  "with_lane data m = ezoom (\<lambda>st. (data, st)) (\<lambda>l st. snd l) (\<lambda>e. e) m"

lemma with_lane_iff [simp]: "with_lane data m st = (Inr x, st') \<longleftrightarrow> (\<exists>data'. m (data, st) = (Inr x, (data', st')))"
  by (auto simp: with_lane_def)

definition encoded_size_hint :: "('d, 'r, 'x) messages_config \<Rightarrow> nat \<Rightarrow> nat option" where
  "encoded_size_hint cfg relayers_entries =
     (case checked_mul (mc_usize_max cfg) relayers_entries (mc_relayer_entry_len cfg) of
        None \<Rightarrow> None
      | Some n \<Rightarrow> checked_add (mc_usize_max cfg) n 8)"

definition extra_proof_size_bytes :: "('d, 'r, 'x) messages_config \<Rightarrow> inbound_lane_data \<Rightarrow> nat" where
  "extra_proof_size_bytes cfg data =
     (let hint = (\<lambda>n. case encoded_size_hint cfg n of None \<Rightarrow> mc_usize_max cfg | Some k \<Rightarrow> k)
      in hint (mc_max_unrewarded_relayers cfg) - hint (length (relayers data)))"

section \<open>Owner and operating mode\<close>

definition ensure_owner_or_root :: "raw_origin \<Rightarrow> ('d, 'r, 'x, unit) messages_em" where
  "ensure_owner_or_root o1 =
     ebind (eget pallet_owner) (\<lambda>owner.
     case o1 of
       Root \<Rightarrow> eret ()
     | Signed signer \<Rightarrow> eensure (owner = Some signer) (PD DE_BadOrigin)
     | _ \<Rightarrow> ethrow (PD DE_BadOrigin))"

definition ensure_not_halted :: "('d, 'r, 'x, unit) messages_em" where
  "ensure_not_halted =
     ebind (eget (\<lambda>st. is_halted (pallet_operating_mode st))) (\<lambda>halted.
     eensure (\<not> halted) (PE (BridgeModule ModuleHalted)))"

definition set_owner :: "raw_origin \<Rightarrow> account_id option \<Rightarrow> ('d, 'r, 'x, unit) messages_em" where
  "set_owner o1 maybe_owner =
     ebind (ensure_owner_or_root o1) (\<lambda>_. emod (\<lambda>st. st\<lparr>pallet_owner := maybe_owner\<rparr>))"

definition set_operating_mode :: "raw_origin \<Rightarrow> messages_operating_mode \<Rightarrow> ('d, 'r, 'x, unit) messages_em" where
  "set_operating_mode o1 mode =
     ebind (ensure_owner_or_root o1) (\<lambda>_. emod (\<lambda>st. st\<lparr>pallet_operating_mode := mode\<rparr>))"

definition ensure_normal_operating_mode :: "('d, 'r, 'x, unit) messages_em" where
  "ensure_normal_operating_mode =
     ebind (eget pallet_operating_mode) (\<lambda>mode. eensure (mode = Basic Normal) (PE NotOperatingNormally))"

section \<open>Sending\<close>

record send_message_args =
  sa_lane_id :: lane_id
  sa_lane :: outbound_lane_data
  sa_payload :: message_payload

record send_message_artifacts =
  art_nonce :: nonce
  art_enqueued_messages :: nonce

definition validate_message ::
  "('d, 'r, 'x) messages_config \<Rightarrow> lane_id \<Rightarrow> message_payload \<Rightarrow> ('d, 'r, 'x, send_message_args) messages_em" where
  "validate_message cfg lane payload =
     ebind ensure_normal_operating_mode (\<lambda>_.
     ebind (emap_err (\<lambda>e. PE (LanesManager e)) (active_outbound_lane lane)) (\<lambda>data.
     ebind (eensure (length payload \<le> mc_maximal_incoming_message_size cfg)
              (PE (MessageRejectedByPallet MessageTooLarge))) (\<lambda>_.
     eret \<lparr>sa_lane_id = lane, sa_lane = data, sa_payload = payload\<rparr>)))"

definition send_message ::
  "send_message_args \<Rightarrow> ('d, 'r, 'x) messages_state \<Rightarrow> send_message_artifacts \<times> ('d, 'r, 'x) messages_state" where
  "send_message args st =
     (let (nonce, (data, st)) = out_send_message (runtime_outbound (sa_lane_id args)) (sa_payload args) (sa_lane args, st);
          (a, b) = data_queued_messages data
      in (\<lparr>art_nonce = nonce, art_enqueued_messages = range_saturating_len a b\<rparr>,
          m_event (MessageAccepted (sa_lane_id args) nonce) st))"

section \<open>Delivery\<close>

record 'r delivery =
  dl_total :: nonce
  dl_valid :: nonce
  dl_weight_left :: weight
  dl_actual_weight :: weight
  dl_results :: "(nonce \<times> 'r dispatch_result reception_result) list"

definition lane_dispatch ::
  "('d, 'r, 'x) messages_config \<Rightarrow> message \<Rightarrow> inbound_lane_data \<times> ('d, 'r, 'x) messages_state
     \<Rightarrow> 'r dispatch_result \<times> (inbound_lane_data \<times> ('d, 'r, 'x) messages_state)" where
  "lane_dispatch cfg m = (\<lambda>(cached, st). let (r, d) = md_dispatch cfg m (mdisp st) in (r, (cached, st\<lparr>mdisp := d\<rparr>)))"

fun deliver_loop ::
  "('d, 'r, 'x) messages_config \<Rightarrow> lane_id \<Rightarrow> account_id \<Rightarrow> message list \<Rightarrow> 'r delivery
     \<Rightarrow> (inbound_lane_data \<times> ('d, 'r, 'x) messages_state, messages_error pallet_error, 'r delivery) em" where
  "deliver_loop cfg lane relayer [] acc = eret acc"
| "deliver_loop cfg lane relayer (message # messages) acc =
     ebind (eget (\<lambda>(_, st). md_dispatch_weight cfg message (mdisp st))) (\<lambda>message_dispatch_weight.
     ebind (eensure (\<not> weight_any_gt message_dispatch_weight (dl_weight_left acc)) (PE InsufficientDispatchWeight)) (\<lambda>_.
     ebind (elift (receive_message (runtime_inbound cfg lane) (lane_dispatch cfg) relayer
              (mk_nonce (m_key message)) (m_payload message))) (\<lambda>receival_result.
     let valid = (case receival_result of Dispatched _ \<Rightarrow> add64 (dl_valid acc) 1 | _ \<Rightarrow> dl_valid acc);
         unspent_weight = (case receival_result of Dispatched r \<Rightarrow> unspent_weight r | _ \<Rightarrow> message_dispatch_weight);
         unspent_weight = weight_min unspent_weight message_dispatch_weight
     in deliver_loop cfg lane relayer messages
          \<lparr>dl_total = add64 (dl_total acc) 1, dl_valid = valid,
           dl_weight_left = weight_sub (dl_weight_left acc) (weight_sub message_dispatch_weight unspent_weight),
           dl_actual_weight = weight_saturating_sub (dl_actual_weight acc) unspent_weight,
           dl_results = dl_results acc @ [(mk_nonce (m_key message), receival_result)]\<rparr>)))"

definition receive_messages_proof ::
  "('d, 'r, 'x) messages_config \<Rightarrow> raw_origin \<Rightarrow> account_id \<Rightarrow> messages_proof \<Rightarrow> nat \<Rightarrow> weight
     \<Rightarrow> ('d, 'r, 'x, weight) messages_em" where
  "receive_messages_proof cfg o1 relayer_id_at_bridged_chain proof messages_count dispatch_weight =
     ebind ensure_not_halted (\<lambda>_.
     ebind (emap_err PD (ensure_signed o1)) (\<lambda>relayer_id_at_this_chain.
     ebind (eensure (messages_count \<le> mc_max_unconfirmed_messages cfg) (PE TooManyMessagesInTheProof)) (\<lambda>_.
     let declared_weight = mw_receive_messages_proof cfg (raw_proof_size cfg (storage_proof proof)) messages_count dispatch_weight in
     ebind (emap_err (\<lambda>_. PE InvalidMessagesProof) (esum (verify_messages_proof cfg proof messages_count))) (\<lambda>(lane_id, lane_data).
     ebind (emap_err (\<lambda>e. PE (LanesManager e)) (active_inbound_lane cfg lane_id)) (\<lambda>data.
     with_lane data (
       let actual_weight = set_proof_size declared_weight (proof_size declared_weight - extra_proof_size_bytes cfg data) in
       ebind (case lane_state_of lane_data of
                None \<Rightarrow> eret None
              | Some lane_state \<Rightarrow> elift (receive_state_update (runtime_inbound cfg lane_id) lane_state)) (\<lambda>_.
       ebind (deliver_loop cfg lane_id relayer_id_at_bridged_chain (lane_messages lane_data)
                \<lparr>dl_total = 0, dl_valid = 0, dl_weight_left = dispatch_weight, dl_actual_weight = actual_weight,
                 dl_results = []\<rparr>) (\<lambda>res.
       ebind (emod (apsnd (\<lambda>st. st\<lparr>mext := mp_delivery cfg relayer_id_at_this_chain (dl_total res) (dl_valid res)
                (dl_actual_weight res) (mext st)\<rparr>))) (\<lambda>_.
       ebind (emod (apsnd (m_event (MessagesReceived lane_id (dl_results res))))) (\<lambda>_.
       eret (dl_actual_weight res)))))))))))"

section \<open>Confirmation\<close>

definition reward_confirmed ::
  "('d, 'r, 'x) messages_config \<Rightarrow> lane_id \<Rightarrow> unrewarded_relayer list \<Rightarrow> account_id \<Rightarrow> delivered_messages
     \<Rightarrow> unrewarded_relayers_state
     \<Rightarrow> (outbound_lane_data \<times> ('d, 'r, 'x) messages_state, messages_error pallet_error, unrewarded_relayers_state) em" where
  "reward_confirmed cfg lane_id rs confirmation_relayer confirmed_messages relayers_state =
     (let received_range = (dm_begin confirmed_messages, dm_end confirmed_messages) in
      ebind (emod (apsnd (m_event (MessagesDelivered lane_id confirmed_messages)))) (\<lambda>_.
      ebind (elift (\<lambda>(data, st). let (n, x) = mp_confirmation cfg lane_id rs confirmation_relayer received_range (mext st)
                                 in (n, (data, st\<lparr>mext := x\<rparr>)))) (\<lambda>actually_rewarded_relayers.
      eret (relayers_state\<lparr>
        unrewarded_relayer_entries := min (unrewarded_relayer_entries relayers_state) actually_rewarded_relayers,
        urs_total_messages := min (urs_total_messages relayers_state)
          (case range_checked_len (fst received_range) (snd received_range) of None \<Rightarrow> u64_max | Some n \<Rightarrow> n)\<rparr>))))"

definition receive_messages_delivery_proof ::
  "('d, 'r, 'x) messages_config \<Rightarrow> raw_origin \<Rightarrow> delivery_proof \<Rightarrow> unrewarded_relayers_state
     \<Rightarrow> ('d, 'r, 'x, weight) messages_em" where
  "receive_messages_delivery_proof cfg o1 proof relayers_state =
     ebind ensure_not_halted (\<lambda>_.
     let proof_size = raw_proof_size cfg (dp_storage_proof proof) in
     ebind (emap_err PD (ensure_signed o1)) (\<lambda>confirmation_relayer.
     ebind (emap_err (\<lambda>_. PE InvalidMessagesDeliveryProof) (esum (verify_messages_delivery_proof cfg proof))) (\<lambda>(lane_id, lane_data).
     ebind (eensure (relayers_state_is_valid relayers_state lane_data) (PE InvalidUnrewardedRelayersState)) (\<lambda>_.
     ebind (emap_err (\<lambda>e. PE (LanesManager e)) (any_state_outbound_lane lane_id)) (\<lambda>data.
     with_lane data (
       ebind (emap_err (\<lambda>e. PE (ReceptionConfirmation e))
                (confirm_delivery (runtime_outbound lane_id) (urs_total_messages relayers_state)
                   (last_delivered_nonce lane_data) (relayers lane_data))) (\<lambda>confirmed_messages.
       ebind (case confirmed_messages of
                None \<Rightarrow> eret relayers_state
              | Some m \<Rightarrow> reward_confirmed cfg lane_id (relayers lane_data) confirmation_relayer m relayers_state) (\<lambda>relayers_state.
       ebind (emod (\<lambda>(data, st). (data, st\<lparr>mext := mp_on_messages_delivered cfg lane_id
                (range_saturating_len (fst (data_queued_messages data)) (snd (data_queued_messages data))) (mext st)\<rparr>))) (\<lambda>_.
       eret (mw_receive_messages_delivery_proof cfg proof_size relayers_state))))))))))"

section \<open>Genesis, views and the check of the state\<close>

record genesis_messages =
  gm_operating_mode :: messages_operating_mode
  gm_owner :: "account_id option"
  gm_opened_lanes :: "lane_id list"

definition messages_genesis :: "genesis_messages \<Rightarrow> ('d, 'r, 'x) messages_state \<Rightarrow> ('d, 'r, 'x) messages_state" where
  "messages_genesis g st =
     (let st = st\<lparr>pallet_operating_mode := gm_operating_mode g\<rparr>;
          st = (case gm_owner g of None \<Rightarrow> st | Some owner \<Rightarrow> st\<lparr>pallet_owner := Some owner\<rparr>)
      in fold (\<lambda>lane st. st\<lparr>inbound_lanes := (inbound_lanes st)(lane \<mapsto> inbound_lane_data_opened),
                           outbound_lanes := (outbound_lanes st)(lane \<mapsto> outbound_lane_data_opened)\<rparr>)
           (gm_opened_lanes g) st)"

definition outbound_message_data :: "('d, 'r, 'x) messages_state \<Rightarrow> lane_id \<Rightarrow> nonce \<Rightarrow> message_payload option" where
  "outbound_message_data st lane nonce = outbound_messages st \<lparr>mk_lane_id = lane, mk_nonce = nonce\<rparr>"

definition unpruned_nonces :: "('d, 'r, 'x) messages_state \<Rightarrow> lane_id \<Rightarrow> outbound_lane_data \<Rightarrow> nonce list" where
  "unpruned_nonces st lane data =
     (case checked_sub (oldest_unpruned_nonce data) 1 of
        None \<Rightarrow> []
      | Some expected_last_pruned_nonce \<Rightarrow>
          filter (\<lambda>nonce. outbound_messages st \<lparr>mk_lane_id = lane, mk_nonce = nonce\<rparr> \<noteq> None)
            [expected_last_pruned_nonce - 16 ..< Suc expected_last_pruned_nonce])"

definition do_try_state_for_outbound_lanes :: "('d, 'r, 'x) messages_state \<Rightarrow> bool" where
  "do_try_state_for_outbound_lanes st \<longleftrightarrow> (\<forall>lane data. outbound_lanes st lane = Some data \<longrightarrow> unpruned_nonces st lane data = [])"

lemma fst_eq_iff: "fst p = x \<longleftrightarrow> (\<exists>y. p = (x, y))"
  by (cases p) simp

section \<open>The storage of the pallet keeps the laws\<close>

definition out_frame ::
  "lane_id \<Rightarrow> outbound_lane_data \<times> ('d, 'r, 'x) messages_state \<Rightarrow> ('d, 'r, 'x) messages_state" where
  "out_frame lane s = (snd s)\<lparr>outbound_lanes := (outbound_lanes (snd s))(lane := None),
     outbound_messages := (\<lambda>k. if mk_lane_id k = lane then None else outbound_messages (snd s) k)\<rparr>"

interpretation ro: outbound_store "runtime_outbound lane" "\<lambda>s. outbound_lanes (snd s) lane" "out_frame lane" for lane
  by unfold_locales (auto simp: runtime_outbound_def out_frame_def fun_eq_iff)

interpretation ri: inbound_store "runtime_inbound cfg lane" for cfg lane
  by unfold_locales (auto simp: runtime_inbound_def)

lemma runtime_sel [simp]:
  "oo_data (runtime_outbound lane) = fst"
  "oo_message (runtime_outbound lane) (d, st) = (\<lambda>n. outbound_messages st \<lparr>mk_lane_id = lane, mk_nonce = n\<rparr>)"
  "io_data (runtime_inbound cfg lane) = fst" "io_id (runtime_inbound cfg lane) = lane"
  "io_max_unrewarded_relayer_entries (runtime_inbound cfg lane) = mc_max_unrewarded_relayers cfg"
  "io_max_unconfirmed_messages (runtime_inbound cfg lane) = mc_max_unconfirmed_messages cfg"
  "io_set_data (runtime_inbound cfg lane) e' (e, st) = (e', st\<lparr>inbound_lanes := (inbound_lanes st)(lane \<mapsto> e')\<rparr>)"
  by (auto simp: runtime_outbound_def runtime_inbound_def)

lemma out_frameD:
  assumes "out_frame lane (d', st') = out_frame lane (d, st)"
  shows "inbound_lanes st' = inbound_lanes st" "mdisp st' = mdisp st" "mext st' = mext st"
    "l \<noteq> lane \<Longrightarrow> outbound_lanes st' l = outbound_lanes st l"
    "mk_lane_id k \<noteq> lane \<Longrightarrow> outbound_messages st' k = outbound_messages st k"
proof -
  note sel = arg_cong [OF assms, of inbound_lanes] arg_cong [OF assms, of mdisp] arg_cong [OF assms, of mext]
  show "inbound_lanes st' = inbound_lanes st" "mdisp st' = mdisp st" "mext st' = mext st"
    using sel by (simp_all add: out_frame_def)
  show "l \<noteq> lane \<Longrightarrow> outbound_lanes st' l = outbound_lanes st l"
    using fun_cong [OF arg_cong [OF assms, of outbound_lanes], of l] by (simp add: out_frame_def)
  show "mk_lane_id k \<noteq> lane \<Longrightarrow> outbound_messages st' k = outbound_messages st k"
    using fun_cong [OF arg_cong [OF assms, of outbound_messages], of k] by (simp add: out_frame_def)
qed

section \<open>Effect of a delivery\<close>

definition dispatch_all :: "('d, 'r, 'x) messages_config \<Rightarrow> message list \<Rightarrow> 'd \<Rightarrow> 'd" where
  "dispatch_all cfg ms d = fold (\<lambda>m d. snd (md_dispatch cfg m d)) ms d"

lemma dispatch_all_simps [simp]:
  "dispatch_all cfg [] d = d"
  "dispatch_all cfg (m # ms) d = dispatch_all cfg ms (snd (md_dispatch cfg m d))"
  "dispatch_all cfg (ms @ ms') d = dispatch_all cfg ms' (dispatch_all cfg ms d)"
  by (simp_all add: dispatch_all_def)

abbreviation nonces :: "message list \<Rightarrow> nonce list" where
  "nonces ms \<equiv> map (\<lambda>m. mk_nonce (m_key m)) ms"

definition lane_within :: "('d, 'r, 'x) messages_config \<Rightarrow> inbound_lane_data \<Rightarrow> bool" where
  "lane_within cfg d \<longleftrightarrow> length (relayers d) \<le> mc_max_unrewarded_relayers cfg \<and>
     last_delivered_nonce d - last_confirmed_nonce d \<le> mc_max_unconfirmed_messages cfg"

lemma lane_dispatch_data [simp]: "fst (snd (lane_dispatch cfg m s)) = fst s"
  by (cases s) (simp add: lane_dispatch_def Let_def split: prod.split)

lemma receive_one:
  assumes "receive_message (runtime_inbound cfg lane) (lane_dispatch cfg) r (mk_nonce (m_key m)) (m_payload m) (d, st) = (rr, (d', st'))"
    and "inbound_ok d" and "mk_lane_id (m_key m) = lane" and "inbound_lanes st lane = Some d"
  obtains ms where "ms = [] \<or> ms = [m]" and "nonces ms = [Suc (last_delivered_nonce d) ..< Suc (last_delivered_nonce d')]"
    and "st' = st\<lparr>inbound_lanes := (inbound_lanes st)(lane \<mapsto> d'), mdisp := dispatch_all cfg ms (mdisp st)\<rparr>"
    and "inbound_ok d'" and "last_confirmed_nonce d' = last_confirmed_nonce d" and "il_state d' = il_state d"
    and "last_delivered_nonce d \<le> last_delivered_nonce d'" and "lane_within cfg d \<longrightarrow> lane_within cfg d'"
proof -
  have m: "\<lparr>m_key = \<lparr>mk_lane_id = lane, mk_nonce = mk_nonce (m_key m)\<rparr>, m_payload = m_payload m\<rparr> = m"
    using assms(3) by (cases m) simp
  consider "d' = d" "st' = st"
    | x s1 where "mk_nonce (m_key m) = Suc (last_delivered_nonce d)" "lane_dispatch cfg m (d, st) = (x, s1)"
      "(d', st') = io_set_data (runtime_inbound cfg lane) d' s1" "inbound_ok d'"
      "last_delivered_nonce d' = mk_nonce (m_key m)" "last_confirmed_nonce d' = last_confirmed_nonce d"
      "il_state d' = il_state d" "mk_nonce (m_key m) - last_confirmed_nonce d \<le> mc_max_unconfirmed_messages cfg"
      "length (relayers d') \<le> mc_max_unrewarded_relayers cfg"
    using ri.receive_message_ok [OF assms(1)] assms(2) by (auto simp: m)
  then show thesis
  proof cases
    case 1
    with assms(2,4) show ?thesis by (intro that [of "[]"]) (auto simp: fun_upd_idem)
  next
    case 2
    from 2(2,3) have "st' = st\<lparr>inbound_lanes := (inbound_lanes st)(lane \<mapsto> d'), mdisp := dispatch_all cfg [m] (mdisp st)\<rparr>"
      by (auto simp: lane_dispatch_def Let_def split: prod.splits)
    with 2 show ?thesis by (intro that [of "[m]"]) (auto simp: lane_within_def)
  qed
qed

lemma deliver_loop_ok:
  assumes "deliver_loop cfg lane r messages acc (d, st) = (Inr res, (d', st'))"
    and "inbound_ok d" and "\<forall>m \<in> set messages. mk_lane_id (m_key m) = lane" and "inbound_lanes st lane = Some d"
  shows "\<exists>ms. set ms \<subseteq> set messages \<and> nonces ms = [Suc (last_delivered_nonce d) ..< Suc (last_delivered_nonce d')] \<and>
    st' = st\<lparr>inbound_lanes := (inbound_lanes st)(lane \<mapsto> d'), mdisp := dispatch_all cfg ms (mdisp st)\<rparr> \<and>
    inbound_ok d' \<and> last_confirmed_nonce d' = last_confirmed_nonce d \<and> il_state d' = il_state d \<and>
    last_delivered_nonce d \<le> last_delivered_nonce d' \<and> (lane_within cfg d \<longrightarrow> lane_within cfg d')"
  using assms
proof (induction messages arbitrary: acc d st)
  case Nil
  then show ?case by (intro exI [of _ "[]"]) (auto simp: fun_upd_idem)
next
  case (Cons m messages)
  from Cons.prems(1) obtain rr d1 st1 acc1
    where one: "receive_message (runtime_inbound cfg lane) (lane_dispatch cfg) r (mk_nonce (m_key m)) (m_payload m) (d, st) = (rr, (d1, st1))"
      and rest: "deliver_loop cfg lane r messages acc1 (d1, st1) = (Inr res, (d', st'))"
    by (auto simp: Let_def)
  from Cons.prems(3) have "mk_lane_id (m_key m) = lane" by simp
  from one Cons.prems(2) this Cons.prems(4) obtain ms1 where ms1: "ms1 = [] \<or> ms1 = [m]"
    "nonces ms1 = [Suc (last_delivered_nonce d) ..< Suc (last_delivered_nonce d1)]"
    "st1 = st\<lparr>inbound_lanes := (inbound_lanes st)(lane \<mapsto> d1), mdisp := dispatch_all cfg ms1 (mdisp st)\<rparr>"
    "inbound_ok d1" "last_confirmed_nonce d1 = last_confirmed_nonce d" "il_state d1 = il_state d"
    "last_delivered_nonce d \<le> last_delivered_nonce d1" "lane_within cfg d \<longrightarrow> lane_within cfg d1"
    by (rule receive_one)
  from ms1(3) have "inbound_lanes st1 lane = Some d1" by simp
  from Cons.IH [OF rest ms1(4) _ this] Cons.prems(3) obtain ms where ms: "set ms \<subseteq> set messages"
    "nonces ms = [Suc (last_delivered_nonce d1) ..< Suc (last_delivered_nonce d')]"
    "st' = st1\<lparr>inbound_lanes := (inbound_lanes st1)(lane \<mapsto> d'), mdisp := dispatch_all cfg ms (mdisp st1)\<rparr>"
    "inbound_ok d'" "last_confirmed_nonce d' = last_confirmed_nonce d1" "il_state d' = il_state d1"
    "last_delivered_nonce d1 \<le> last_delivered_nonce d'" "lane_within cfg d1 \<longrightarrow> lane_within cfg d'"
    by fastforce
  have ns: "nonces (ms1 @ ms) = [Suc (last_delivered_nonce d) ..< Suc (last_delivered_nonce d')]"
    unfolding map_append ms1(2) ms(2) using ms1(7) ms(7)
      upt_add_eq_append [of "Suc (last_delivered_nonce d)" "Suc (last_delivered_nonce d1)" "last_delivered_nonce d' - last_delivered_nonce d1"]
    by simp
  have "set (ms1 @ ms) \<subseteq> set (m # messages)" using ms1(1) ms(1) by auto
  moreover have "st' = st\<lparr>inbound_lanes := (inbound_lanes st)(lane \<mapsto> d'), mdisp := dispatch_all cfg (ms1 @ ms) (mdisp st)\<rparr>"
    by (simp add: ms(3) ms1(3))
  moreover have "last_confirmed_nonce d' = last_confirmed_nonce d" "il_state d' = il_state d"
    "last_delivered_nonce d \<le> last_delivered_nonce d'" "lane_within cfg d \<longrightarrow> lane_within cfg d'"
    using ms1 ms by simp_all
  ultimately show ?case using ns ms(4) by blast
qed

section \<open>What a proof shows\<close>

fun stored_item :: "('d, 'r, 'x) messages_state \<Rightarrow> storage_key \<Rightarrow> storage_item option" where
  "stored_item st (MessageKeyOf k) = map_option SMessage (outbound_messages st k)"
| "stored_item st (OutboundLaneKey lane) = map_option SOutbound (outbound_lanes st lane)"
| "stored_item st (InboundLaneKey lane) = map_option SInbound (inbound_lanes st lane)"

definition reads_from :: "proof_checker \<Rightarrow> ('d, 'r, 'x) messages_state \<Rightarrow> bool" where
  "reads_from c st \<longleftrightarrow> (\<forall>key item. pc_read c key = Some (Some item) \<longrightarrow> stored_item st key = Some item)"

lemma reads_fromD: "reads_from c st \<Longrightarrow> pc_read c key = Some (Some item) \<Longrightarrow> stored_item st key = Some item"
  by (simp add: reads_from_def)

lemma read_and_decode_value_eq:
  "read_and_decode_value decode key c =
     ((case pc_read c key of
         None \<Rightarrow> Inl StorageValueUnavailable
       | Some None \<Rightarrow> Inr None
       | Some (Some b) \<Rightarrow> (case decode b of None \<Rightarrow> Inl DecodeError | Some x \<Rightarrow> Inr (Some x))),
      c\<lparr>pc_accessed := key # pc_accessed c\<rparr>)"
  by (simp add: read_and_decode_value_def read_value_def em_defs split: option.split)

lemma read_mandatory_Inr:
  assumes "read_and_decode_mandatory_value decode key c = (Inr x, c')"
  shows "(\<exists>item. pc_read c key = Some (Some item) \<and> decode item = Some x) \<and> pc_read c' = pc_read c"
  using assms by (auto simp: read_and_decode_mandatory_value_def read_and_decode_value_eq split: option.splits)

lemma read_opt_Inr:
  assumes "read_and_decode_opt_value decode key c = (Inr v, c')"
  shows "(\<forall>x. v = Some x \<longrightarrow> (\<exists>item. pc_read c key = Some (Some item) \<and> decode item = Some x)) \<and> pc_read c' = pc_read c"
  using assms by (auto simp: read_and_decode_opt_value_def read_and_decode_value_eq split: option.splits)

lemma read_messages_ok:
  assumes "read_messages lane ns c = (Inr ms, c')" and "reads_from c st"
  shows "nonces ms = ns \<and> (\<forall>m \<in> set ms. mk_lane_id (m_key m) = lane \<and> outbound_messages st (m_key m) = Some (m_payload m)) \<and>
    pc_read c' = pc_read c"
  using assms
proof (induction ns arbitrary: ms c)
  case (Cons n ns)
  then obtain p c1 ms1 where p: "read_and_decode_mandatory_value decode_payload (MessageKeyOf \<lparr>mk_lane_id = lane, mk_nonce = n\<rparr>) c = (Inr p, c1)"
    and rest: "read_messages lane ns c1 = (Inr ms1, c')" and ms: "ms = \<lparr>m_key = \<lparr>mk_lane_id = lane, mk_nonce = n\<rparr>, m_payload = p\<rparr> # ms1"
    by (auto simp: Let_def)
  from read_mandatory_Inr [OF p] obtain item where item: "pc_read c (MessageKeyOf \<lparr>mk_lane_id = lane, mk_nonce = n\<rparr>) = Some (Some item)"
    "decode_payload item = Some p" and c1: "pc_read c1 = pc_read c" by blast
  from item Cons.prems(2) have "outbound_messages st \<lparr>mk_lane_id = lane, mk_nonce = n\<rparr> = Some p"
    by (cases item) (auto dest: reads_fromD)
  moreover have "reads_from c1 st" using Cons.prems(2) c1 by (simp add: reads_from_def)
  note Cons.IH [OF rest this]
  ultimately show ?case by (simp add: ms c1)
qed simp

lemma verify_messages_proof_ok:
  assumes "verify_messages_proof cfg proof count = Inr (lane, lm)"
    and "\<And>c. verify_storage_proof cfg (bridged_header_hash proof) (storage_proof proof) = Inr c \<Longrightarrow> reads_from c st"
  shows "lane = mp_lane proof" and "nonces (lane_messages lm) = [nonces_start proof ..< Suc (nonces_end proof)]"
    and "m \<in> set (lane_messages lm) \<Longrightarrow> mk_lane_id (m_key m) = lane \<and> outbound_messages st (m_key m) = Some (m_payload m)"
    and "lane_state_of lm = Some ls \<Longrightarrow> outbound_lanes st lane = Some ls"
proof -
  from assms(1) obtain c ms c1 o1 c2 c3 where v: "verify_storage_proof cfg (bridged_header_hash proof) (storage_proof proof) = Inr c"
    and ms: "read_messages (mp_lane proof) [nonces_start proof ..< Suc (nonces_end proof)] c = (Inr ms, c1)"
    and ls: "read_and_decode_opt_value decode_outbound (OutboundLaneKey (mp_lane proof)) c1 = (Inr o1, c2)"
    and lm: "lm = \<lparr>lane_state_of = o1, lane_messages = ms\<rparr>" "lane = mp_lane proof"
    by (auto simp: verify_messages_proof_def fst_eq_iff split: sum.splits)
  note from_st = assms(2) [OF v]
  note r = read_messages_ok [OF ms from_st]
  show "lane = mp_lane proof" "nonces (lane_messages lm) = [nonces_start proof ..< Suc (nonces_end proof)]"
    "m \<in> set (lane_messages lm) \<Longrightarrow> mk_lane_id (m_key m) = lane \<and> outbound_messages st (m_key m) = Some (m_payload m)"
    using r by (auto simp: lm)
  show "lane_state_of lm = Some ls \<Longrightarrow> outbound_lanes st lane = Some ls"
  proof -
    assume "lane_state_of lm = Some ls"
    with read_opt_Inr [OF ls] r obtain item where "pc_read c (OutboundLaneKey (mp_lane proof)) = Some (Some item)"
      "decode_outbound item = Some ls" by (auto simp: lm)
    with from_st show ?thesis by (cases item) (auto simp: lm dest: reads_fromD)
  qed
qed

lemma verify_delivery_proof_ok:
  assumes "verify_messages_delivery_proof cfg proof = Inr (lane, data)"
    and "\<And>c. verify_storage_proof cfg (dp_header_hash proof) (dp_storage_proof proof) = Inr c \<Longrightarrow> reads_from c st"
  shows "lane = dp_lane proof \<and> inbound_lanes st lane = Some data"
proof -
  from assms(1) obtain c c1 where v: "verify_storage_proof cfg (dp_header_hash proof) (dp_storage_proof proof) = Inr c"
    and r: "read_and_decode_mandatory_value decode_inbound (InboundLaneKey (dp_lane proof)) c = (Inr data, c1)"
    and lane: "lane = dp_lane proof"
    by (auto simp: verify_messages_delivery_proof_def fst_eq_iff split: sum.splits)
  from read_mandatory_Inr [OF r] obtain item where "pc_read c (InboundLaneKey (dp_lane proof)) = Some (Some item)"
    "decode_inbound item = Some data" by blast
  with assms(2) [OF v] lane show ?thesis by (cases item) (auto dest: reads_fromD)
qed

section \<open>Effect of the calls\<close>

lemma lane_em_iff [simp]:
  "active_inbound_lane cfg lane st = (Inr d, st') \<longleftrightarrow>
     st' = st \<and> inbound_lanes st lane = Some d \<and> is_active (il_state d) \<and> md_is_active cfg lane (mdisp st)"
  "any_state_inbound_lane cfg lane st = (Inr d, st') \<longleftrightarrow> st' = st \<and> inbound_lanes st lane = Some d"
  "active_outbound_lane lane st = (Inr e, st') \<longleftrightarrow> st' = st \<and> outbound_lanes st lane = Some e \<and> is_active (ol_state e)"
  "any_state_outbound_lane lane st = (Inr e, st') \<longleftrightarrow> st' = st \<and> outbound_lanes st lane = Some e"
  "ensure_not_halted st = (Inr u, st') \<longleftrightarrow> st' = st \<and> \<not> is_halted (pallet_operating_mode st)"
  "ensure_normal_operating_mode st = (Inr u, st') \<longleftrightarrow> st' = st \<and> pallet_operating_mode st = Basic Normal"
  by (auto simp: active_inbound_lane_def any_state_inbound_lane_def active_outbound_lane_def any_state_outbound_lane_def
    inbound_from_lane_id_def outbound_from_lane_id_def ensure_not_halted_def ensure_normal_operating_mode_def)

lemma m_event_sel [simp]:
  "inbound_lanes (m_event e st) = inbound_lanes st" "outbound_lanes (m_event e st) = outbound_lanes st"
  "outbound_messages (m_event e st) = outbound_messages st" "mdisp (m_event e st) = mdisp st"
  "mext (m_event e st) = mext st"
  by (simp_all add: m_event_def)

lemma state_update_effect:
  assumes "(case o1 of None \<Rightarrow> eret None | Some ls \<Rightarrow> elift (receive_state_update (runtime_inbound cfg lane) ls)) (d, st) =
      (Inr r, (d', st'))"
    and "inbound_ok d" and "inbound_lanes st lane = Some d"
  shows "inbound_ok d' \<and> last_delivered_nonce d' = last_delivered_nonce d \<and>
    (last_confirmed_nonce d' = last_confirmed_nonce d \<or> (\<exists>ls. o1 = Some ls \<and> last_confirmed_nonce d' = latest_received_nonce ls)) \<and>
    last_confirmed_nonce d \<le> last_confirmed_nonce d' \<and> il_state d' = il_state d \<and>
    (lane_within cfg d \<longrightarrow> lane_within cfg d') \<and> st' = st\<lparr>inbound_lanes := (inbound_lanes st)(lane \<mapsto> d')\<rparr>"
proof (cases o1)
  case None
  with assms show ?thesis by (auto simp: fun_upd_idem)
next
  case (Some ls)
  with assms(1) have "receive_state_update (runtime_inbound cfg lane) ls (d, st) = (r, (d', st'))" by simp
  from ri.state_update_ok [OF this] assms(2,3) Some show ?thesis
    by (auto simp: lane_within_def fun_upd_idem)
qed

lemma receive_messages_proof_effect:
  assumes "receive_messages_proof cfg o1 r proof count w st = (Inr a, st')"
    and reads: "\<And>c. verify_storage_proof cfg (bridged_header_hash proof) (storage_proof proof) = Inr c \<Longrightarrow> reads_from c src"
    and ok: "\<And>lane d. inbound_lanes st lane = Some d \<Longrightarrow> inbound_ok d"
  obtains lane d d' ms where "inbound_lanes st lane = Some d" and "lane = mp_lane proof"
    and "inbound_lanes st' = (inbound_lanes st)(lane \<mapsto> d')" and "mdisp st' = dispatch_all cfg ms (mdisp st)"
    and "outbound_lanes st' = outbound_lanes st" and "outbound_messages st' = outbound_messages st" and "inbound_ok d'"
    and "nonces ms = [Suc (last_delivered_nonce d) ..< Suc (last_delivered_nonce d')]"
    and "\<forall>m \<in> set ms. mk_lane_id (m_key m) = lane \<and> outbound_messages src (m_key m) = Some (m_payload m)"
    and "last_delivered_nonce d \<le> last_delivered_nonce d'" and "last_confirmed_nonce d \<le> last_confirmed_nonce d'"
    and "last_confirmed_nonce d' = last_confirmed_nonce d \<or>
      (\<exists>ls. outbound_lanes src lane = Some ls \<and> last_confirmed_nonce d' = latest_received_nonce ls)"
    and "lane_within cfg d \<longrightarrow> lane_within cfg d'"
proof -
  from assms(1) have "\<exists>lane lm d x d1 st1 acc res d' st2 e z.
      Inr (lane, lm) = verify_messages_proof cfg proof count \<and> inbound_lanes st lane = Some d \<and>
      (case lane_state_of lm of None \<Rightarrow> eret None | Some ls \<Rightarrow> elift (receive_state_update (runtime_inbound cfg lane) ls)) (d, st) =
        (Inr x :: messages_error pallet_error + _, (d1, st1)) \<and>
      deliver_loop cfg lane r (lane_messages lm) acc (d1, st1) = (Inr res, (d', st2)) \<and> st' = m_event e (st2\<lparr>mext := z\<rparr>)"
    by (clarsimp simp: receive_messages_proof_def Let_def) blast
  then obtain lane lm d x d1 st1 acc res d' st2 e z
    where v: "Inr (lane, lm) = verify_messages_proof cfg proof count" and d: "inbound_lanes st lane = Some d"
      and su: "(case lane_state_of lm of None \<Rightarrow> eret None | Some ls \<Rightarrow> elift (receive_state_update (runtime_inbound cfg lane) ls)) (d, st) =
        (Inr x :: messages_error pallet_error + _, (d1, st1))"
      and loop: "deliver_loop cfg lane r (lane_messages lm) acc (d1, st1) = (Inr res, (d', st2))"
      and st': "st' = m_event e (st2\<lparr>mext := z\<rparr>)"
    by (elim exE conjE)
  note v' = verify_messages_proof_ok [OF v [symmetric] reads]
  note s1 = state_update_effect [OF su ok [OF d] d]
  then have ok1: "inbound_ok d1" and st1: "st1 = st\<lparr>inbound_lanes := (inbound_lanes st)(lane \<mapsto> d1)\<rparr>" by auto
  have "\<forall>m \<in> set (lane_messages lm). mk_lane_id (m_key m) = lane" "inbound_lanes st1 lane = Some d1"
    using v'(3) by (auto simp: st1)
  from deliver_loop_ok [OF loop ok1 this] obtain ms where ms: "set ms \<subseteq> set (lane_messages lm)"
    "nonces ms = [Suc (last_delivered_nonce d1) ..< Suc (last_delivered_nonce d')]"
    "st2 = st1\<lparr>inbound_lanes := (inbound_lanes st1)(lane \<mapsto> d'), mdisp := dispatch_all cfg ms (mdisp st1)\<rparr>" "inbound_ok d'"
    "last_confirmed_nonce d' = last_confirmed_nonce d1" "last_delivered_nonce d1 \<le> last_delivered_nonce d'"
    "lane_within cfg d1 \<longrightarrow> lane_within cfg d'"
    by blast
  show thesis
  proof (rule that [of lane d d' ms])
    show "nonces ms = [Suc (last_delivered_nonce d) ..< Suc (last_delivered_nonce d')]" using ms(2) s1 by simp
    show "\<forall>m \<in> set ms. mk_lane_id (m_key m) = lane \<and> outbound_messages src (m_key m) = Some (m_payload m)"
      using ms(1) v'(3) by blast
    show "last_confirmed_nonce d' = last_confirmed_nonce d \<or>
      (\<exists>ls. outbound_lanes src lane = Some ls \<and> last_confirmed_nonce d' = latest_received_nonce ls)"
      using s1 ms(5) v'(4) by auto
  qed (use d v'(1) ms s1 in \<open>auto simp: st' st1\<close>)
qed

lemma receive_messages_delivery_proof_effect:
  assumes "receive_messages_delivery_proof cfg o1 proof rstate st = (Inr a, st')"
    and reads: "\<And>c. verify_storage_proof cfg (dp_header_hash proof) (dp_storage_proof proof) = Inr c \<Longrightarrow> reads_from c tgt"
  obtains lane data d r d' st1 where "inbound_lanes tgt lane = Some data" and "lane = dp_lane proof"
    and "outbound_lanes st lane = Some d" and "rstate = relayers_state_of data"
    and "confirm_delivery (runtime_outbound lane) (total_unrewarded_messages data) (last_delivered_nonce data) (relayers data) (d, st) =
      (Inr r, (d', st1))"
    and "inbound_lanes st' = inbound_lanes st1" and "mdisp st' = mdisp st1" and "outbound_lanes st' = outbound_lanes st1"
    and "outbound_messages st' = outbound_messages st1"
proof -
  from assms(1) have "\<exists>who lane data d r d' st1 d2 st2 rs2 z. Inr (lane, data) = verify_messages_delivery_proof cfg proof \<and>
      rstate = relayers_state_of data \<and> outbound_lanes st lane = Some d \<and>
      confirm_delivery (runtime_outbound lane) (urs_total_messages (relayers_state_of data)) (last_delivered_nonce data)
        (relayers data) (d, st) = (Inr r, (d', st1)) \<and>
      (case r of None \<Rightarrow> eret (relayers_state_of data)
       | Some m \<Rightarrow> reward_confirmed cfg lane (relayers data) who m (relayers_state_of data)) (d', st1) = (Inr rs2, (d2, st2)) \<and>
      st' = st2\<lparr>mext := z\<rparr>"
    by (clarsimp simp: receive_messages_delivery_proof_def Let_def relayers_state_is_valid_def)
      blast
  then obtain who lane data d r d' st1 d2 st2 rs2 z where v: "Inr (lane, data) = verify_messages_delivery_proof cfg proof"
    and rs: "rstate = relayers_state_of data" and d: "outbound_lanes st lane = Some d"
    and c: "confirm_delivery (runtime_outbound lane) (urs_total_messages (relayers_state_of data)) (last_delivered_nonce data)
      (relayers data) (d, st) = (Inr r, (d', st1))"
    and rw: "(case r of None \<Rightarrow> eret (relayers_state_of data)
       | Some m \<Rightarrow> reward_confirmed cfg lane (relayers data) who m (relayers_state_of data)) (d', st1) = (Inr rs2, (d2, st2))"
    and st': "st' = st2\<lparr>mext := z\<rparr>"
    by (elim exE conjE)
  have same: "inbound_lanes st2 = inbound_lanes st1" "mdisp st2 = mdisp st1" "outbound_lanes st2 = outbound_lanes st1"
    "outbound_messages st2 = outbound_messages st1"
    using rw by (auto simp: reward_confirmed_def Let_def split: option.splits prod.splits)
  show thesis
    by (rule that [of lane data d r d' st1])
      (use verify_delivery_proof_ok [OF v [symmetric] reads] rs d c same in \<open>auto simp: st' relayers_state_of_def\<close>)
qed

end
