(* ===== verification/Bridge_Delivery.thy ===== *)
theory Bridge_Delivery
  imports Bridge_Messages
begin

text \<open>
  Two chains that run the messages pallet and are connected by relayers. A step of a chain is any operation of the
  pallet: sending, the calls of relayers, the calls of the owner, opening lanes and changing their state. What the
  chains know of each other are storage proofs, and the only assumption about them is that of a light client: a
  proof that is accepted shows values of some earlier state of the other chain (\<open>authentic\<close>); which one, who relays
  it, and in which order relayers submit what they have is arbitrary.

  The main invariant says that each lane is a reliable queue: what one chain has dispatched is what the other has
  sent, from the first message on, in order and once, and no message is forgotten before it was delivered.
\<close>

section \<open>Steps of one chain\<close>

definition authentic ::
  "('d, 'r, 'x) messages_config \<Rightarrow> ('d, 'r, 'x) messages_state set \<Rightarrow> hash \<Rightarrow> raw_storage_proof \<Rightarrow> bool" where
  "authentic cfg past header raw \<longleftrightarrow>
     (\<forall>c. verify_storage_proof cfg header raw = Inr c \<longrightarrow> (\<exists>st \<in> past. reads_from c st))"

text \<open>
  The headers that a chain knows change over time and are chosen anew at every call of a relayer. The label of a step
  is the message that it sends.
\<close>

inductive chain_step ::
  "('d, 'r, 'x) messages_config \<Rightarrow> ('d, 'r, 'x) messages_state set
     \<Rightarrow> ('d, 'r, 'x) messages_state \<Rightarrow> (lane_id \<times> message_payload) option \<Rightarrow> ('d, 'r, 'x) messages_state \<Rightarrow> bool"
  for cfg past where
  step_send: "validate_message cfg lane payload st = (Inr args, st1) \<Longrightarrow> send_message args st1 = (art, st') \<Longrightarrow>
    chain_step cfg past st (Some (lane, payload)) st'"
| step_deliver: "cfg' = cfg\<lparr>mc_finalized_state_root := roots\<rparr> \<Longrightarrow>
    authentic cfg' past (bridged_header_hash proof) (storage_proof proof) \<Longrightarrow>
    transactional (receive_messages_proof cfg' o1 r proof count w) st = (res, st') \<Longrightarrow> chain_step cfg past st None st'"
| step_confirm: "cfg' = cfg\<lparr>mc_finalized_state_root := roots\<rparr> \<Longrightarrow>
    authentic cfg' past (dp_header_hash dproof) (dp_storage_proof dproof) \<Longrightarrow>
    transactional (receive_messages_delivery_proof cfg' o1 dproof rs) st = (res, st') \<Longrightarrow> chain_step cfg past st None st'"
| step_owner: "transactional (set_owner o1 owner) st = (ures, st') \<Longrightarrow> chain_step cfg past st None st'"
| step_mode: "transactional (set_operating_mode o1 mode) st = (ures, st') \<Longrightarrow> chain_step cfg past st None st'"
| step_open_inbound: "transactional (create_inbound_lane cfg lane) st = (ires, st') \<Longrightarrow> chain_step cfg past st None st'"
| step_open_outbound: "transactional (create_outbound_lane lane) st = (ores, st') \<Longrightarrow> chain_step cfg past st None st'"
| step_inbound_state: "any_state_inbound_lane cfg lane st = (Inr d, st1) \<Longrightarrow>
    in_set_state (runtime_inbound cfg lane) lst (d, st1) = (d', st') \<Longrightarrow> chain_step cfg past st None st'"
| step_outbound_state: "any_state_outbound_lane lane st = (Inr e, st1) \<Longrightarrow>
    out_set_state (runtime_outbound lane) lst (e, st1) = (e', st') \<Longrightarrow> chain_step cfg past st None st'"

section \<open>What a lane is at its two ends\<close>

definition received :: "lane_id \<Rightarrow> ('d, 'r, 'x) messages_state \<Rightarrow> nonce" where
  "received lane st = (case outbound_lanes st lane of None \<Rightarrow> 0 | Some d \<Rightarrow> latest_received_nonce d)"

definition generated :: "lane_id \<Rightarrow> ('d, 'r, 'x) messages_state \<Rightarrow> nonce" where
  "generated lane st = (case outbound_lanes st lane of None \<Rightarrow> 0 | Some d \<Rightarrow> latest_generated_nonce d)"

definition queued :: "lane_id \<Rightarrow> ('d, 'r, 'x) messages_state \<Rightarrow> nonce \<Rightarrow> message_payload option" where
  "queued lane st n = outbound_messages st \<lparr>mk_lane_id = lane, mk_nonce = n\<rparr>"

definition delivered :: "lane_id \<Rightarrow> ('d, 'r, 'x) messages_state \<Rightarrow> nonce" where
  "delivered lane st = (case inbound_lanes st lane of None \<Rightarrow> 0 | Some d \<Rightarrow> last_delivered_nonce d)"

definition confirmed :: "lane_id \<Rightarrow> ('d, 'r, 'x) messages_state \<Rightarrow> nonce" where
  "confirmed lane st = (case inbound_lanes st lane of None \<Rightarrow> 0 | Some d \<Rightarrow> last_confirmed_nonce d)"

definition inbound_sound :: "('d, 'r, 'x) messages_state \<Rightarrow> bool" where
  "inbound_sound st \<longleftrightarrow> (\<forall>lane d. inbound_lanes st lane = Some d \<longrightarrow> inbound_ok d)"

lemma confirmed_le_delivered: "inbound_sound st \<Longrightarrow> confirmed lane st \<le> delivered lane st"
  by (auto simp: confirmed_def delivered_def inbound_sound_def inbound_ok_le split: option.split)

lemma transactional_cases:
  assumes "transactional m st = (res, st')"
  shows "st' = st \<or> (\<exists>x. m st = (Inr x, st'))"
  using assms by (auto simp: transactional_def split: prod.splits sum.splits)

text \<open>The effect of a step on the outbound ends: nothing, a message sent, or messages confirmed.\<close>

definition same_source :: "('d, 'r, 'x) messages_state \<Rightarrow> ('d, 'r, 'x) messages_state \<Rightarrow> bool" where
  "same_source st st' \<longleftrightarrow> (\<forall>l. received l st' = received l st \<and> generated l st' = generated l st \<and> queued l st' = queued l st)"

definition sends :: "lane_id \<Rightarrow> message_payload \<Rightarrow> ('d, 'r, 'x) messages_state \<Rightarrow> ('d, 'r, 'x) messages_state \<Rightarrow> bool" where
  "sends lane payload st st' \<longleftrightarrow> (\<forall>l. received l st' = received l st \<and>
     generated l st' = (if l = lane then add64 (generated l st) 1 else generated l st) \<and>
     queued l st' = (if l = lane then (queued l st)(add64 (generated l st) 1 \<mapsto> payload) else queued l st))"

definition confirms ::
  "lane_id \<Rightarrow> nonce \<Rightarrow> ('d, 'r, 'x) messages_state \<Rightarrow> ('d, 'r, 'x) messages_state \<Rightarrow> bool" where
  "confirms lane k st st' \<longleftrightarrow> received lane st < k \<and> k \<le> generated lane st \<and>
     (\<forall>l. received l st' = (if l = lane then k else received l st) \<and> generated l st' = generated l st \<and>
       queued l st' = (if l = lane then (\<lambda>n. if received l st < n \<and> n \<le> k then None else queued l st n) else queued l st))"

lemma same_sourceI: "outbound_lanes st' = outbound_lanes st \<Longrightarrow> outbound_messages st' = outbound_messages st \<Longrightarrow> same_source st st'"
  by (simp add: same_source_def received_def generated_def queued_def fun_eq_iff)

lemma same_source_refl [simp]: "same_source st st"
  by (rule same_sourceI) auto

lemma send_effect:
  assumes "validate_message cfg lane payload st = (Inr args, st1)" and "send_message args st1 = (art, st')"
  shows "sends lane payload st st' \<and> inbound_lanes st' = inbound_lanes st \<and> mdisp st' = mdisp st"
  using assms
  by (auto simp: validate_message_def send_message_def out_send_message_def runtime_outbound_def Let_def
    data_queued_messages_def sends_def received_def generated_def queued_def fun_eq_iff)

lemma delivery_reads:
  assumes "receive_messages_proof cfg o1 r proof count w st = (Inr a, st')"
    and "authentic cfg past (bridged_header_hash proof) (storage_proof proof)"
  obtains src where "src \<in> past"
    and "\<And>c. verify_storage_proof cfg (bridged_header_hash proof) (storage_proof proof) = Inr c \<Longrightarrow> reads_from c src"
proof -
  from assms(1) obtain p where "verify_messages_proof cfg proof count = Inr p"
    by (auto simp: receive_messages_proof_def Let_def dest: sym)
  then obtain c where c: "verify_storage_proof cfg (bridged_header_hash proof) (storage_proof proof) = Inr c"
    by (auto simp: verify_messages_proof_def split: sum.splits)
  with assms(2) obtain src where "src \<in> past" "reads_from c src" by (auto simp: authentic_def)
  with c show thesis by (intro that [of src]) auto
qed

lemma confirmation_reads:
  assumes "receive_messages_delivery_proof cfg o1 proof rs st = (Inr a, st')"
    and "authentic cfg past (dp_header_hash proof) (dp_storage_proof proof)"
  obtains tgt where "tgt \<in> past"
    and "\<And>c. verify_storage_proof cfg (dp_header_hash proof) (dp_storage_proof proof) = Inr c \<Longrightarrow> reads_from c tgt"
proof -
  from assms(1) obtain p where "verify_messages_delivery_proof cfg proof = Inr p"
    by (auto simp: receive_messages_delivery_proof_def Let_def dest: sym)
  then obtain c where c: "verify_storage_proof cfg (dp_header_hash proof) (dp_storage_proof proof) = Inr c"
    by (auto simp: verify_messages_delivery_proof_def split: sum.splits)
  with assms(2) obtain tgt where "tgt \<in> past" "reads_from c tgt" by (auto simp: authentic_def)
  with c show thesis by (intro that [of tgt]) auto
qed

lemma confirm_effect:
  assumes "receive_messages_delivery_proof cfg o1 proof rs st = (Inr a, st')"
    and "authentic cfg past (dp_header_hash proof) (dp_storage_proof proof)"
    and "\<And>tgt. tgt \<in> past \<Longrightarrow> inbound_sound tgt" and "\<And>l. received l st < u64_max"
  shows "(same_source st st' \<or> (\<exists>tgt \<in> past. confirms (dp_lane proof) (delivered (dp_lane proof) tgt) st st')) \<and>
    inbound_lanes st' = inbound_lanes st \<and> mdisp st' = mdisp st"
proof -
  from assms(1,2) obtain tgt where tgt: "tgt \<in> past" and
    reads: "\<And>c. verify_storage_proof cfg (dp_header_hash proof) (dp_storage_proof proof) = Inr c \<Longrightarrow> reads_from c tgt"
    by (rule confirmation_reads) blast
  from assms(1) reads obtain lane data d r d' st1 where eff: "inbound_lanes tgt lane = Some data" "lane = dp_lane proof"
    "outbound_lanes st lane = Some d"
    "confirm_delivery (runtime_outbound lane) (total_unrewarded_messages data) (last_delivered_nonce data) (relayers data) (d, st) =
      (Inr r, (d', st1))"
    "inbound_lanes st' = inbound_lanes st1" "mdisp st' = mdisp st1" "outbound_lanes st' = outbound_lanes st1"
    "outbound_messages st' = outbound_messages st1"
    by (rule receive_messages_delivery_proof_effect) blast
  have k: "last_delivered_nonce data \<le> u64_max" "delivered lane tgt = last_delivered_nonce data"
    using assms(3) [OF tgt] eff(1) by (auto simp: inbound_sound_def inbound_ok_def delivered_def)
  have d: "received lane st = latest_received_nonce d" "generated lane st = latest_generated_nonce d"
    using eff(3) by (simp_all add: received_def generated_def)
  have cases: "st1 = st \<or>
      latest_received_nonce d < delivered lane tgt \<and> delivered lane tgt \<le> latest_generated_nonce d \<and>
      d' = d\<lparr>latest_received_nonce := delivered lane tgt, oldest_unpruned_nonce := sat_add u64_max (delivered lane tgt) 1\<rparr> \<and>
      queued lane st1 = (\<lambda>n. if latest_received_nonce d < n \<and> n \<le> delivered lane tgt then None else queued lane st n) \<and>
      outbound_lanes st1 lane = Some d' \<and> out_frame lane (d', st1) = out_frame lane (d, st)"
    using ro.confirm_ok [OF eff(4) k(1)] assms(4) [of lane] d(1) by (auto simp: k(2) queued_def fun_eq_iff)
  then show ?thesis
  proof
    assume "st1 = st"
    with eff show ?thesis by (auto intro: same_sourceI)
  next
    assume *: "latest_received_nonce d < delivered lane tgt \<and> delivered lane tgt \<le> latest_generated_nonce d \<and>
      d' = d\<lparr>latest_received_nonce := delivered lane tgt, oldest_unpruned_nonce := sat_add u64_max (delivered lane tgt) 1\<rparr> \<and>
      queued lane st1 = (\<lambda>n. if latest_received_nonce d < n \<and> n \<le> delivered lane tgt then None else queued lane st n) \<and>
      outbound_lanes st1 lane = Some d' \<and> out_frame lane (d', st1) = out_frame lane (d, st)"
    then have "out_frame lane (d', st1) = out_frame lane (d, st)" by blast
    note fr = out_frameD [OF this]
    have q: "queued l st' = (if l = lane then (\<lambda>n. if received l st < n \<and> n \<le> delivered lane tgt then None else queued l st n) else queued l st)" for l
      using * fr(5) eff(8) by (auto simp: queued_def fun_eq_iff d(1))
    have "received l st' = (if l = lane then delivered lane tgt else received l st) \<and> generated l st' = generated l st" for l
      using * fr(4) [of l] eff(3,7) by (cases "l = lane") (simp_all add: received_def generated_def)
    with q * d have "confirms lane (delivered lane tgt) st st'" by (simp add: confirms_def)
    with tgt eff fr show ?thesis by auto
  qed
qed

text \<open>The effect of a step on the inbound ends: nothing, or messages dispatched.\<close>

definition same_target :: "('d, 'r, 'x) messages_state \<Rightarrow> ('d, 'r, 'x) messages_state \<Rightarrow> bool" where
  "same_target st st' \<longleftrightarrow> (\<forall>l. delivered l st' = delivered l st \<and> confirmed l st' = confirmed l st) \<and> mdisp st' = mdisp st \<and>
     (inbound_sound st \<longrightarrow> inbound_sound st')"

definition dispatches ::
  "('d, 'r, 'x) messages_config \<Rightarrow> lane_id \<Rightarrow> message list \<Rightarrow> ('d, 'r, 'x) messages_state
     \<Rightarrow> ('d, 'r, 'x) messages_state \<Rightarrow> ('d, 'r, 'x) messages_state \<Rightarrow> bool" where
  "dispatches cfg lane ms src st st' \<longleftrightarrow> inbound_sound st' \<and> mdisp st' = dispatch_all cfg ms (mdisp st) \<and>
     nonces ms = [Suc (delivered lane st) ..< Suc (delivered lane st')] \<and>
     (\<forall>m \<in> set ms. mk_lane_id (m_key m) = lane \<and> outbound_messages src (m_key m) = Some (m_payload m)) \<and>
     delivered lane st \<le> delivered lane st' \<and>
     (confirmed lane st' = confirmed lane st \<or> confirmed lane st' = received lane src) \<and> confirmed lane st \<le> confirmed lane st' \<and>
     (\<forall>l. l \<noteq> lane \<longrightarrow> delivered l st' = delivered l st \<and> confirmed l st' = confirmed l st)"

lemma same_targetI: "inbound_lanes st' = inbound_lanes st \<Longrightarrow> mdisp st' = mdisp st \<Longrightarrow> same_target st st'"
  by (simp add: same_target_def delivered_def confirmed_def inbound_sound_def)

lemma same_target_refl [simp]: "same_target st st"
  by (rule same_targetI) auto

lemma deliver_effect:
  assumes "receive_messages_proof cfg o1 r proof count w st = (Inr a, st')"
    and "authentic cfg past (bridged_header_hash proof) (storage_proof proof)" and "inbound_sound st"
  shows "same_source st st' \<and> (\<exists>src \<in> past. \<exists>ms. dispatches cfg (mp_lane proof) ms src st st')"
proof -
  from assms(1,2) obtain src where src: "src \<in> past" and
    reads: "\<And>c. verify_storage_proof cfg (bridged_header_hash proof) (storage_proof proof) = Inr c \<Longrightarrow> reads_from c src"
    by (rule delivery_reads) blast
  have ok: "\<And>lane d. inbound_lanes st lane = Some d \<Longrightarrow> inbound_ok d" using assms(3) by (simp add: inbound_sound_def)
  from assms(1) reads ok obtain lane d d' ms where eff: "inbound_lanes st lane = Some d" "lane = mp_lane proof"
    "inbound_lanes st' = (inbound_lanes st)(lane \<mapsto> d')" "mdisp st' = dispatch_all cfg ms (mdisp st)"
    "outbound_lanes st' = outbound_lanes st" "outbound_messages st' = outbound_messages st" "inbound_ok d'"
    "nonces ms = [Suc (last_delivered_nonce d) ..< Suc (last_delivered_nonce d')]"
    "\<forall>m \<in> set ms. mk_lane_id (m_key m) = lane \<and> outbound_messages src (m_key m) = Some (m_payload m)"
    "last_delivered_nonce d \<le> last_delivered_nonce d'" "last_confirmed_nonce d \<le> last_confirmed_nonce d'"
    "last_confirmed_nonce d' = last_confirmed_nonce d \<or>
      (\<exists>ls. outbound_lanes src lane = Some ls \<and> last_confirmed_nonce d' = latest_received_nonce ls)"
    by (rule receive_messages_proof_effect) blast+
  have lane: "delivered lane st = last_delivered_nonce d" "delivered lane st' = last_delivered_nonce d'"
    "confirmed lane st = last_confirmed_nonce d" "confirmed lane st' = last_confirmed_nonce d'"
    using eff(1,3) by (simp_all add: delivered_def confirmed_def)
  have other: "l \<noteq> lane \<Longrightarrow> delivered l st' = delivered l st \<and> confirmed l st' = confirmed l st" for l
    using eff(3) by (simp add: delivered_def confirmed_def)
  have sound: "inbound_sound st'" using assms(3) eff(3,7) by (auto simp: inbound_sound_def)
  have "confirmed lane st' = confirmed lane st \<or> confirmed lane st' = received lane src"
    using eff(12) lane by (auto simp: received_def)
  then have "dispatches cfg lane ms src st st'"
    unfolding dispatches_def lane using sound eff(4,8,9,10,11) other by (simp add: lane)
  with src eff(2,5,6) show ?thesis by (auto intro: same_sourceI)
qed

lemma dispatches_cfg: "dispatches (cfg\<lparr>mc_finalized_state_root := roots\<rparr>) = dispatches cfg"
  by (simp add: fun_eq_iff dispatches_def dispatch_all_def)

lemma inbound_ok_state [simp]:
  "last_delivered_nonce (d\<lparr>il_state := lst\<rparr>) = last_delivered_nonce d" "inbound_ok (d\<lparr>il_state := lst\<rparr>) = inbound_ok d"
  "last_delivered_nonce inbound_lane_data_default = 0" "inbound_ok inbound_lane_data_default"
  by (simp_all add: last_delivered_nonce_def inbound_ok_def inbound_lane_data_default_def)

lemma source_upd_effect:
  assumes "outbound_lanes st' = (outbound_lanes st)(lane \<mapsto> e)" and "outbound_messages st' = outbound_messages st"
    and "latest_received_nonce e = received lane st" and "latest_generated_nonce e = generated lane st"
  shows "same_source st st'"
  using assms by (auto simp: same_source_def received_def generated_def queued_def fun_eq_iff)

lemma target_upd_effect:
  assumes "inbound_lanes st' = (inbound_lanes st)(lane \<mapsto> d)" and "mdisp st' = mdisp st"
    and "last_delivered_nonce d = delivered lane st" and "last_confirmed_nonce d = confirmed lane st"
    and "inbound_sound st \<Longrightarrow> inbound_ok d"
  shows "same_target st st'"
  using assms by (auto simp: same_target_def delivered_def confirmed_def inbound_sound_def)

lemma set_state_effect:
  "in_set_state (runtime_inbound cfg lane) lst (d, st) = (d', st') \<Longrightarrow> inbound_lanes st lane = Some d \<Longrightarrow> same_source st st' \<and> same_target st st'"
  "out_set_state (runtime_outbound lane) lst (e, st) = (e', st') \<Longrightarrow> outbound_lanes st lane = Some e \<Longrightarrow> same_source st st' \<and> same_target st st'"
proof -
  assume "in_set_state (runtime_inbound cfg lane) lst (d, st) = (d', st')" and d: "inbound_lanes st lane = Some d"
  then have "st' = st\<lparr>inbound_lanes := (inbound_lanes st)(lane \<mapsto> d\<lparr>il_state := lst\<rparr>)\<rparr>" by (auto simp: in_set_state_def)
  with d show "same_source st st' \<and> same_target st st'"
    by (auto simp: delivered_def confirmed_def inbound_sound_def intro: same_sourceI intro!: target_upd_effect [where lane = lane])
next
  assume "out_set_state (runtime_outbound lane) lst (e, st) = (e', st')" and e: "outbound_lanes st lane = Some e"
  then have "st' = st\<lparr>outbound_lanes := (outbound_lanes st)(lane \<mapsto> e\<lparr>ol_state := lst\<rparr>)\<rparr>"
    by (auto simp: out_set_state_def runtime_outbound_def)
  with e show "same_source st st' \<and> same_target st st'"
    by (auto simp: received_def generated_def intro: same_targetI intro!: source_upd_effect [where lane = lane])
qed

lemma open_effect:
  "create_inbound_lane cfg lane st = (Inr d, st') \<Longrightarrow> same_source st st' \<and> same_target st st'"
  "create_outbound_lane lane st = (Inr e, st') \<Longrightarrow> same_source st st' \<and> same_target st st'"
proof -
  assume "create_inbound_lane cfg lane st = (Inr d, st')"
  then have "inbound_lanes st lane = None" "st' = st\<lparr>inbound_lanes := (inbound_lanes st)(lane \<mapsto> inbound_lane_data_default\<lparr>il_state := Opened\<rparr>)\<rparr>"
    by (auto simp: create_inbound_lane_def)
  then show "same_source st st' \<and> same_target st st'"
    by (auto simp: delivered_def confirmed_def inbound_lane_data_default_def [THEN arg_cong, of last_confirmed_nonce]
      intro: same_sourceI intro!: target_upd_effect [where lane = lane])
next
  assume "create_outbound_lane lane st = (Inr e, st')"
  then have "outbound_lanes st lane = None" "st' = st\<lparr>outbound_lanes := (outbound_lanes st)(lane \<mapsto> outbound_lane_data_default\<lparr>ol_state := Opened\<rparr>)\<rparr>"
    by (auto simp: create_outbound_lane_def)
  then show "same_source st st' \<and> same_target st st'"
    by (auto simp: received_def generated_def outbound_lane_data_default_def
      intro: same_targetI intro!: source_upd_effect [where lane = lane])
qed

lemma owner_effect:
  "set_owner o1 owner st = (Inr u, st') \<Longrightarrow> same_source st st' \<and> same_target st st'"
  "set_operating_mode o1 mode st = (Inr u, st') \<Longrightarrow> same_source st st' \<and> same_target st st'"
  by (auto simp: set_owner_def set_operating_mode_def ensure_owner_or_root_def split: raw_origin.splits
    intro!: same_sourceI same_targetI)

lemma transactional_same:
  assumes "transactional m st = (res, st')" and "\<And>x. m st = (Inr x, st') \<Longrightarrow> same_source st st' \<and> same_target st st'"
  shows "same_source st st' \<and> same_target st st'"
  using transactional_cases [OF assms(1)] assms(2) by auto

text \<open>Every step is one of four.\<close>

definition step_kind ::
  "('d, 'r, 'x) messages_config \<Rightarrow> ('d, 'r, 'x) messages_state set
     \<Rightarrow> ('d, 'r, 'x) messages_state \<Rightarrow> (lane_id \<times> message_payload) option \<Rightarrow> ('d, 'r, 'x) messages_state \<Rightarrow> bool" where
  "step_kind cfg past st label st' \<longleftrightarrow>
     (\<exists>lane payload. label = Some (lane, payload) \<and> sends lane payload st st' \<and> same_target st st') \<or>
     label = None \<and> (\<exists>tgt \<in> past. \<exists>lane. confirms lane (delivered lane tgt) st st' \<and> same_target st st') \<or>
     label = None \<and> (\<exists>src \<in> past. \<exists>lane ms. dispatches cfg lane ms src st st' \<and> same_source st st') \<or>
     label = None \<and> same_source st st' \<and> same_target st st'"

lemma same_step: "same_source st st' \<and> same_target st st' \<Longrightarrow> step_kind cfg past st None st'"
  by (simp add: step_kind_def)

lemma deliver_kind:
  assumes "authentic (cfg\<lparr>mc_finalized_state_root := roots\<rparr>) past (bridged_header_hash proof) (storage_proof proof)"
    and "transactional (receive_messages_proof (cfg\<lparr>mc_finalized_state_root := roots\<rparr>) o1 r proof count w) st = (res, st')"
    and "inbound_sound st"
  shows "step_kind cfg past st None st'"
  using transactional_cases [OF assms(2)]
proof (elim disjE exE)
  fix x assume "receive_messages_proof (cfg\<lparr>mc_finalized_state_root := roots\<rparr>) o1 r proof count w st = (Inr x, st')"
  from deliver_effect [OF this assms(1,3)] show ?thesis unfolding dispatches_cfg step_kind_def by blast
qed (simp add: same_step)

lemma confirm_kind:
  assumes "authentic cfg' past (dp_header_hash dproof) (dp_storage_proof dproof)"
    and "transactional (receive_messages_delivery_proof cfg' o1 dproof rs) st = (res, st')"
    and "\<And>other. other \<in> past \<Longrightarrow> inbound_sound other" and "\<And>l. received l st < u64_max"
  shows "step_kind cfg past st None st'"
  using transactional_cases [OF assms(2)]
proof (elim disjE exE)
  fix x assume "receive_messages_delivery_proof cfg' o1 dproof rs st = (Inr x, st')"
  from confirm_effect [OF this assms(1,3,4)] have "same_target st st'"
    and "same_source st st' \<or> (\<exists>tgt \<in> past. confirms (dp_lane dproof) (delivered (dp_lane dproof) tgt) st st')"
    by (auto intro: same_targetI)
  then show ?thesis unfolding step_kind_def by blast
qed (simp add: same_step)

lemma chain_step_kind:
  assumes "chain_step cfg past st label st'" and "inbound_sound st" and "\<And>other. other \<in> past \<Longrightarrow> inbound_sound other"
    and "\<And>l. received l st < u64_max"
  shows "step_kind cfg past st label st'"
  using assms(1)
proof cases
  case (step_send lane payload args st1 art)
  with send_effect [OF step_send(2,3)] show ?thesis by (auto simp: step_kind_def intro: same_targetI)
next
  case (step_deliver cfg' roots mproof o1 r count w res)
  show ?thesis unfolding step_deliver(1)
    by (rule deliver_kind [OF step_deliver(3,4) [unfolded step_deliver(2)] assms(2)])
next
  case (step_confirm cfg' roots dproof o1 rs res)
  show ?thesis unfolding step_confirm(1)
    by (rule confirm_kind [OF step_confirm(3,4) assms(3,4)])
next
  case (step_owner o1 owner ures)
  show ?thesis unfolding step_owner(1) by (rule same_step, rule transactional_same [OF step_owner(2)], rule owner_effect)
next
  case (step_mode o1 mode ures)
  show ?thesis unfolding step_mode(1) by (rule same_step, rule transactional_same [OF step_mode(2)], rule owner_effect)
next
  case (step_open_inbound lane ires)
  show ?thesis unfolding step_open_inbound(1) by (rule same_step, rule transactional_same [OF step_open_inbound(2)], rule open_effect)
next
  case (step_open_outbound lane ores)
  show ?thesis unfolding step_open_outbound(1) by (rule same_step, rule transactional_same [OF step_open_outbound(2)], rule open_effect)
next
  case (step_inbound_state lane d st1 lst d')
  then have "inbound_lanes st lane = Some d" "in_set_state (runtime_inbound cfg lane) lst (d, st) = (d', st')" by auto
  from set_state_effect(1) [OF this(2,1)] show ?thesis unfolding step_inbound_state(1) by (rule same_step)
next
  case (step_outbound_state lane e st1 lst e')
  then have "outbound_lanes st lane = Some e" "out_set_state (runtime_outbound lane) lst (e, st) = (e', st')" by auto
  from set_state_effect(2) [OF this(2,1)] show ?thesis unfolding step_outbound_state(1) by (rule same_step)
qed

section \<open>A lane is a queue\<close>

text \<open>
  \<open>sent\<close> is what was sent over each lane so far. A state of the source holds no other messages than these; the
  current one holds all that were not confirmed.
\<close>

definition source_ok :: "(lane_id \<Rightarrow> message_payload list) \<Rightarrow> ('d, 'r, 'x) messages_state \<Rightarrow> bool" where
  "source_ok sent st \<longleftrightarrow> (\<forall>l. received l st \<le> generated l st \<and> generated l st \<le> length (sent l) \<and>
     (\<forall>n p. queued l st n = Some p \<longrightarrow> 0 < n \<and> n \<le> length (sent l) \<and> p = sent l ! (n - 1)))"

definition source_now :: "(lane_id \<Rightarrow> message_payload list) \<Rightarrow> ('d, 'r, 'x) messages_state \<Rightarrow> bool" where
  "source_now sent st \<longleftrightarrow> (\<forall>l. generated l st = length (sent l) \<and>
     (\<forall>n. received l st < n \<and> n \<le> length (sent l) \<longrightarrow> queued l st n = Some (sent l ! (n - 1))))"

definition sent_messages :: "(lane_id \<Rightarrow> message_payload list) \<Rightarrow> lane_id \<Rightarrow> nonce list \<Rightarrow> message list" where
  "sent_messages sent l ns = map (\<lambda>n. \<lparr>m_key = \<lparr>mk_lane_id = l, mk_nonce = n\<rparr>, m_payload = sent l ! (n - 1)\<rparr>) ns"

definition dispatched_in_order ::
  "('d, 'r, 'x) messages_config \<Rightarrow> 'd \<Rightarrow> (lane_id \<Rightarrow> message_payload list) \<Rightarrow> ('d, 'r, 'x) messages_state \<Rightarrow> bool" where
  "dispatched_in_order cfg d0 sent st \<longleftrightarrow>
     (\<exists>ms. mdisp st = dispatch_all cfg ms d0 \<and>
       (\<forall>l. filter (\<lambda>m. mk_lane_id (m_key m) = l) ms = sent_messages sent l [1 ..< Suc (delivered l st)]))"

definition queue_inv ::
  "('d, 'r, 'x) messages_config \<Rightarrow> 'd \<Rightarrow> (lane_id \<Rightarrow> message_payload list)
     \<Rightarrow> ('d, 'r, 'x) messages_state \<Rightarrow> ('d, 'r, 'x) messages_state set
     \<Rightarrow> ('d, 'r, 'x) messages_state \<Rightarrow> ('d, 'r, 'x) messages_state set \<Rightarrow> bool" where
  "queue_inv cfg d0 sent src src_past tgt tgt_past \<longleftrightarrow> source_now sent src \<and>
     (\<forall>st \<in> insert src src_past. source_ok sent st \<and> (\<forall>l. received l st \<le> received l src)) \<and>
     (\<forall>st \<in> insert tgt tgt_past. inbound_sound st \<and> (\<forall>l. delivered l st \<le> delivered l tgt \<and> confirmed l st \<le> received l src)) \<and>
     (\<forall>l. received l src \<le> delivered l tgt \<and> delivered l tgt \<le> length (sent l)) \<and>
     dispatched_in_order cfg d0 sent tgt"

fun log_sent ::
  "(lane_id \<times> message_payload) option \<Rightarrow> (lane_id \<Rightarrow> message_payload list) \<Rightarrow> lane_id \<Rightarrow> message_payload list" where
  "log_sent None sent = sent"
| "log_sent (Some (lane, payload)) sent = sent(lane := sent lane @ [payload])"

lemma source_ok_same: "same_source st st' \<Longrightarrow> source_ok sent st' = source_ok sent st"
  by (simp add: source_ok_def same_source_def)

lemma source_now_same: "same_source st st' \<Longrightarrow> source_now sent st' = source_now sent st"
  by (simp add: source_now_def same_source_def)

lemma length_sent_append: "length (sent l) \<le> length ((sent(lane := sent lane @ [payload])) l)"
  by simp

lemma source_ok_append:
  assumes "source_ok sent st"
  shows "source_ok (sent(lane := sent lane @ [payload])) st"
  unfolding source_ok_def
proof (intro allI conjI impI)
  fix l n p
  from assms have ok: "received l st \<le> generated l st" "generated l st \<le> length (sent l)"
    "\<And>n p. queued l st n = Some p \<Longrightarrow> 0 < n \<and> n \<le> length (sent l) \<and> p = sent l ! (n - 1)"
    by (simp_all add: source_ok_def)
  show "received l st \<le> generated l st" by (fact ok)
  show "generated l st \<le> length ((sent(lane := sent lane @ [payload])) l)"
    using ok(2) length_sent_append [of sent l lane payload] by linarith
  assume q: "queued l st n = Some p"
  from ok(3) [OF q] show "0 < n" "p = (sent(lane := sent lane @ [payload])) l ! (n - 1)"
    by (auto simp: nth_append)
  from ok(3) [OF q] show "n \<le> length ((sent(lane := sent lane @ [payload])) l)"
    using length_sent_append [of sent l lane payload] by linarith
qed

lemma queue_invD:
  assumes "queue_inv cfg d0 sent src sp tgt tp"
  shows "source_now sent src" and "st \<in> insert src sp \<Longrightarrow> source_ok sent st \<and> (\<forall>l. received l st \<le> received l src)"
    and "st \<in> insert tgt tp \<Longrightarrow> inbound_sound st \<and> (\<forall>l. delivered l st \<le> delivered l tgt \<and> confirmed l st \<le> received l src)"
    and "received l src \<le> delivered l tgt \<and> delivered l tgt \<le> length (sent l)"
    and "dispatched_in_order cfg d0 sent tgt"
  using assms unfolding queue_inv_def by blast+

lemma sent_messages_append:
  assumes "k \<le> length (sent l)"
  shows "sent_messages (sent(lane := sent lane @ [payload])) l [1 ..< Suc k] = sent_messages sent l [1 ..< Suc k]"
  unfolding sent_messages_def by (rule map_cong) (use assms in \<open>auto simp: nth_append\<close>)

lemma in_order_append:
  assumes "dispatched_in_order cfg d0 sent st" and "\<And>l. delivered l st \<le> length (sent l)"
  shows "dispatched_in_order cfg d0 (sent(lane := sent lane @ [payload])) st"
proof -
  from assms(1) obtain ms where ms: "mdisp st = dispatch_all cfg ms d0"
    "\<And>l. filter (\<lambda>m. mk_lane_id (m_key m) = l) ms = sent_messages sent l [1 ..< Suc (delivered l st)]"
    unfolding dispatched_in_order_def by blast
  have "filter (\<lambda>m. mk_lane_id (m_key m) = l) ms = sent_messages (sent(lane := sent lane @ [payload])) l [1 ..< Suc (delivered l st)]" for l
    unfolding ms(2) by (rule sent_messages_append [OF assms(2), symmetric])
  with ms(1) show ?thesis unfolding dispatched_in_order_def by blast
qed

lemma queue_invI:
  assumes "source_now sent src" and "source_ok sent src"
    and "\<And>st. st \<in> sp \<Longrightarrow> source_ok sent st \<and> (\<forall>l. received l st \<le> received l src)"
    and "inbound_sound tgt \<and> (\<forall>l. confirmed l tgt \<le> received l src)"
    and "\<And>st. st \<in> tp \<Longrightarrow> inbound_sound st \<and> (\<forall>l. delivered l st \<le> delivered l tgt \<and> confirmed l st \<le> received l src)"
    and "\<And>l. received l src \<le> delivered l tgt \<and> delivered l tgt \<le> length (sent l)"
    and "dispatched_in_order cfg d0 sent tgt"
  shows "queue_inv cfg d0 sent src sp tgt tp"
  using assms unfolding queue_inv_def by simp

lemma queue_send:
  assumes inv: "queue_inv cfg d0 sent src sp tgt tp" and step: "sends lane payload src src'"
    and bound: "length (sent lane) < u64_max"
  shows "queue_inv cfg d0 (sent(lane := sent lane @ [payload])) src' (insert src sp) tgt tp"
proof -
  let ?sent = "sent(lane := sent lane @ [payload])"
  note D = queue_invD [OF inv]
  have gen: "add64 (generated lane src) 1 = Suc (length (sent lane))"
    using D(1) bound by (simp add: source_now_def)
  have recv: "received l src' = received l src" for l using step by (simp add: sends_def)
  have q: "queued l src' n = (if l = lane \<and> n = Suc (length (sent lane)) then Some payload else queued l src n)" for l n
    using step gen by (auto simp: sends_def)
  have g: "generated l src' = length (?sent l)" for l
    using step gen D(1) by (auto simp: sends_def source_now_def)
  have old: "source_ok ?sent src" using D(2) source_ok_append by blast
  have "queued l src' n = Some (?sent l ! (n - 1))" if "received l src' < n" "n \<le> length (?sent l)" for l n
  proof (cases "l = lane \<and> n = Suc (length (sent lane))")
    case False
    with that have "received l src < n \<and> n \<le> length (sent l)" by (auto simp: recv le_Suc_eq split: if_splits)
    with D(1) have "queued l src n = Some (sent l ! (n - 1))" by (simp add: source_now_def)
    with False q \<open>received l src < n \<and> n \<le> length (sent l)\<close> show ?thesis by (auto simp: nth_append)
  qed (simp add: q)
  with g have "source_now ?sent src'" unfolding source_now_def by blast
  moreover have "0 < n \<and> n \<le> length (?sent l) \<and> p = ?sent l ! (n - 1)" if "queued l src' n = Some p" for l n p
    using that q [of l n] old by (cases "l = lane \<and> n = Suc (length (sent lane))") (auto simp: source_ok_def)
  moreover have "received l src' \<le> generated l src'" for l
    using old g [of l] recv [of l] unfolding source_ok_def by (metis le_trans)
  ultimately have "source_now ?sent src'" and "source_ok ?sent src'" using g unfolding source_ok_def by auto
  moreover have "source_ok ?sent st \<and> (\<forall>l. received l st \<le> received l src')" if "st \<in> insert src sp" for st
    using D(2) [OF that] source_ok_append [of sent st] recv by simp
  moreover have "received l src' \<le> delivered l tgt \<and> delivered l tgt \<le> length (?sent l)" for l
    using D(4) [of l] recv by (auto simp: le_SucI)
  moreover have "dispatched_in_order cfg d0 ?sent tgt" using D(4,5) by (intro in_order_append) auto
  moreover have "inbound_sound st \<and> (\<forall>l. delivered l st \<le> delivered l tgt \<and> confirmed l st \<le> received l src')" if "st \<in> insert tgt tp" for st
    using D(3) [OF that] recv by simp
  ultimately show ?thesis by (intro queue_invI) blast+
qed

lemma queue_confirm:
  assumes inv: "queue_inv cfg d0 sent src sp tgt tp" and tau: "tau \<in> insert tgt tp" and step: "confirms lane (delivered lane tau) src src'"
  shows "queue_inv cfg d0 sent src' (insert src sp) tgt tp"
proof -
  note D = queue_invD [OF inv]
  have recv: "received l src' = (if l = lane then delivered lane tau else received l src)" "generated l src' = generated l src"
    "queued l src' n = (if l = lane \<and> received l src < n \<and> n \<le> delivered lane tau then None else queued l src n)" for l n
    using step by (auto simp: confirms_def)
  have grow: "received l src \<le> received l src'" for l using step by (simp add: confirms_def)
  have "source_now sent src'"
    using D(1) step recv by (auto simp: source_now_def confirms_def)
  moreover have "source_ok sent src'"
    using D(2) [of src] step recv by (auto simp: source_ok_def confirms_def split: if_splits)
  moreover have "source_ok sent st \<and> (\<forall>l. received l st \<le> received l src')" if "st \<in> insert src sp" for st
    using D(2) [OF that] grow order_trans by blast
  moreover have "inbound_sound st \<and> (\<forall>l. delivered l st \<le> delivered l tgt \<and> confirmed l st \<le> received l src')" if "st \<in> insert tgt tp" for st
    using D(3) [OF that] grow order_trans by blast
  moreover have "received l src' \<le> delivered l tgt \<and> delivered l tgt \<le> length (sent l)" for l
    using D(4) [of l] recv(1) [of l] D(3) [OF tau] by simp
  ultimately show ?thesis using D(5) by (intro queue_invI) blast+
qed

lemma queue_same_source:
  assumes inv: "queue_inv cfg d0 sent src sp tgt tp" and "same_source src src'"
  shows "queue_inv cfg d0 sent src' (insert src sp) tgt tp"
proof -
  have "\<And>l. received l src' = received l src" using assms(2) by (simp add: same_source_def)
  with queue_invD [OF inv] assms(2) show ?thesis unfolding queue_inv_def by (auto simp: source_ok_same [OF assms(2)] source_now_same [OF assms(2)])
qed

lemma queue_same_target:
  assumes inv: "queue_inv cfg d0 sent src sp tgt tp" and "same_target tgt tgt'"
  shows "queue_inv cfg d0 sent src sp tgt' (insert tgt tp)"
proof -
  have "\<And>l. delivered l tgt' = delivered l tgt" "\<And>l. confirmed l tgt' = confirmed l tgt" "mdisp tgt' = mdisp tgt" "inbound_sound tgt \<longrightarrow> inbound_sound tgt'"
    using assms(2) by (simp_all add: same_target_def)
  with queue_invD [OF inv] show ?thesis unfolding queue_inv_def by (auto simp: dispatched_in_order_def)
qed

lemma dispatched_sent:
  assumes "source_ok sent src" and "\<forall>m \<in> set ms. mk_lane_id (m_key m) = lane \<and> outbound_messages src (m_key m) = Some (m_payload m)"
  shows "ms = sent_messages sent lane (nonces ms) \<and> (\<forall>n \<in> set (nonces ms). n \<le> length (sent lane))"
proof -
  have "0 < mk_nonce (m_key m) \<and> mk_nonce (m_key m) \<le> length (sent lane) \<and>
      m = \<lparr>m_key = \<lparr>mk_lane_id = lane, mk_nonce = mk_nonce (m_key m)\<rparr>, m_payload = sent lane ! (mk_nonce (m_key m) - 1)\<rparr>"
    if "m \<in> set ms" for m
  proof -
    have key: "m_key m = \<lparr>mk_lane_id = lane, mk_nonce = mk_nonce (m_key m)\<rparr>" using assms(2) that by simp
    then have "queued lane src (mk_nonce (m_key m)) = Some (m_payload m)" using assms(2) that by (metis queued_def)
    with assms(1) have "0 < mk_nonce (m_key m) \<and> mk_nonce (m_key m) \<le> length (sent lane) \<and>
        m_payload m = sent lane ! (mk_nonce (m_key m) - 1)"
      unfolding source_ok_def by blast
    with key show ?thesis by simp
  qed
  then show ?thesis by (auto simp: sent_messages_def intro!: map_idI [symmetric])
qed

lemma in_order_dispatch:
  assumes "dispatched_in_order cfg d0 sent tgt" and "dispatches cfg lane ms src tgt tgt'" and "source_ok sent src"
  shows "dispatched_in_order cfg d0 sent tgt'"
proof -
  from assms(2) have d: "mdisp tgt' = dispatch_all cfg ms (mdisp tgt)"
    "nonces ms = [Suc (delivered lane tgt) ..< Suc (delivered lane tgt')]" "delivered lane tgt \<le> delivered lane tgt'"
    and lane: "\<forall>m \<in> set ms. mk_lane_id (m_key m) = lane \<and> outbound_messages src (m_key m) = Some (m_payload m)"
    and other: "\<And>l. l \<noteq> lane \<Longrightarrow> delivered l tgt' = delivered l tgt"
    unfolding dispatches_def by blast+
  from assms(1) obtain ms0 where ms0: "mdisp tgt = dispatch_all cfg ms0 d0"
    "\<And>l. filter (\<lambda>m. mk_lane_id (m_key m) = l) ms0 = sent_messages sent l [1 ..< Suc (delivered l tgt)]"
    unfolding dispatched_in_order_def by blast
  have ms: "ms = sent_messages sent lane [Suc (delivered lane tgt) ..< Suc (delivered lane tgt')]"
    using dispatched_sent [OF assms(3) lane] d(2) by simp
  have "filter (\<lambda>m. mk_lane_id (m_key m) = l) (ms0 @ ms) = sent_messages sent l [1 ..< Suc (delivered l tgt')]" for l
  proof (cases "l = lane")
    case True
    have "filter (\<lambda>m. mk_lane_id (m_key m) = lane) ms = ms" using lane by simp
    moreover have "[1 ..< Suc (delivered lane tgt)] @ [Suc (delivered lane tgt) ..< Suc (delivered lane tgt')] = [1 ..< Suc (delivered lane tgt')]"
      using d(3) upt_add_eq_append [of 1 "Suc (delivered lane tgt)" "delivered lane tgt' - delivered lane tgt"] by simp
    ultimately show ?thesis
      using True ms0(2) [of lane] ms by (simp add: sent_messages_def del: upt_Suc flip: map_append)
  next
    case False
    then have "filter (\<lambda>m. mk_lane_id (m_key m) = l) ms = []" using lane by (auto simp: filter_empty_conv)
    with False ms0(2) [of l] other [of l] show ?thesis by simp
  qed
  moreover have "mdisp tgt' = dispatch_all cfg (ms0 @ ms) d0" using d(1) ms0(1) by simp
  ultimately show ?thesis unfolding dispatched_in_order_def by blast
qed

lemma queue_dispatch:
  assumes inv: "queue_inv cfg d0 sent src sp tgt tp" and sigma: "sigma \<in> insert src sp" and step: "dispatches cfg lane ms sigma tgt tgt'"
  shows "queue_inv cfg d0 sent src sp tgt' (insert tgt tp)"
proof -
  note D = queue_invD [OF inv]
  from D(2) [OF sigma] have ok: "source_ok sent sigma" and recv: "received lane sigma \<le> received lane src" by auto
  from step have d: "inbound_sound tgt'" "delivered lane tgt \<le> delivered lane tgt'"
    "nonces ms = [Suc (delivered lane tgt) ..< Suc (delivered lane tgt')]"
    "confirmed lane tgt' = confirmed lane tgt \<or> confirmed lane tgt' = received lane sigma"
    and lane: "\<forall>m \<in> set ms. mk_lane_id (m_key m) = lane \<and> outbound_messages sigma (m_key m) = Some (m_payload m)"
    and other: "\<And>l. l \<noteq> lane \<Longrightarrow> delivered l tgt' = delivered l tgt \<and> confirmed l tgt' = confirmed l tgt"
    unfolding dispatches_def by blast+
  have grow: "delivered l tgt \<le> delivered l tgt'" for l using d(2) other [of l] by (cases "l = lane") auto
  have "delivered lane tgt' \<le> length (sent lane)"
  proof (cases "delivered lane tgt < delivered lane tgt'")
    case True
    then have "delivered lane tgt' \<in> set (nonces ms)" using d(3) by simp
    with dispatched_sent [OF ok lane] show ?thesis by blast
  next
    case False
    with D(4) [of lane] grow [of lane] show ?thesis by simp
  qed
  then have le: "received l src \<le> delivered l tgt' \<and> delivered l tgt' \<le> length (sent l)" for l
    using D(4) [of l] grow [of l] other [of l] by (cases "l = lane") auto
  have conf: "confirmed l tgt' \<le> received l src" for l
    using D(3) [of tgt] d(4) recv other [of l] by (cases "l = lane") auto
  have "inbound_sound st \<and> (\<forall>l. delivered l st \<le> delivered l tgt' \<and> confirmed l st \<le> received l src)" if "st \<in> insert tgt tp" for st
    using D(3) [OF that] grow by (meson le_trans)
  with D(1) D(2) d(1) conf le in_order_dispatch [OF D(5) step ok] show ?thesis
    by (intro queue_invI) blast+
qed

section \<open>The two chains together\<close>

record ('d, 'r, 'x) bridge =
  here :: "('d, 'r, 'x) messages_state"
  there :: "('d, 'r, 'x) messages_state"
  here_past :: "('d, 'r, 'x) messages_state set"
  there_past :: "('d, 'r, 'x) messages_state set"
  sent_here :: "lane_id \<Rightarrow> message_payload list"
  sent_there :: "lane_id \<Rightarrow> message_payload list"

definition blank :: "'d \<Rightarrow> 'x \<Rightarrow> ('d, 'r, 'x) messages_state" where
  "blank d x = \<lparr>pallet_owner = None, pallet_operating_mode = Basic Normal, inbound_lanes = Map.empty, outbound_lanes = Map.empty,
     outbound_messages = (\<lambda>_. None), mdisp = d, mext = x, m_events = []\<rparr>"

inductive bridge_run ::
  "('d, 'r, 'x) messages_config \<Rightarrow> ('d, 'r, 'x) messages_config \<Rightarrow> 'd \<Rightarrow> 'd \<Rightarrow> ('d, 'r, 'x) bridge \<Rightarrow> bool"
  for ch ct d0 e0 where
  run_start: "bridge_run ch ct d0 e0 \<lparr>here = messages_genesis g (blank d0 x), there = messages_genesis h (blank e0 y),
    here_past = {}, there_past = {}, sent_here = (\<lambda>_. []), sent_there = (\<lambda>_. [])\<rparr>"
| run_here: "bridge_run ch ct d0 e0 b \<Longrightarrow> chain_step ch (insert (there b) (there_past b)) (here b) label st \<Longrightarrow>
    bridge_run ch ct d0 e0 (b\<lparr>here := st, here_past := insert (here b) (here_past b), sent_here := log_sent label (sent_here b)\<rparr>)"
| run_there: "bridge_run ch ct d0 e0 b \<Longrightarrow> chain_step ct (insert (here b) (here_past b)) (there b) label st \<Longrightarrow>
    bridge_run ch ct d0 e0 (b\<lparr>there := st, there_past := insert (there b) (there_past b), sent_there := log_sent label (sent_there b)\<rparr>)"

text \<open>Nonces have 64 bits: the lanes are queues as long as no lane has sent more messages than that.\<close>

definition short :: "(lane_id \<Rightarrow> message_payload list) \<Rightarrow> bool" where
  "short sent \<longleftrightarrow> (\<forall>l. length (sent l) < u64_max)"

definition bridge_inv ::
  "('d, 'r, 'x) messages_config \<Rightarrow> ('d, 'r, 'x) messages_config \<Rightarrow> 'd \<Rightarrow> 'd \<Rightarrow> ('d, 'r, 'x) bridge \<Rightarrow> bool" where
  "bridge_inv ch ct d0 e0 b \<longleftrightarrow>
     queue_inv ct e0 (sent_here b) (here b) (here_past b) (there b) (there_past b) \<and>
     queue_inv ch d0 (sent_there b) (there b) (there_past b) (here b) (here_past b)"

lemma log_sent_length: "length (sent l) \<le> length (log_sent label sent l)"
  by (cases label) auto

lemma short_log: "short (log_sent label sent) \<Longrightarrow> short sent"
  unfolding short_def using log_sent_length le_less_trans by blast

lemma queue_source_step:
  assumes inv: "queue_inv cfg d0 sent src sp tgt tp" and kind: "step_kind c (insert tgt tp) src label src'"
    and "short (log_sent label sent)"
  shows "queue_inv cfg d0 (log_sent label sent) src' (insert src sp) tgt tp"
proof -
  have short: "length (sent l) < u64_max" for l using short_log [OF assms(3)] by (simp add: short_def)
  from kind consider (send) lane payload where "label = Some (lane, payload)" "sends lane payload src src'"
    | (confirm) tau lane where "label = None" "tau \<in> insert tgt tp" "confirms lane (delivered lane tau) src src'"
    | (same) "label = None" "same_source src src'"
    unfolding step_kind_def by blast
  then show ?thesis
  proof cases
    case send
    from queue_send [OF inv send(2) short] show ?thesis by (simp add: send(1))
  next
    case confirm
    from queue_confirm [OF inv confirm(2,3)] show ?thesis by (simp add: confirm(1))
  next
    case same
    from queue_same_source [OF inv same(2)] show ?thesis by (simp add: same(1))
  qed
qed

lemma queue_target_step:
  assumes inv: "queue_inv cfg d0 sent src sp tgt tp" and kind: "step_kind cfg (insert src sp) tgt label tgt'"
  shows "queue_inv cfg d0 sent src sp tgt' (insert tgt tp)"
proof -
  from kind consider (same) "same_target tgt tgt'" | (dispatch) sigma lane ms where "sigma \<in> insert src sp" "dispatches cfg lane ms sigma tgt tgt'"
    unfolding step_kind_def by blast
  then show ?thesis using queue_same_target [OF inv] queue_dispatch [OF inv] by cases auto
qed

text \<open>At genesis the lanes are empty.\<close>

definition fresh_lanes :: "'d \<Rightarrow> ('d, 'r, 'x) messages_state \<Rightarrow> bool" where
  "fresh_lanes d st \<longleftrightarrow> (\<forall>l. inbound_lanes st l \<in> {None, Some inbound_lane_data_opened}) \<and>
     (\<forall>l. outbound_lanes st l \<in> {None, Some outbound_lane_data_opened}) \<and> outbound_messages st = (\<lambda>_. None) \<and> mdisp st = d"

lemma genesis_fresh: "fresh_lanes d (messages_genesis g (blank d x))"
proof -
  have "fresh_lanes d (fold (\<lambda>lane st. st\<lparr>inbound_lanes := (inbound_lanes st)(lane \<mapsto> inbound_lane_data_opened),
      outbound_lanes := (outbound_lanes st)(lane \<mapsto> outbound_lane_data_opened)\<rparr>) ls st)"
    if "fresh_lanes d st" for ls and st :: "('a, 'b, 'c) messages_state"
    using that by (induction ls arbitrary: st) (auto simp: fresh_lanes_def)
  then show ?thesis by (simp add: messages_genesis_def Let_def blank_def fresh_lanes_def split: option.split)
qed

lemma fresh_source: "fresh_lanes d st \<Longrightarrow> received l st = 0 \<and> generated l st = 0 \<and> queued l st n = None"
proof -
  assume f: "fresh_lanes d st"
  then have "outbound_lanes st l \<in> {None, Some outbound_lane_data_opened}" "outbound_messages st = (\<lambda>_. None)"
    unfolding fresh_lanes_def by blast+
  then show ?thesis
    by (auto simp: received_def generated_def queued_def outbound_lane_data_opened_def outbound_lane_data_default_def)
qed

lemma fresh_mdisp: "fresh_lanes d st \<Longrightarrow> mdisp st = d"
  by (simp add: fresh_lanes_def)

lemma fresh_target: "fresh_lanes d st \<Longrightarrow> delivered l st = 0 \<and> confirmed l st = 0 \<and> inbound_sound st"
proof -
  assume f: "fresh_lanes d st"
  have "inbound_ok e \<and> last_delivered_nonce e = 0 \<and> last_confirmed_nonce e = 0" if "inbound_lanes st k = Some e" for k e
  proof -
    from f have "inbound_lanes st k \<in> {None, Some inbound_lane_data_opened}" unfolding fresh_lanes_def by blast
    with that show ?thesis
      by (auto simp: inbound_lane_data_opened_def inbound_lane_data_default_def inbound_ok_def last_delivered_nonce_def)
  qed
  then show ?thesis by (auto simp: delivered_def confirmed_def inbound_sound_def split: option.split)
qed

lemma queue_inv_start:
  "queue_inv cfg e0 (\<lambda>_. []) (messages_genesis g (blank d0 x)) {} (messages_genesis h (blank e0 y)) {}"
proof -
  note s = fresh_source [OF genesis_fresh [of d0 g x]] and t = fresh_target [OF genesis_fresh [of e0 h y]]
  have "dispatched_in_order cfg e0 (\<lambda>_. []) (messages_genesis h (blank e0 y))"
    unfolding dispatched_in_order_def
    by (intro exI [of _ "[]"]) (simp add: t sent_messages_def fresh_mdisp [OF genesis_fresh])
  then show ?thesis by (intro queue_invI) (auto simp: source_now_def source_ok_def s t)
qed

lemma bridge_run_inv:
  assumes "bridge_run ch ct d0 e0 b" and "short (sent_here b)" and "short (sent_there b)"
  shows "bridge_inv ch ct d0 e0 b"
  using assms
proof (induction rule: bridge_run.induct)
  case run_start
  then show ?case by (simp add: bridge_inv_def queue_inv_start)
next
  case (run_here b label st)
  from run_here.prems have short: "short (log_sent label (sent_here b))" "short (sent_there b)" by simp_all
  with run_here.IH short_log have inv: "queue_inv ct e0 (sent_here b) (here b) (here_past b) (there b) (there_past b)"
    "queue_inv ch d0 (sent_there b) (there b) (there_past b) (here b) (here_past b)"
    unfolding bridge_inv_def by blast+
  have "received l (here b) < u64_max" for l
    using queue_invD(4) [OF inv(1), of l] short_log [OF short(1)] by (meson le_less_trans le_trans short_def)
  with queue_invD(3) [OF inv(1)] queue_invD(3) [OF inv(2)] run_here.hyps(2)
  have "step_kind ch (insert (there b) (there_past b)) (here b) label st" by (intro chain_step_kind) auto
  from queue_source_step [OF inv(1) this short(1)] queue_target_step [OF inv(2) this] show ?case
    by (simp add: bridge_inv_def)
next
  case (run_there b label st)
  from run_there.prems have short: "short (sent_here b)" "short (log_sent label (sent_there b))" by simp_all
  with run_there.IH short_log have inv: "queue_inv ct e0 (sent_here b) (here b) (here_past b) (there b) (there_past b)"
    "queue_inv ch d0 (sent_there b) (there b) (there_past b) (here b) (here_past b)"
    unfolding bridge_inv_def by blast+
  have "received l (there b) < u64_max" for l
    using queue_invD(4) [OF inv(2), of l] short_log [OF short(2)] by (meson le_less_trans le_trans short_def)
  with queue_invD(3) [OF inv(1)] queue_invD(3) [OF inv(2)] run_there.hyps(2)
  have "step_kind ct (insert (here b) (here_past b)) (there b) label st" by (intro chain_step_kind) auto
  from queue_source_step [OF inv(2) this short(2)] queue_target_step [OF inv(1) this] show ?case
    by (simp add: bridge_inv_def)
qed

lemma bridge_queue:
  assumes "bridge_run ch ct d0 e0 b" and "short (sent_here b)" and "short (sent_there b)"
  shows "queue_inv ct e0 (sent_here b) (here b) (here_past b) (there b) (there_past b)"
    and "queue_inv ch d0 (sent_there b) (there b) (there_past b) (here b) (here_past b)"
  using bridge_run_inv [OF assms] by (simp_all add: bridge_inv_def)

end
