(* ===== verification/Bridge_Progress.thy ===== *)
theory Bridge_Progress
  imports Bridge_Delivery
begin

text \<open>
  What the relayers of a bridge can rely on. The confirmation of messages that were delivered is never refused, and the
  next message of an open lane can be delivered as long as the limits of the inbound lane leave room. The limits on
  unrewarded relayers and unconfirmed messages are never exceeded, and the outbound lanes hold no message that was
  confirmed, which is what the check of the state of the pallet looks for.
\<close>

section \<open>Confirmations are accepted\<close>

lemma relayers_correct_contiguous:
  assumes "contiguous b rs" and "next_nonce b rs \<le> Suc k" and "k \<le> u64_max"
  shows "relayers_correct_loop (Some b) k rs = Inr ()"
  using assms
proof (induction rs arbitrary: b)
  case (Cons e es)
  let ?n = "Suc (dm_end (ur_messages e))"
  show ?case
  proof (cases es)
    case Nil
    with Cons.prems show ?thesis by simp
  next
    case (Cons e' es')
    with Cons.prems have "?n \<le> k" using contiguous_next_gt [of ?n es] by auto
    with Cons.prems Cons.IH [of ?n] show ?thesis by (simp add: checked_add_def)
  qed
qed simp

lemma inbound_relayers_correct:
  assumes "inbound_ok d"
  shows "ensure_unrewarded_relayers_are_correct (last_delivered_nonce d) (relayers d) = Inr ()"
proof (cases "relayers d")
  case (Cons e es)
  with assms have "dm_begin (ur_messages e) = Suc (last_confirmed_nonce d)" by (simp add: inbound_ok_def)
  with relayers_correct_contiguous [of "Suc (last_confirmed_nonce d)" "relayers d" "last_delivered_nonce d"] assms Cons
    last_delivered_next [of d]
  show ?thesis by (simp add: ensure_unrewarded_relayers_are_correct_def inbound_ok_def)
qed (simp add: ensure_unrewarded_relayers_are_correct_def)

lemma confirm_succeeds:
  assumes "inbound_ok data" and "last_confirmed_nonce data \<le> latest_received_nonce d"
    and "last_delivered_nonce data \<le> latest_generated_nonce d" and "latest_received_nonce d < u64_max"
  shows "\<exists>r s'. confirm_delivery (runtime_outbound lane) (total_unrewarded_messages data) (last_delivered_nonce data) (relayers data) (d, st) =
    (Inr r, s')"
proof -
  let ?a = "latest_received_nonce d" and ?k = "last_delivered_nonce data"
  have k: "?k \<le> u64_max" using assms(1) by (simp add: inbound_ok_def)
  have total: "total_messages \<lparr>dm_begin = Suc ?a, dm_end = ?k\<rparr> = ?k - ?a"
    using k assms(4) by (simp add: total_messages_def range_saturating_len_eq)
  have a: "sat_add u64_max ?a (Suc 0) = Suc ?a" using assms(4) by (subst sat_add_exact) auto
  show ?thesis
    using assms(2,3) by (auto simp: confirm_delivery_def em_defs Let_def a total inbound_ok_total [OF assms(1)] inbound_relayers_correct [OF assms(1)] not_less)
qed

lemma confirmation_call_succeeds:
  assumes "verify_messages_delivery_proof cfg proof = Inr (lane, data)" and "outbound_lanes st lane = Some d"
    and "\<not> is_halted (pallet_operating_mode st)" and "inbound_ok data"
    and "last_confirmed_nonce data \<le> latest_received_nonce d" and "last_delivered_nonce data \<le> latest_generated_nonce d"
    and "latest_received_nonce d < u64_max"
  shows "\<exists>w st'. receive_messages_delivery_proof cfg (Signed who) proof (relayers_state_of data) st = (Inr w, st') \<and>
    received lane st' = max (latest_received_nonce d) (last_delivered_nonce data)"
proof -
  let ?conf = "confirm_delivery (runtime_outbound lane) (total_unrewarded_messages data) (last_delivered_nonce data) (relayers data)"
  obtain r d1 st1 where c: "?conf (d, st) = (Inr r, (d1, st1))"
    using confirm_succeeds [OF assms(4-7), of lane st] by auto
  have halt: "ensure_not_halted st = (Inr (), st)" using assms(3) by simp
  have lane: "any_state_outbound_lane lane st = (Inr d, st)" using assms(2) by simp
  have "last_delivered_nonce data \<le> u64_max" using assms(4) by (simp add: inbound_ok_def)
  with ro.confirm_ok [OF c] assms(2,7) have rec: "received lane st1 = max (latest_received_nonce d) (last_delivered_nonce data)"
    by (auto simp: received_def)
  show ?thesis
    using rec
    by (cases r) (simp_all add: receive_messages_delivery_proof_def Let_def em_defs emap_err_def ezoom_def with_lane_def
      relayers_state_is_valid_def relayers_state_of_def reward_confirmed_def received_def ensure_signed_def
      halt lane c assms(1) split: prod.split del: lane_em_iff)
qed

section \<open>The next message can be delivered\<close>

text \<open>A proof that shows the whole state \<open>src\<close> of the other chain.\<close>

definition shows_state :: "proof_checker \<Rightarrow> ('d, 'r, 'x) messages_state \<Rightarrow> bool" where
  "shows_state c src \<longleftrightarrow> pc_read c = (\<lambda>key. Some (stored_item src key)) \<and> pc_no_unused c = (\<lambda>_. True)"

lemma verify_next:
  assumes "verify_storage_proof cfg (bridged_header_hash proof) (storage_proof proof) = Inr c" and "shows_state c src"
    and "nonces_start proof = n" and "nonces_end proof = n" and "0 < n" and "n < u64_max"
    and "queued (mp_lane proof) src n = Some p"
  shows "\<exists>ls. verify_messages_proof cfg proof 1 = Inr (mp_lane proof, \<lparr>lane_state_of = ls,
    lane_messages = [\<lparr>m_key = \<lparr>mk_lane_id = mp_lane proof, mk_nonce = n\<rparr>, m_payload = p\<rparr>]\<rparr>)"
proof -
  have "range_saturating_len n n = 1" using assms(5,6) by (simp add: range_saturating_len_eq)
  then show ?thesis
    using assms by (simp add: verify_messages_proof_def shows_state_def queued_def read_and_decode_mandatory_value_def
      read_and_decode_opt_value_def read_and_decode_value_eq ensure_no_unused_keys_def em_defs emap_err_def ezoom_def Let_def
      split: option.split)
qed

lemma receive_next:
  assumes "inbound_ok d" and "last_delivered_nonce d < u64_max" and "length (relayers d) < mc_max_unrewarded_relayers cfg"
    and "last_delivered_nonce d - last_confirmed_nonce d < mc_max_unconfirmed_messages cfg"
    and "m = \<lparr>m_key = \<lparr>mk_lane_id = lane, mk_nonce = Suc (last_delivered_nonce d)\<rparr>, m_payload = p\<rparr>"
  shows "\<exists>x d' st'. receive_message (runtime_inbound cfg lane) (lane_dispatch cfg) r (mk_nonce (m_key m)) (m_payload m) (d, st) =
      (Dispatched x, (d', st')) \<and> last_delivered_nonce d' = Suc (last_delivered_nonce d) \<and>
      inbound_lanes st' = (inbound_lanes st)(lane \<mapsto> d') \<and> mdisp st' = snd (md_dispatch cfg m (mdisp st))"
proof -
  obtain x e where x: "md_dispatch cfg m (mdisp st) = (x, e)" by fastforce
  have le: "Suc (last_delivered_nonce d) - last_confirmed_nonce d \<le> mc_max_unconfirmed_messages cfg"
    using assms(4) by linarith
  have n: "checked_add u64_max (last_delivered_nonce d) (Suc 0) = Some (Suc (last_delivered_nonce d))"
    using assms(2) by (simp add: checked_add_def)
  let ?rs = "note_delivered r (Suc (last_delivered_nonce d)) (relayers d)"
  have "receive_message (runtime_inbound cfg lane) (lane_dispatch cfg) r (mk_nonce (m_key m)) (m_payload m) (d, st) =
      (Dispatched x, (d\<lparr>relayers := ?rs\<rparr>, st\<lparr>mdisp := e, inbound_lanes := (inbound_lanes st)(lane \<mapsto> d\<lparr>relayers := ?rs\<rparr>)\<rparr>))"
    using x le assms(3) unfolding assms(5) by (simp add: receive_message_def Let_def n lane_dispatch_def)
  moreover have "last_delivered_nonce (d\<lparr>relayers := ?rs\<rparr>) = Suc (last_delivered_nonce d)"
    using note_delivered_ok(2) [of "Suc (last_confirmed_nonce d)" "relayers d" "Suc (last_delivered_nonce d)" r]
      last_delivered_next [of d] last_delivered_next [of "d\<lparr>relayers := ?rs\<rparr>"] assms(1,2) by (simp add: inbound_ok_def)
  ultimately show ?thesis using x by simp
qed

lemma delivery_call_succeeds:
  assumes "verify_messages_proof cfg proof 1 = Inr (lane, \<lparr>lane_state_of = ls, lane_messages = [m]\<rparr>)"
    and "\<not> is_halted (pallet_operating_mode st)" and "inbound_lanes st lane = Some d" and "is_active (il_state d)"
    and "md_is_active cfg lane (mdisp st)" and "inbound_ok d" and "last_delivered_nonce d < u64_max"
    and "length (relayers d) < mc_max_unrewarded_relayers cfg"
    and "last_delivered_nonce d - last_confirmed_nonce d < mc_max_unconfirmed_messages cfg"
    and "m = \<lparr>m_key = \<lparr>mk_lane_id = lane, mk_nonce = Suc (last_delivered_nonce d)\<rparr>, m_payload = p\<rparr>"
    and "\<not> weight_any_gt (md_dispatch_weight cfg m (mdisp st)) w"
  shows "\<exists>a st'. receive_messages_proof cfg (Signed who) r proof 1 w st = (Inr a, st') \<and>
    delivered lane st' = Suc (last_delivered_nonce d) \<and> mdisp st' = snd (md_dispatch cfg m (mdisp st))"
proof -
  let ?su = "case ls of None \<Rightarrow> eret None | Some ls \<Rightarrow> elift (receive_state_update (runtime_inbound cfg lane) ls)"
  have "\<exists>x s1. ?su (d, st) = (Inr x :: messages_error pallet_error + _, s1)"
    by (cases ls) (simp_all add: em_defs elift_def case_prod_beta)
  then obtain x d1 st1 where su: "?su (d, st) = (Inr x :: messages_error pallet_error + _, (d1, st1))" by auto
  have upd: "inbound_ok d1" "last_delivered_nonce d1 = last_delivered_nonce d" "last_confirmed_nonce d \<le> last_confirmed_nonce d1"
    "st1 = st\<lparr>inbound_lanes := (inbound_lanes st)(lane \<mapsto> d1)\<rparr>"
    using state_update_effect [OF su assms(6,3)] by auto
  have len: "length (relayers d1) \<le> length (relayers d)"
  proof (cases ls)
    case (Some l)
    with su have "receive_state_update (runtime_inbound cfg lane) l (d, st) = (x, (d1, st1))" by simp
    from ri.state_update_ok [OF this] assms(6) show ?thesis by simp
  qed (use su in simp)
  have "m = \<lparr>m_key = \<lparr>mk_lane_id = lane, mk_nonce = Suc (last_delivered_nonce d1)\<rparr>, m_payload = p\<rparr>"
    using assms(10) upd(2) by simp
  moreover have "last_delivered_nonce d1 < u64_max" "length (relayers d1) < mc_max_unrewarded_relayers cfg"
    "last_delivered_nonce d1 - last_confirmed_nonce d1 < mc_max_unconfirmed_messages cfg"
    using upd(2,3) len assms(7-9) by linarith+
  ultimately obtain y d2 st2 where one: "receive_message (runtime_inbound cfg lane) (lane_dispatch cfg) r (mk_nonce (m_key m)) (m_payload m) (d1, st1) =
      (Dispatched y, (d2, st2))" and d2: "last_delivered_nonce d2 = Suc (last_delivered_nonce d1)"
    "inbound_lanes st2 = (inbound_lanes st1)(lane \<mapsto> d2)" "mdisp st2 = snd (md_dispatch cfg m (mdisp st1))"
    using receive_next [OF upd(1)] by blast
  have w: "\<not> weight_any_gt (md_dispatch_weight cfg m (mdisp st1)) w" using assms(11) upd(4) by simp
  have "\<exists>res. deliver_loop cfg lane r [m] acc (d1, st1) = (Inr res, (d2, st2))" if "dl_weight_left acc = w" for acc
    using w one that by (simp add: em_defs elift_def Let_def)
  then obtain res where loop: "\<And>acc. dl_weight_left acc = w \<Longrightarrow> deliver_loop cfg lane r [m] acc (d1, st1) = (Inr (res acc), (d2, st2))"
    by metis
  have count: "Suc 0 \<le> mc_max_unconfirmed_messages cfg" using assms(9) by simp
  have lane: "active_inbound_lane cfg lane st = (Inr d, st)" "ensure_not_halted st = (Inr (), st)" using assms(2-5) by simp_all
  have fin: "delivered lane st2 = Suc (last_delivered_nonce d)" "mdisp st2 = snd (md_dispatch cfg m (mdisp st))"
    using d2 upd(2,4) by (simp_all add: delivered_def)
  show ?thesis
    using fin
    by (simp add: receive_messages_proof_def Let_def em_defs emap_err_def ezoom_def with_lane_def ensure_signed_def delivered_def
      count lane loop su assms(1) [unfolded One_nat_def] del: lane_em_iff deliver_loop.simps)
qed

section \<open>Limits and pruning\<close>

definition lanes_within :: "('d, 'r, 'x) messages_config \<Rightarrow> ('d, 'r, 'x) messages_state \<Rightarrow> bool" where
  "lanes_within cfg st \<longleftrightarrow> (\<forall>l d. inbound_lanes st l = Some d \<longrightarrow> lane_within cfg d)"

definition pruned :: "('d, 'r, 'x) messages_state \<Rightarrow> bool" where
  "pruned st \<longleftrightarrow> (\<forall>l d. outbound_lanes st l = Some d \<longrightarrow> oldest_unpruned_nonce d = Suc (latest_received_nonce d)) \<and>
     (\<forall>l n. n \<le> received l st \<longrightarrow> queued l st n = None)"

lemma lane_within_cfg [simp]: "lane_within (cfg\<lparr>mc_finalized_state_root := roots\<rparr>) = lane_within cfg"
  by (simp add: fun_eq_iff lane_within_def)

lemma within_same: "inbound_lanes st' = inbound_lanes st \<Longrightarrow> lanes_within cfg st' = lanes_within cfg st"
  by (simp add: lanes_within_def)

lemma pruned_same: "outbound_lanes st' = outbound_lanes st \<Longrightarrow> outbound_messages st' = outbound_messages st \<Longrightarrow> pruned st' = pruned st"
  by (simp add: pruned_def received_def queued_def)

lemma within_deliver:
  assumes "receive_messages_proof cfg o1 r proof count w st = (Inr a, st')"
    and "authentic cfg past (bridged_header_hash proof) (storage_proof proof)" and "inbound_sound st"
  shows "(lanes_within cfg st \<longrightarrow> lanes_within cfg st') \<and> outbound_lanes st' = outbound_lanes st \<and> outbound_messages st' = outbound_messages st"
proof -
  from assms(1,2) obtain src where "src \<in> past" and
    reads: "\<And>c. verify_storage_proof cfg (bridged_header_hash proof) (storage_proof proof) = Inr c \<Longrightarrow> reads_from c src"
    by (rule delivery_reads) blast
  have ok: "\<And>lane d. inbound_lanes st lane = Some d \<Longrightarrow> inbound_ok d" using assms(3) by (simp add: inbound_sound_def)
  from assms(1) reads ok obtain lane d d' where eff: "inbound_lanes st lane = Some d"
    "inbound_lanes st' = (inbound_lanes st)(lane \<mapsto> d')" "outbound_lanes st' = outbound_lanes st"
    "outbound_messages st' = outbound_messages st" "lane_within cfg d \<longrightarrow> lane_within cfg d'"
    by (rule receive_messages_proof_effect) blast+
  then show ?thesis by (auto simp: lanes_within_def)
qed

lemma pruned_confirm:
  assumes "receive_messages_delivery_proof cfg o1 proof rs st = (Inr a, st')"
    and "authentic cfg past (dp_header_hash proof) (dp_storage_proof proof)"
    and "\<And>tgt. tgt \<in> past \<Longrightarrow> inbound_sound tgt" and "\<And>l. received l st \<le> generated l st \<and> generated l st < u64_max" and "pruned st"
  shows "pruned st'"
proof -
  from assms(1,2) obtain tgt where tgt: "tgt \<in> past" and
    reads: "\<And>c. verify_storage_proof cfg (dp_header_hash proof) (dp_storage_proof proof) = Inr c \<Longrightarrow> reads_from c tgt"
    by (rule confirmation_reads) blast
  from assms(1) reads obtain lane data d r d' st1 where eff: "inbound_lanes tgt lane = Some data" 
    "outbound_lanes st lane = Some d"
    "confirm_delivery (runtime_outbound lane) (total_unrewarded_messages data) (last_delivered_nonce data) (relayers data) (d, st) =
      (Inr r, (d', st1))" "outbound_lanes st' = outbound_lanes st1" "outbound_messages st' = outbound_messages st1"
    by (rule receive_messages_delivery_proof_effect) blast
  let ?k = "last_delivered_nonce data"
  have k: "?k \<le> u64_max" using assms(3) [OF tgt] eff(1) by (auto simp: inbound_sound_def inbound_ok_def)
  have rec: "latest_received_nonce d < u64_max" using assms(4) [of lane] eff(2) by (auto simp: received_def generated_def)
  from ro.confirm_ok [OF eff(3) k] rec consider "st1 = st"
    | "latest_received_nonce d < ?k" "?k \<le> latest_generated_nonce d"
      "d' = d\<lparr>latest_received_nonce := ?k, oldest_unpruned_nonce := sat_add u64_max ?k 1\<rparr>"
      "\<And>n. queued lane st1 n = (if latest_received_nonce d < n \<and> n \<le> ?k then None else queued lane st n)"
      "outbound_lanes st1 lane = Some d'" "out_frame lane (d', st1) = out_frame lane (d, st)"
    by (auto simp: queued_def fun_eq_iff)
  then show ?thesis
  proof cases
    case 1
    with assms(5) eff(4,5) pruned_same [of st' st] show ?thesis by simp
  next
    case 2
    note fr = out_frameD [OF 2(6)]
    have "?k < u64_max" using assms(4) [of lane] 2(2) eff(2) by (simp add: generated_def)
    then have o: "oldest_unpruned_nonce d' = Suc (latest_received_nonce d')" using 2(3) by (simp add: sat_add_def)
    have q: "queued lane st1 n = None" if "n \<le> ?k" for n
      using 2(4) [of n] that assms(5) eff(2) by (cases "latest_received_nonce d < n") (auto simp: pruned_def received_def)
    have "queued l st1 n = None" if "n \<le> received l st1" for l n
    proof (cases "l = lane")
      case True
      with that q 2(3,5) show ?thesis by (simp add: received_def)
    next
      case False
      with that fr(4) [of l] fr(5) assms(5) show ?thesis by (simp add: pruned_def received_def queued_def)
    qed
    moreover have "oldest_unpruned_nonce e = Suc (latest_received_nonce e)" if "outbound_lanes st1 l = Some e" for l e
      using that o 2(5) fr(4) [of l] assms(5) by (cases "l = lane") (auto simp: pruned_def)
    ultimately have "pruned st1" by (simp add: pruned_def)
    with eff(4,5) pruned_same [of st' st1] show ?thesis by simp
  qed
qed

definition tidy :: "('d, 'r, 'x) messages_config \<Rightarrow> ('d, 'r, 'x) messages_state \<Rightarrow> bool" where
  "tidy cfg st \<longleftrightarrow> lanes_within cfg st \<and> pruned st"

lemma tidy_same:
  assumes "tidy cfg st" and "inbound_lanes st' = inbound_lanes st" and "outbound_lanes st' = outbound_lanes st"
    and "outbound_messages st' = outbound_messages st"
  shows "tidy cfg st'"
  using assms within_same [of st' st cfg] pruned_same [of st' st] by (simp add: tidy_def)

lemma tidy_inbound:
  assumes "tidy cfg st" and "lane_within cfg d"
    and "st' = st\<lparr>inbound_lanes := (inbound_lanes st)(lane \<mapsto> d)\<rparr>"
  shows "tidy cfg st'"
  using assms by (auto simp: tidy_def lanes_within_def pruned_def received_def queued_def)

lemma tidy_outbound:
  assumes "tidy cfg st" and "oldest_unpruned_nonce d = Suc (latest_received_nonce d)" and "latest_received_nonce d = received lane st"
    and "st' = st\<lparr>outbound_lanes := (outbound_lanes st)(lane \<mapsto> d)\<rparr>"
  shows "tidy cfg st'"
  using assms by (auto simp: tidy_def lanes_within_def pruned_def received_def queued_def)

lemma tidy_send:
  assumes "validate_message cfg lane payload st = (Inr args, st1)" and "send_message args st1 = (art, st')"
    and "tidy cfg st" and "received lane st \<le> generated lane st \<and> generated lane st < u64_max"
  shows "tidy cfg st'"
proof -
  note s = send_effect [OF assms(1,2)]
  from assms(1,2) obtain d where d: "outbound_lanes st lane = Some d"
    "outbound_lanes st' = (outbound_lanes st)(lane \<mapsto> d\<lparr>latest_generated_nonce := add64 (latest_generated_nonce d) 1\<rparr>)"
    by (auto simp: validate_message_def send_message_def out_send_message_def runtime_outbound_def Let_def data_queued_messages_def)
  have "oldest_unpruned_nonce e = Suc (latest_received_nonce e)" if "outbound_lanes st' l = Some e" for l e
    using that d assms(3) by (auto simp: tidy_def pruned_def split: if_splits)
  moreover have "queued l st' n = None" if "n \<le> received l st'" for l n
    using s that assms(3,4) by (auto simp: sends_def tidy_def pruned_def)
  ultimately show ?thesis using s assms(3) within_same [of st' st cfg] by (simp add: tidy_def pruned_def)
qed

lemma transactional_tidy:
  assumes "transactional m st = (res, st')" and "tidy cfg st" and "\<And>x. m st = (Inr x, st') \<Longrightarrow> tidy cfg st'"
  shows "tidy cfg st'"
  using transactional_cases [OF assms(1)] assms(2,3) by auto

lemma tidy_cfg [simp]: "tidy (cfg\<lparr>mc_finalized_state_root := roots\<rparr>) = tidy cfg"
  by (simp add: fun_eq_iff tidy_def lanes_within_def)

lemma tidy_deliver:
  assumes "transactional (receive_messages_proof cfg o1 r proof count w) st = (res, st')"
    and "authentic cfg past (bridged_header_hash proof) (storage_proof proof)" and "inbound_sound st" and "tidy cfg st"
  shows "tidy cfg st'"
proof (rule transactional_tidy [OF assms(1,4)])
  fix x assume "receive_messages_proof cfg o1 r proof count w st = (Inr x, st')"
  from within_deliver [OF this assms(2,3)] assms(4) pruned_same [of st' st] show "tidy cfg st'" by (simp add: tidy_def)
qed

lemma tidy_confirm:
  assumes "transactional (receive_messages_delivery_proof cfg o1 proof rs) st = (res, st')"
    and "authentic cfg past (dp_header_hash proof) (dp_storage_proof proof)"
    and "\<And>tgt. tgt \<in> past \<Longrightarrow> inbound_sound tgt" and "\<And>l. received l st \<le> generated l st \<and> generated l st < u64_max" and "tidy cfg st"
  shows "tidy cfg st'"
proof (rule transactional_tidy [OF assms(1,5)])
  fix x assume run: "receive_messages_delivery_proof cfg o1 proof rs st = (Inr x, st')"
  have "pruned st'" by (rule pruned_confirm [OF run assms(2,3,4)]) (use assms(5) in \<open>auto simp: tidy_def\<close>)
  moreover have "inbound_lanes st' = inbound_lanes st"
    using confirm_effect [OF run assms(2,3)] assms(4) by (meson le_less_trans)
  ultimately show "tidy cfg st'" using assms(5) within_same [of st' st cfg] by (simp add: tidy_def)
qed

lemma fresh_within: "lane_within cfg (inbound_lane_data_default\<lparr>il_state := Opened\<rparr>)"
  by (simp add: lane_within_def last_delivered_nonce_def inbound_lane_data_default_def)

lemma chain_step_tidy:
  assumes "chain_step cfg past st label st'" and "tidy cfg st" and "inbound_sound st"
    and "\<And>other. other \<in> past \<Longrightarrow> inbound_sound other" and "\<And>l. received l st \<le> generated l st \<and> generated l st < u64_max"
  shows "tidy cfg st'"
  using assms(1)
proof cases
  case (step_send lane payload args st1 art)
  show ?thesis by (rule tidy_send [OF step_send(2,3) assms(2,5)])
next
  case (step_deliver cfg' roots mproof o1 r count w res)
  show ?thesis using tidy_deliver [OF step_deliver(4,3) assms(3)] assms(2) unfolding step_deliver(2) by simp
next
  case (step_confirm cfg' roots dproof o1 rs res)
  show ?thesis using tidy_confirm [OF step_confirm(4,3) assms(4,5)] assms(2) unfolding step_confirm(2) by simp
next
  case (step_owner o1 owner ures)
  show ?thesis
    by (rule transactional_tidy [OF step_owner(2) assms(2)])
      (auto simp: set_owner_def ensure_owner_or_root_def split: raw_origin.splits intro!: tidy_same [OF assms(2)])
next
  case (step_mode o1 mode ures)
  show ?thesis
    by (rule transactional_tidy [OF step_mode(2) assms(2)])
      (auto simp: set_operating_mode_def ensure_owner_or_root_def split: raw_origin.splits intro!: tidy_same [OF assms(2)])
next
  case (step_open_inbound lane ires)
  show ?thesis
    by (rule transactional_tidy [OF step_open_inbound(2) assms(2)])
      (auto simp: create_inbound_lane_def intro: tidy_inbound [OF assms(2) fresh_within])
next
  case (step_open_outbound lane ores)
  show ?thesis
    by (rule transactional_tidy [OF step_open_outbound(2) assms(2)])
      (auto simp: create_outbound_lane_def outbound_lane_data_default_def received_def intro!: tidy_outbound [OF assms(2) _ _ refl])
next
  case (step_inbound_state lane d st1 lst d')
  then have d: "inbound_lanes st lane = Some d" "st' = st\<lparr>inbound_lanes := (inbound_lanes st)(lane \<mapsto> d\<lparr>il_state := lst\<rparr>)\<rparr>"
    by (auto simp: in_set_state_def)
  with assms(2) have "lane_within cfg (d\<lparr>il_state := lst\<rparr>)" by (auto simp: tidy_def lanes_within_def lane_within_def)
  from tidy_inbound [OF assms(2) this d(2)] show ?thesis .
next
  case (step_outbound_state lane e st1 lst e')
  then have e: "outbound_lanes st lane = Some e" "st' = st\<lparr>outbound_lanes := (outbound_lanes st)(lane \<mapsto> e\<lparr>ol_state := lst\<rparr>)\<rparr>"
    by (auto simp: out_set_state_def runtime_outbound_def)
  show ?thesis
    by (rule tidy_outbound [OF assms(2) _ _ e(2)]) (use e(1) assms(2) in \<open>auto simp: received_def tidy_def pruned_def\<close>)
qed

lemma fresh_tidy:
  assumes f: "fresh_lanes d st"
  shows "tidy cfg st"
proof -
  have "lane_within cfg e" if "inbound_lanes st l = Some e" for l e
  proof -
    from f have "inbound_lanes st l \<in> {None, Some inbound_lane_data_opened}" unfolding fresh_lanes_def by blast
    with that fresh_within [of cfg] show ?thesis by (auto simp: inbound_lane_data_opened_def)
  qed
  moreover have "oldest_unpruned_nonce e = Suc (latest_received_nonce e)" if "outbound_lanes st l = Some e" for l e
  proof -
    from f have "outbound_lanes st l \<in> {None, Some outbound_lane_data_opened}" unfolding fresh_lanes_def by blast
    with that show ?thesis by (auto simp: outbound_lane_data_opened_def outbound_lane_data_default_def)
  qed
  ultimately show ?thesis using fresh_source [OF f] by (auto simp: tidy_def lanes_within_def pruned_def)
qed

lemma queue_invD_bounds:
  assumes "queue_inv cfg d0 sent src sp tgt tp" and "short sent"
  shows "received l src \<le> generated l src \<and> generated l src < u64_max"
  using queue_invD(1) [OF assms(1)] queue_invD(2) [OF assms(1), of src] assms(2)
  by (auto simp: source_now_def source_ok_def short_def)

lemma bridge_run_tidy:
  assumes "bridge_run ch ct d0 e0 b" and "short (sent_here b)" and "short (sent_there b)"
  shows "tidy ch (here b) \<and> tidy ct (there b)"
  using assms
proof (induction rule: bridge_run.induct)
  case run_start
  show ?case by (simp add: fresh_tidy [OF genesis_fresh])
next
  case (run_here b label st)
  from run_here.prems have short: "short (sent_here b)" "short (sent_there b)" by (auto intro: short_log)
  note inv = bridge_queue [OF run_here.hyps(1) short]
  have "tidy ch st" using run_here.hyps(2)
    by (rule chain_step_tidy) (use run_here.IH [OF short] queue_invD(3) [OF inv(1)] queue_invD(3) [OF inv(2)] queue_invD_bounds [OF inv(1) short(1)] in auto)
  with run_here.IH [OF short] show ?case by simp
next
  case (run_there b label st)
  from run_there.prems have short: "short (sent_here b)" "short (sent_there b)" by (auto intro: short_log)
  note inv = bridge_queue [OF run_there.hyps(1) short]
  have "tidy ct st" using run_there.hyps(2)
    by (rule chain_step_tidy) (use run_there.IH [OF short] queue_invD(3) [OF inv(2)] queue_invD(3) [OF inv(1)] queue_invD_bounds [OF inv(2) short(2)] in auto)
  with run_there.IH [OF short] show ?case by simp
qed

lemma pruned_try_state: "pruned st \<Longrightarrow> do_try_state_for_outbound_lanes st"
  unfolding do_try_state_for_outbound_lanes_def
proof (intro allI impI)
  fix lane data assume p: "pruned st" and d: "outbound_lanes st lane = Some data"
  then have "oldest_unpruned_nonce data = Suc (received lane st)" by (auto simp: pruned_def received_def)
  then show "unpruned_nonces st lane data = []"
    using p by (auto simp: unpruned_nonces_def pruned_def queued_def filter_empty_conv checked_sub_def simp del: upt_Suc)
qed

end
