(* ===== verification/Bridge_Relayers.thy ===== *)
theory Bridge_Relayers
  imports Bridge_Messages Balances_Calls
begin

text \<open>
  The relayers pallet of the bridges (\<open>src/bridges/modules/relayers/src/lib.rs\<close>): the ledger of rewards that the
  messages pallet fills through the payment adapter (\<open>payment_adapter.rs\<close>), claims of rewards, and the registration
  of relayers with a stake that may be slashed. The stake is kept by an implementation of \<open>StakeAndSlash\<close> and rewards
  are paid by an implementation of \<open>PaymentProcedure\<close>; both are records of operations. \<open>StakeAndSlashNamed\<close>
  (\<open>stake_adapter.rs\<close>) keeps the stake as a named reserve of the balances pallet, and \<open>PayRewardFromAccount\<close>
  (\<open>src/bridges/primitives/relayers/src/lib.rs\<close>) pays by a transfer from the account of a lane.

  What a keeper of stakes owes is the locale \<open>stake_laws\<close>; the named reserves of the balances pallet keep it.
\<close>

section \<open>Types\<close>

datatype rewards_account_owner = ThisChain | BridgedChain

record rewards_account_params =
  rp_owner :: rewards_account_owner
  rp_bridged_chain_id :: nat
  rp_lane_id :: lane_id

definition rewards_account_params_new :: "lane_id \<Rightarrow> nat \<Rightarrow> rewards_account_owner \<Rightarrow> rewards_account_params" where
  "rewards_account_params_new lane_id bridged_chain_id owner =
     \<lparr>rp_owner = owner, rp_bridged_chain_id = bridged_chain_id, rp_lane_id = lane_id\<rparr>"

datatype explicit_or_account_params = Explicit account_id | Params rewards_account_params

text \<open>The account of a lane is a truncated encoding of its parameters: a parameter of the model.\<close>

fun into_account :: "(rewards_account_params \<Rightarrow> account_id) \<Rightarrow> explicit_or_account_params \<Rightarrow> account_id" where
  "into_account rewards_account (Explicit account_id) = account_id"
| "into_account rewards_account (Params params) = rewards_account params"

record registration =
  valid_till :: nat
  stake :: balance

record 's stake_ops =
  so_required_stake :: balance
  so_required_registration_lease :: nat
  so_reserve :: "account_id \<Rightarrow> balance \<Rightarrow> ('s, dispatch_error, unit) em"
  so_unreserve :: "account_id \<Rightarrow> balance \<Rightarrow> 's \<Rightarrow> balance \<times> 's"
  so_repatriate_reserved :: "account_id \<Rightarrow> account_id \<Rightarrow> balance \<Rightarrow> ('s, dispatch_error, balance) em"

type_synonym ('s, 'k) pay_procedure = "account_id \<Rightarrow> 'k \<Rightarrow> balance \<Rightarrow> account_id \<Rightarrow> ('s, dispatch_error, unit) em"

datatype 'k relayers_event =
    RewardRegistered account_id 'k balance
  | RewardPaid account_id 'k balance account_id
  | RegistrationUpdated account_id registration
  | Deregistered account_id
  | SlashedAndDeregistered account_id registration

datatype relayers_error =
    NoRewardForRelayer
  | FailedToPayReward
  | InvalidRegistrationLease
  | CannotReduceRegistrationLease
  | FailedToReserve
  | FailedToUnreserve
  | NotRegistered
  | RegistrationIsStillActive

record ('s, 'k) relayers_pallet =
  relayer_rewards :: "account_id \<Rightarrow> 'k \<Rightarrow> balance option"
  registered_relayers :: "account_id \<Rightarrow> registration option"
  rl_events :: "'k relayers_event list"
  rl_block :: nat
  rl_base :: 's

type_synonym ('s, 'k, 'a) relayers_em = "(('s, 'k) relayers_pallet, relayers_error pallet_error, 'a) em"

definition rl_event :: "'k relayers_event \<Rightarrow> ('s, 'k) relayers_pallet \<Rightarrow> ('s, 'k) relayers_pallet" where
  "rl_event e p = p\<lparr>rl_events := rl_events p @ [e]\<rparr>"

definition put_registration ::
  "account_id \<Rightarrow> registration option \<Rightarrow> ('s, 'k) relayers_pallet \<Rightarrow> ('s, 'k) relayers_pallet" where
  "put_registration relayer r p = p\<lparr>registered_relayers := (registered_relayers p)(relayer := r)\<rparr>"

definition put_reward ::
  "account_id \<Rightarrow> 'k \<Rightarrow> balance option \<Rightarrow> ('s, 'k) relayers_pallet \<Rightarrow> ('s, 'k) relayers_pallet" where
  "put_reward relayer kind r p =
     p\<lparr>relayer_rewards := (relayer_rewards p)(relayer := (relayer_rewards p relayer)(kind := r))\<rparr>"

definition rl_call :: "('e \<Rightarrow> relayers_error pallet_error) \<Rightarrow> ('s, 'e, 'a) em \<Rightarrow> ('s, 'k, 'a) relayers_em" where
  "rl_call h m = ezoom rl_base (\<lambda>t p. p\<lparr>rl_base := t\<rparr>) h m"

section \<open>Rewards\<close>

definition register_relayer_reward :: "'k \<Rightarrow> account_id \<Rightarrow> balance \<Rightarrow> ('s, 'k) relayers_pallet \<Rightarrow> ('s, 'k) relayers_pallet" where
  "register_relayer_reward reward_kind relayer reward_balance p =
     (if reward_balance = 0 then p
      else
        let new_reward = sat_add u128_max (opt_val id (relayer_rewards p relayer reward_kind)) reward_balance
        in rl_event (RewardRegistered relayer reward_kind reward_balance) (put_reward relayer reward_kind (Some new_reward) p))"

definition do_claim_rewards :: "('s, 'k) pay_procedure \<Rightarrow> account_id \<Rightarrow> 'k \<Rightarrow> account_id \<Rightarrow> ('s, 'k, unit) relayers_em" where
  "do_claim_rewards pay relayer reward_kind beneficiary =
     ebind (eget (\<lambda>p. relayer_rewards p relayer reward_kind)) (\<lambda>o1.
     ebind (eoption o1 (PE NoRewardForRelayer)) (\<lambda>reward_balance.
     ebind (rl_call (\<lambda>_. PE FailedToPayReward) (pay relayer reward_kind reward_balance beneficiary)) (\<lambda>_.
     ebind (emod (rl_event (RewardPaid relayer reward_kind reward_balance beneficiary))) (\<lambda>_.
     emod (put_reward relayer reward_kind None)))))"

definition claim_rewards :: "('s, 'k) pay_procedure \<Rightarrow> raw_origin \<Rightarrow> 'k \<Rightarrow> ('s, 'k, unit) relayers_em" where
  "claim_rewards pay o1 reward_kind =
     ebind (emap_err PD (ensure_signed o1)) (\<lambda>relayer. do_claim_rewards pay relayer reward_kind relayer)"

definition claim_rewards_to :: "('s, 'k) pay_procedure \<Rightarrow> raw_origin \<Rightarrow> 'k \<Rightarrow> account_id \<Rightarrow> ('s, 'k, unit) relayers_em" where
  "claim_rewards_to pay o1 reward_kind beneficiary =
     ebind (emap_err PD (ensure_signed o1)) (\<lambda>relayer. do_claim_rewards pay relayer reward_kind beneficiary)"

text \<open>The rewards of all relayers but the one who confirms, whose reward is summed up in \<open>acc\<close>.\<close>

fun register_rewards_loop ::
  "account_id \<Rightarrow> 'k \<Rightarrow> balance \<Rightarrow> (account_id \<times> nonce) list \<Rightarrow> balance \<Rightarrow> ('s, 'k) relayers_pallet
     \<Rightarrow> balance \<times> ('s, 'k) relayers_pallet" where
  "register_rewards_loop confirmation_relayer kind fee [] acc p = (acc, p)"
| "register_rewards_loop confirmation_relayer kind fee ((relayer, messages) # rest) acc p =
     (let relayer_reward = sat_mul u128_max (min u128_max messages) fee in
      if relayer \<noteq> confirmation_relayer
      then register_rewards_loop confirmation_relayer kind fee rest acc (register_relayer_reward kind relayer relayer_reward p)
      else register_rewards_loop confirmation_relayer kind fee rest (sat_add u128_max acc relayer_reward) p)"

definition register_relayers_rewards ::
  "account_id \<Rightarrow> (account_id \<times> nonce) list \<Rightarrow> 'k \<Rightarrow> balance \<Rightarrow> ('s, 'k) relayers_pallet \<Rightarrow> ('s, 'k) relayers_pallet" where
  "register_relayers_rewards confirmation_relayer relayers_rewards lane_id delivery_fee p =
     (let (confirmation_relayer_reward, p) = register_rewards_loop confirmation_relayer lane_id delivery_fee relayers_rewards 0 p
      in register_relayer_reward lane_id confirmation_relayer confirmation_relayer_reward p)"

definition pay_confirmation_reward ::
  "nat \<Rightarrow> balance \<Rightarrow> lane_id \<Rightarrow> unrewarded_relayer list \<Rightarrow> account_id \<Rightarrow> nonce \<times> nonce
     \<Rightarrow> ('s, rewards_account_params) relayers_pallet \<Rightarrow> nonce \<times> ('s, rewards_account_params) relayers_pallet" where
  "pay_confirmation_reward bridged_chain delivery_reward lane_id messages_relayers confirmation_relayer received_range p =
     (let relayers_rewards = calc_relayers_rewards messages_relayers received_range;
          rewarded_relayers = length relayers_rewards
      in (rewarded_relayers,
          register_relayers_rewards confirmation_relayer relayers_rewards
            (rewards_account_params_new lane_id bridged_chain BridgedChain) delivery_reward p))"

section \<open>Registration\<close>

definition do_unreserve :: "'s stake_ops \<Rightarrow> account_id \<Rightarrow> balance \<Rightarrow> ('s, 'k, unit) relayers_em" where
  "do_unreserve so relayer amount =
     ebind (rl_call PD (elift (so_unreserve so relayer amount))) (\<lambda>failed_to_unreserve.
     eensure (failed_to_unreserve = 0) (PE FailedToUnreserve))"

definition register :: "'s stake_ops \<Rightarrow> raw_origin \<Rightarrow> nat \<Rightarrow> ('s, 'k, unit) relayers_em" where
  "register so o1 till =
     ebind (emap_err PD (ensure_signed o1)) (\<lambda>relayer.
     ebind (eget rl_block) (\<lambda>now.
     ebind (eensure (till - now > so_required_registration_lease so) (PE InvalidRegistrationLease)) (\<lambda>_.
     ebind (eget (\<lambda>p. registered_relayers p relayer)) (\<lambda>maybe_registration.
     let registration = (case maybe_registration of None \<Rightarrow> \<lparr>valid_till = till, stake = 0\<rparr> | Some r \<Rightarrow> r) in
     ebind (eensure (till \<ge> valid_till registration) (PE CannotReduceRegistrationLease)) (\<lambda>_.
     let registration = registration\<lparr>valid_till := till\<rparr>;
         required_stake = so_required_stake so in
     ebind (case checked_sub (stake registration) required_stake of
              Some to_unreserve \<Rightarrow> do_unreserve so relayer to_unreserve
            | None \<Rightarrow>
                (case checked_sub required_stake (stake registration) of
                   Some to_reserve \<Rightarrow> rl_call (\<lambda>_. PE FailedToReserve) (so_reserve so relayer to_reserve)
                 | None \<Rightarrow> eret ())) (\<lambda>_.
     let registration = registration\<lparr>stake := required_stake\<rparr> in
     ebind (emod (rl_event (RegistrationUpdated relayer registration))) (\<lambda>_.
     emod (put_registration relayer (Some registration)))))))))"

definition deregister :: "'s stake_ops \<Rightarrow> raw_origin \<Rightarrow> ('s, 'k, unit) relayers_em" where
  "deregister so o1 =
     ebind (emap_err PD (ensure_signed o1)) (\<lambda>relayer.
     ebind (eget (\<lambda>p. registered_relayers p relayer)) (\<lambda>maybe_registration.
     ebind (eoption maybe_registration (PE NotRegistered)) (\<lambda>registration.
     ebind (eget rl_block) (\<lambda>now.
     ebind (eensure (valid_till registration < now) (PE RegistrationIsStillActive)) (\<lambda>_.
     ebind (if stake registration \<noteq> 0 then do_unreserve so relayer (stake registration) else eret ()) (\<lambda>_.
     ebind (emod (rl_event (Deregistered relayer))) (\<lambda>_.
     emod (put_registration relayer None))))))))"

definition is_registration_active :: "'s stake_ops \<Rightarrow> account_id \<Rightarrow> ('s, 'k) relayers_pallet \<Rightarrow> bool" where
  "is_registration_active so relayer p =
     (case registered_relayers p relayer of
        None \<Rightarrow> False
      | Some registration \<Rightarrow>
          if stake registration < so_required_stake so then False
          else
            let remaining_lease = valid_till registration - rl_block p
            in if remaining_lease \<le> so_required_registration_lease so then False else True)"

definition slash_and_deregister ::
  "'s stake_ops \<Rightarrow> account_id \<Rightarrow> account_id \<Rightarrow> ('s, 'k) relayers_pallet \<Rightarrow> ('s, 'k) relayers_pallet" where
  "slash_and_deregister so relayer slash_destination p =
     (case registered_relayers p relayer of
        None \<Rightarrow> p
      | Some registration \<Rightarrow>
          let p = put_registration relayer None p;
              (res, base) = so_repatriate_reserved so relayer slash_destination (stake registration) (rl_base p)
          in rl_event (SlashedAndDeregistered relayer registration) (p\<lparr>rl_base := base\<rparr>))"

section \<open>The implementations of the traits\<close>

definition stake_and_slash_named :: "bal_config \<Rightarrow> reserve_id \<Rightarrow> balance \<Rightarrow> nat \<Rightarrow> bal_state stake_ops" where
  "stake_and_slash_named c reserve_id required lease =
     \<lparr>so_required_stake = required,
      so_required_registration_lease = lease,
      so_reserve = (\<lambda>relayer amount. reserve_named c reserve_id relayer amount),
      so_unreserve = (\<lambda>relayer amount. unreserve_named c reserve_id relayer amount),
      so_repatriate_reserved = (\<lambda>relayer beneficiary amount.
        repatriate_reserved_named c reserve_id relayer beneficiary amount BS_Free)\<rparr>"

definition pay_reward_from_account ::
  "bal_config \<Rightarrow> (rewards_account_params \<Rightarrow> account_id) \<Rightarrow> (bal_state, rewards_account_params) pay_procedure" where
  "pay_reward_from_account c rewards_account relayer reward_kind reward beneficiary =
     ebind (transfer (balances_ops c) (rewards_account reward_kind) beneficiary reward Expendable) (\<lambda>_. eret ())"

section \<open>Repatriation to the free balance fails only before it changes anything\<close>

lemma transfer_reserved_closure_err:
  assumes inv: "bal_inv c s" and run: "transfer_reserved_closure c sl v BS_Free (account b s) new s = (Inl e, s')"
  shows "s' = s"
proof (cases new)
  case True
  with run show ?thesis by (simp add: transfer_reserved_closure_def ebind_Inl_iff)
next
  case False
  note I = bal_inv_D [OF inv]
  let ?to = "account b s"
  let ?g = "\<lambda>from_account (_ :: bool).
       ebind (case BS_Free of
                BS_Free \<Rightarrow>
                  ebind (eoption (checked_add u128_max (free ?to) v) (DE_Arithmetic AE_Overflow)) (\<lambda>x. eret (?to\<lparr>free := x\<rparr>))
              | BS_Reserved \<Rightarrow>
                  ebind (eoption (checked_add u128_max (reserved ?to) v) (DE_Arithmetic AE_Overflow)) (\<lambda>x. eret (?to\<lparr>reserved := x\<rparr>)))
         (\<lambda>to_account'. eret (from_account\<lparr>reserved := reserved from_account - v\<rparr>, to_account')) :: (account_data \<times> account_data) bal_em"
  have tm: "try_mutate_account c sl False ?g s = (Inl e, s')"
    using run False by (auto simp: transfer_reserved_closure_def ebind_Inl_iff split: prod.splits)
  show ?thesis
  proof (cases "free ?to + v \<le> u128_max")
    case True
    let ?a = "(account sl s)\<lparr>reserved := reserved (account sl s) - v\<rparr>"
    have "\<exists>s1. try_mutate_account c sl False ?g s = (Inr (?to\<lparr>free := free ?to + v\<rparr>, dust_of c ?a), s1)"
      by (rule try_mutate_account_total [where f = ?g, OF I(1,2) _ I(2) refl]) (use True in \<open>auto simp: checked_add_def em_defs\<close>)
    with tm show ?thesis by auto
  next
    case False
    then have "?g (account sl s) (account sl s = account_data_default) s = (Inl (DE_Arithmetic AE_Overflow), s)"
      by (simp add: checked_add_def em_defs)
    from try_mutate_account_closure_err [where f = ?g, OF I(1,2) this] tm show ?thesis by simp
  qed
qed

lemma repatriate_free_err:
  assumes sd: "sound c s" and ne: "sl \<noteq> b" and run: "repatriate_reserved c sl b value BS_Free s = (Inl e, s')"
  shows "s' = s"
proof -
  have inv: "bal_inv c s" using sd by (simp add: sound_def)
  note I = bal_inv_D [OF inv]
  define v where "v = min value (reducible_total_balance_on_hold sl Polite s)"
  let ?f = "transfer_reserved_closure c sl v BS_Free"
  have tm: "try_mutate_account c b False ?f s = (Inl e, s')"
    using run ne by (auto simp: repatriate_reserved_def do_transfer_reserved_def Let_def v_def ebind_Inl_iff split: if_splits prod.splits)
  obtain y s1 where f: "?f (account b s) (account b s = account_data_default) s = (y, s1)" by (rule prod.exhaust)
  show ?thesis
  proof (cases y)
    case (Inl e1)
    from try_mutate_account_closure_err [where f = ?f, OF I(1,2) f [unfolded Inl]] tm
      transfer_reserved_closure_err [OF inv f [unfolded Inl]] show ?thesis by simp
  next
    case (Inr z)
    then have alive: "account b s \<noteq> account_data_default" using f by (auto simp: transfer_reserved_closure_def)
    obtain a du where z: "z = (a, du)" by (rule prod.exhaust)
    note C = transfer_reserved_closure_ok [OF inv alive ne f [unfolded Inr z]]
    have "\<exists>s2. try_mutate_account c b False ?f s = (Inr (du, dust_of c a), s2)"
      by (rule try_mutate_account_total [where f = ?f, OF I(1,2) f [unfolded Inr z]])
        (use C ne in \<open>auto simp: mutated_def credited_def\<close>)
    with tm show ?thesis by auto
  qed
qed

section \<open>What a keeper of stakes owes\<close>

locale stake_laws =
  fixes so :: "'s stake_ops" and ok :: "'s \<Rightarrow> bool" and held :: "'s \<Rightarrow> account_id \<Rightarrow> balance"
  assumes reserve_law: "ok s \<Longrightarrow> so_reserve so r a s = (Inr u, s') \<Longrightarrow> ok s' \<and> held s' = (held s)(r := held s r + a)"
    and unreserve_law: "ok s \<Longrightarrow> so_unreserve so r a s = (rest, s') \<Longrightarrow>
      ok s' \<and> rest \<le> a \<and> held s' = (held s)(r := held s r - (a - rest)) \<and> a - rest \<le> held s r"
    and repatriate_law: "ok s \<Longrightarrow> so_repatriate_reserved so r b a s = (Inr rest, s') \<Longrightarrow>
      ok s' \<and> rest \<le> a \<and> held s' = (held s)(r := held s r - (a - rest))"
    and repatriate_error: "ok s \<Longrightarrow> so_repatriate_reserved so r b a s = (Inl e, s') \<Longrightarrow> s' = s"

locale staked_payments = stake_laws so ok held for so :: "'s stake_ops" and ok held +
  fixes pay :: "('s, 'k) pay_procedure"
  assumes pay_law: "ok s \<Longrightarrow> pay r k a b s = (Inr u, s') \<Longrightarrow> ok s' \<and> held s' = held s"

text \<open>The stake of every registration is held.\<close>

definition staked :: "('s \<Rightarrow> bool) \<Rightarrow> ('s \<Rightarrow> account_id \<Rightarrow> balance) \<Rightarrow> ('s, 'k) relayers_pallet \<Rightarrow> bool" where
  "staked ok held p \<longleftrightarrow> ok (rl_base p) \<and> (\<forall>r reg. registered_relayers p r = Some reg \<longrightarrow> stake reg \<le> held (rl_base p) r)"

lemma rl_sel [simp]:
  "rl_base (rl_event e p) = rl_base p" "registered_relayers (rl_event e p) = registered_relayers p"
  "relayer_rewards (rl_event e p) = relayer_rewards p" "rl_block (rl_event e p) = rl_block p"
  "rl_base (put_reward r k v p) = rl_base p" "registered_relayers (put_reward r k v p) = registered_relayers p"
  "rl_base (put_registration r w p) = rl_base p" "relayer_rewards (put_registration r w p) = relayer_rewards p"
  "registered_relayers (put_registration r w p) = (registered_relayers p)(r := w)" "rl_block (put_registration r w p) = rl_block p"
  "rl_block (put_reward r k v p) = rl_block p"
  by (simp_all add: rl_event_def put_reward_def put_registration_def)

lemma rl_call_iff [simp]: "rl_call h m p = (Inr x, p') \<longleftrightarrow> (\<exists>t. m (rl_base p) = (Inr x, t) \<and> p' = p\<lparr>rl_base := t\<rparr>)"
  by (simp add: rl_call_def)

context stake_laws
begin

lemma unreserve_all:
  assumes "ok s" and "so_unreserve so r a s = (0, s')"
  shows "ok s' \<and> held s' = (held s)(r := held s r - a) \<and> a \<le> held s r"
  using unreserve_law [OF assms] by simp

lemma register_staked:
  assumes "staked ok held p" and "register so o1 till p = (Inr u, p')"
  shows "staked ok held p'"
proof -
  from assms(2) obtain r where o1: "o1 = Signed r" by (auto simp: register_def)
  define reg where "reg = (case registered_relayers p r of None \<Rightarrow> \<lparr>valid_till = till, stake = 0\<rparr> | Some r \<Rightarrow> r)"
  have "\<exists>t. (if so_required_stake so \<le> stake reg then so_unreserve so r (stake reg - so_required_stake so) (rl_base p) = (0, t)
       else so_reserve so r (so_required_stake so - stake reg) (rl_base p) = (Inr (), t)) \<and>
      registered_relayers p' = (registered_relayers p)(r \<mapsto> \<lparr>valid_till = till, stake = so_required_stake so\<rparr>) \<and> rl_base p' = t"
    using assms(2) unfolding o1 register_def reg_def [symmetric]
    by (cases "so_required_stake so \<le> stake reg") (auto simp: reg_def [symmetric] Let_def do_unreserve_def checked_sub_def)
  then obtain t where t: "if so_required_stake so \<le> stake reg then so_unreserve so r (stake reg - so_required_stake so) (rl_base p) = (0, t)
       else so_reserve so r (so_required_stake so - stake reg) (rl_base p) = (Inr (), t)"
    and p': "registered_relayers p' = (registered_relayers p)(r \<mapsto> \<lparr>valid_till = till, stake = so_required_stake so\<rparr>)" "rl_base p' = t"
    by blast
  have ok: "ok (rl_base p)" and le: "stake reg \<le> held (rl_base p) r"
    using assms(1) by (auto simp: staked_def reg_def split: option.splits)
  have "ok t \<and> so_required_stake so \<le> held t r \<and> (\<forall>x. x \<noteq> r \<longrightarrow> held t x = held (rl_base p) x)"
  proof (cases "so_required_stake so \<le> stake reg")
    case True
    with t have "so_unreserve so r (stake reg - so_required_stake so) (rl_base p) = (0, t)" by simp
    from unreserve_all [OF ok this] le True show ?thesis by auto
  next
    case False
    with t have "so_reserve so r (so_required_stake so - stake reg) (rl_base p) = (Inr (), t)" by simp
    from reserve_law [OF ok this] le False show ?thesis by auto
  qed
  with assms(1) show ?thesis by (auto simp: staked_def p')
qed

lemma deregister_staked:
  assumes "staked ok held p" and "deregister so o1 p = (Inr u, p')"
  shows "staked ok held p'"
proof -
  from assms(2) obtain r reg where o1: "o1 = Signed r" and reg: "registered_relayers p r = Some reg" by (auto simp: deregister_def)
  have "\<exists>t. (stake reg = 0 \<and> t = rl_base p \<or> so_unreserve so r (stake reg) (rl_base p) = (0, t)) \<and>
      registered_relayers p' = (registered_relayers p)(r := None) \<and> rl_base p' = t"
    using assms(2) reg unfolding o1 by (cases "stake reg = 0") (auto simp: deregister_def do_unreserve_def)
  then obtain t where t: "stake reg = 0 \<and> t = rl_base p \<or> so_unreserve so r (stake reg) (rl_base p) = (0, t)"
    and p': "registered_relayers p' = (registered_relayers p)(r := None)" "rl_base p' = t" by blast
  have ok: "ok (rl_base p)" using assms(1) by (simp add: staked_def)
  from t have "ok t \<and> (\<forall>x. x \<noteq> r \<longrightarrow> held t x = held (rl_base p) x)"
  proof
    assume "so_unreserve so r (stake reg) (rl_base p) = (0, t)"
    from unreserve_all [OF ok this] show ?thesis by auto
  qed (use ok in auto)
  with assms(1) show ?thesis by (auto simp: staked_def p')
qed

lemma slash_staked:
  assumes "staked ok held p"
  shows "staked ok held (slash_and_deregister so r b p)"
proof (cases "registered_relayers p r")
  case None
  with assms show ?thesis by (simp add: slash_and_deregister_def)
next
  case (Some reg)
  obtain res t where t: "so_repatriate_reserved so r b (stake reg) (rl_base p) = (res, t)" by (rule prod.exhaust)
  have ok: "ok (rl_base p)" using assms by (simp add: staked_def)
  have "ok t \<and> (\<forall>x. x \<noteq> r \<longrightarrow> held t x = held (rl_base p) x)"
    using repatriate_law [OF ok] repatriate_error [OF ok] t ok by (cases res) fastforce+
  with assms show ?thesis by (auto simp: slash_and_deregister_def Some t staked_def Let_def)
qed

lemma reward_staked: "staked ok held (register_relayer_reward k r n p) = staked ok held p"
  by (simp add: staked_def register_relayer_reward_def Let_def)

end

context staked_payments
begin

lemma claim_staked:
  assumes "staked ok held p" and "do_claim_rewards pay r k b p = (Inr u, p')"
  shows "staked ok held p'"
proof -
  from assms(2) obtain n t where "pay r k n b (rl_base p) = (Inr (), t)" "registered_relayers p' = registered_relayers p" "rl_base p' = t"
    by (auto simp: do_claim_rewards_def)
  with pay_law [of "rl_base p" r k n b "()" t] assms(1) show ?thesis by (simp add: staked_def)
qed

end

section \<open>Named reserves of the balances pallet keep stakes\<close>

lemma named_lists: "same_lists s s' \<Longrightarrow> reserved_balance_named i r s' = reserved_balance_named i r s"
  by (simp add: reserved_balance_named_def same_lists_def cong: sum.case_cong)

lemma unreserve_named_held:
  assumes "sound c s" and "unreserve_named c i r a s = (rest, s')"
  shows "sound c s' \<and> rest \<le> a \<and> (\<lambda>x. reserved_balance_named i x s') =
      (\<lambda>x. reserved_balance_named i x s)(r := reserved_balance_named i r s - (a - rest)) \<and> a - rest \<le> reserved_balance_named i r s"
proof -
  define v where "v = min (reserved (account r s)) (min (reserved_balance_named i r s) a)"
  note U = unreserve_named_ok [OF assms, folded v_def]
  have v: "v \<le> a" "v \<le> reserved_balance_named i r s" by (simp_all add: v_def)
  with U(1) have "a - rest = v" by simp
  with U v assms(1) show ?thesis by (auto simp: sound_gap named_set_def fun_eq_iff)
qed

lemma repatriate_named_held:
  assumes "sound c s" and "repatriate_reserved_named c i r b a BS_Free s = (Inr rest, s')"
  shows "sound c s' \<and> rest \<le> a \<and> (\<lambda>x. reserved_balance_named i x s') =
      (\<lambda>x. reserved_balance_named i x s)(r := reserved_balance_named i r s - (a - rest))"
proof (cases "r = b")
  case True
  with assms(2) consider "a = 0" "rest = 0" "s' = s" | "unreserve_named c i r a s = (rest, s')"
    by (auto simp: repatriate_reserved_named_def split: if_splits)
  then show ?thesis using unreserve_named_held [OF assms(1), of i r a rest s'] assms(1) by cases auto
next
  case False
  obtain v where v: "rest = a - v" "v \<le> a" "v \<le> reserved_balance_named i r s" "bal_inv c s'" "issuance_gap s' = issuance_gap s"
    "\<forall>j x. reserved_balance_named j x s' = (if j = i \<and> x = r then reserved_balance_named i r s - v
        else if j = i \<and> x = b \<and> BS_Free = BS_Reserved then reserved_balance_named i b s + v else reserved_balance_named j x s)"
    by (rule repatriate_reserved_named_ok [OF assms(1) False _ assms(2)]) auto
  then have "a - rest = v" by simp
  with v assms(1) show ?thesis by (auto simp: sound_gap fun_eq_iff)
qed

lemma repatriate_named_err:
  assumes "sound c s" and "repatriate_reserved_named c i r b a BS_Free s = (Inl e, s')"
  shows "s' = s"
proof (cases "r = b")
  case False
  with assms(2) obtain v where "repatriate_reserved c r b v BS_Free s = (Inl e, s')"
    by (auto simp: repatriate_reserved_named_def ebind_Inl_iff Let_def split: if_splits sum.splits)
  from repatriate_free_err [OF assms(1) False this] show ?thesis .
qed (use assms(2) in \<open>auto simp: repatriate_reserved_named_def split: if_splits\<close>)

interpretation sn: staked_payments "stake_and_slash_named c i required lease" "sound c" "\<lambda>s r. reserved_balance_named i r s"
    "pay_reward_from_account c rewards_account" for c i required lease rewards_account
proof (unfold_locales, goal_cases)
  case (1 s r a u s')
  then show ?case
  proof (cases "a = 0")
    case True
    with 1 show ?thesis by (auto simp: stake_and_slash_named_def reserve_named_def)
  next
    case False
    have run: "reserve_named c i r a s = (Inr u, s')" using 1(2) by (simp add: stake_and_slash_named_def)
    have "bal_inv c s" using 1(1) by (simp add: sound_def)
    from reserve_named_ok [OF this False run] 1(1) show ?thesis by (auto simp: sound_gap named_set_def fun_eq_iff)
  qed
next
  case (2 s r a rest s')
  with unreserve_named_held [of c s i r a rest s'] show ?case by (simp add: stake_and_slash_named_def)
next
  case (3 s r b a rest s')
  with repatriate_named_held [of c s i r b a rest s'] show ?case by (simp add: stake_and_slash_named_def)
next
  case (4 s r b a e s')
  with repatriate_named_err [of c s i r b a e s'] show ?case by (simp add: stake_and_slash_named_def)
next
  case (5 s r k a b u s')
  then obtain n where t: "transfer (balances_ops c) (rewards_account k) b a Expendable s = (Inr n, s')"
    by (auto simp: pay_reward_from_account_def)
  from transfer_sound(1) [OF 5(1) t] named_lists [OF transfer_lists [OF 5(1) t]] show ?case by simp
qed

section \<open>The ledger of rewards\<close>

definition ledger :: "('s, 'k) relayers_pallet \<Rightarrow> account_id \<Rightarrow> 'k \<Rightarrow> balance" where
  "ledger p r k = opt_val id (relayer_rewards p r k)"

lemma ledger_event [simp]: "ledger (rl_event e p) = ledger p"
  by (simp add: ledger_def fun_eq_iff)

lemma register_reward_ledger:
  assumes "ledger p r k + n \<le> u128_max"
  shows "ledger (register_relayer_reward k r n p) q j = ledger p q j + (if q = r \<and> j = k then n else 0)"
  using assms by (auto simp: register_relayer_reward_def Let_def ledger_def put_reward_def rl_event_def)

lemma register_reward_frame [simp]:
  "registered_relayers (register_relayer_reward k r n p) = registered_relayers p"
  "rl_base (register_relayer_reward k r n p) = rl_base p" "rl_block (register_relayer_reward k r n p) = rl_block p"
  by (simp_all add: register_relayer_reward_def Let_def)

lemma reward_of_Cons: "reward_of ((r, m) # rs) q = (if q = r then m else reward_of rs q)"
  by (simp add: reward_of_def)

lemma reward_of_absent: "r \<notin> fst ` set rs \<Longrightarrow> reward_of rs r = 0"
  by (simp add: reward_of_def map_of_eq_None_iff [symmetric])

lemma register_rewards_loop_ok:
  assumes "distinct (map fst rs)" and "\<And>r. ledger p r k + reward_of rs r * fee \<le> u128_max"
    and "acc + reward_of rs conf * fee \<le> u128_max" and "\<forall>x \<in> set rs. snd x \<le> u128_max"
  shows "fst (register_rewards_loop conf k fee rs acc p) = acc + reward_of rs conf * fee \<and>
    (\<forall>r j. ledger (snd (register_rewards_loop conf k fee rs acc p)) r j =
      ledger p r j + (if r \<noteq> conf \<and> j = k then reward_of rs r * fee else 0))"
  using assms
proof (induction rs arbitrary: acc p)
  case Nil
  then show ?case by (simp add: reward_of_def)
next
  case (Cons e rs)
  obtain r m where e: "e = (r, m)" by (rule prod.exhaust)
  have m: "m \<le> u128_max" using Cons.prems(4) e by simp
  have r: "reward_of rs r = 0" using Cons.prems(1) e by (intro reward_of_absent) simp
  have mf: "ledger p r k + m * fee \<le> u128_max" using Cons.prems(2) [of r] e by (simp add: reward_of_Cons)
  then have "m * fee \<le> u128_max" by simp
  then have rew: "min u128_max m = m" "sat_mul u128_max m fee = m * fee" using m by (simp_all add: sat_mul_def)
  show ?case
  proof (cases "r = conf")
    case True
    have acc: "acc + m * fee \<le> u128_max" using Cons.prems(3) e True by (simp add: reward_of_Cons)
    have "\<And>q. ledger p q k + reward_of rs q * fee \<le> u128_max"
      using Cons.prems(2) e r by (metis reward_of_Cons add_leD1 add_0_right mult_0)
    with Cons.IH [of p "acc + m * fee"] Cons.prems(1,4) e acc r True show ?thesis
      by (auto simp: rew Let_def reward_of_Cons)
  next
    case False
    let ?p = "register_relayer_reward k r (m * fee) p"
    note L = register_reward_ledger [OF mf]
    have "\<And>q. ledger ?p q k + reward_of rs q * fee \<le> u128_max"
      using Cons.prems(2) e r mf by (simp add: L) (metis reward_of_Cons)
    with Cons.IH [of ?p acc] Cons.prems(1,3,4) e r False show ?thesis
      by (auto simp: rew Let_def reward_of_Cons L)
  qed
qed

lemma register_relayers_rewards_ok:
  assumes "distinct (map fst rs)" and "\<And>r. ledger p r k + reward_of rs r * fee \<le> u128_max"
    and "\<forall>x \<in> set rs. snd x \<le> u128_max"
  shows "ledger (register_relayers_rewards conf rs k fee p) r j = ledger p r j + (if j = k then reward_of rs r * fee else 0)"
proof -
  obtain a p1 where run: "register_rewards_loop conf k fee rs 0 p = (a, p1)" by (rule prod.exhaust)
  have "0 + reward_of rs conf * fee \<le> u128_max" using assms(2) [of conf] by simp
  from register_rewards_loop_ok [OF assms(1,2) this assms(3)] run
  have a: "a = reward_of rs conf * fee"
    and p1: "\<And>r j. ledger p1 r j = ledger p r j + (if r \<noteq> conf \<and> j = k then reward_of rs r * fee else 0)" by auto
  have "ledger p1 conf k + a \<le> u128_max" using assms(2) [of conf] by (simp add: a p1)
  from register_reward_ledger [OF this] show ?thesis by (simp add: register_relayers_rewards_def run p1 a)
qed

section \<open>Runs of the pallet over the balances pallet\<close>

text \<open>
  Calls of the two pallets, slashes and rewards, which other parts of the runtime ask for, and blocks. Calls are rolled
  back where they fail; a slash is not.
\<close>

inductive relayers_run ::
  "bal_config \<Rightarrow> reserve_id \<Rightarrow> balance \<Rightarrow> nat \<Rightarrow> (rewards_account_params \<Rightarrow> account_id) \<Rightarrow> ('l \<Rightarrow> account_id option)
     \<Rightarrow> (bal_state, rewards_account_params) relayers_pallet \<Rightarrow> bool"
  for c i required lease rewards_account lk where
  rr_start: "sound c (rl_base p) \<Longrightarrow> registered_relayers p = Map.empty \<Longrightarrow> relayers_run c i required lease rewards_account lk p"
| rr_register: "relayers_run c i required lease rewards_account lk p \<Longrightarrow>
    transactional (register (stake_and_slash_named c i required lease) o1 till) p = (res, p') \<Longrightarrow>
    relayers_run c i required lease rewards_account lk p'"
| rr_deregister: "relayers_run c i required lease rewards_account lk p \<Longrightarrow>
    transactional (deregister (stake_and_slash_named c i required lease) o1) p = (res, p') \<Longrightarrow>
    relayers_run c i required lease rewards_account lk p'"
| rr_claim: "relayers_run c i required lease rewards_account lk p \<Longrightarrow>
    transactional (claim_rewards (pay_reward_from_account c rewards_account) o1 kind) p = (res, p') \<Longrightarrow>
    relayers_run c i required lease rewards_account lk p'"
| rr_claim_to: "relayers_run c i required lease rewards_account lk p \<Longrightarrow>
    transactional (claim_rewards_to (pay_reward_from_account c rewards_account) o1 kind b) p = (res, p') \<Longrightarrow>
    relayers_run c i required lease rewards_account lk p'"
| rr_slash: "relayers_run c i required lease rewards_account lk p \<Longrightarrow>
    relayers_run c i required lease rewards_account lk
      (slash_and_deregister (stake_and_slash_named c i required lease) r (into_account rewards_account dest) p)"
| rr_reward: "relayers_run c i required lease rewards_account lk p \<Longrightarrow>
    relayers_run c i required lease rewards_account lk
      (snd (pay_confirmation_reward chain fee lane rs confirmation_relayer received p))"
| rr_block: "relayers_run c i required lease rewards_account lk p \<Longrightarrow> rl_block p \<le> n \<Longrightarrow>
    relayers_run c i required lease rewards_account lk (p\<lparr>rl_block := n\<rparr>)"
| rr_balances: "relayers_run c i required lease rewards_account lk p \<Longrightarrow> call_ok lk (rl_base p) call \<Longrightarrow>
    dispatch c lk o1 call (rl_base p) = (bres, t) \<Longrightarrow> relayers_run c i required lease rewards_account lk (p\<lparr>rl_base := t\<rparr>)"

lemma transactional_inv: "transactional m p = (res, p') \<Longrightarrow> P p \<Longrightarrow> (\<And>x. m p = (Inr x, p') \<Longrightarrow> P p') \<Longrightarrow> P p'"
  by (auto simp: transactional_def split: prod.splits sum.splits)

lemma rewards_loop_frame:
  "registered_relayers (snd (register_rewards_loop conf k fee rs acc p)) = registered_relayers p \<and>
   rl_base (snd (register_rewards_loop conf k fee rs acc p)) = rl_base p"
  by (induction conf k fee rs acc p rule: register_rewards_loop.induct) (auto simp: Let_def)

lemma pay_confirmation_frame [simp]:
  "registered_relayers (snd (pay_confirmation_reward chain fee lane rs conf received p)) = registered_relayers p"
  "rl_base (snd (pay_confirmation_reward chain fee lane rs conf received p)) = rl_base p"
  by (simp_all add: pay_confirmation_reward_def register_relayers_rewards_def Let_def case_prod_beta rewards_loop_frame)

lemma relayers_run_staked:
  assumes "relayers_run c i required lease rewards_account lk p"
  shows "staked (sound c) (\<lambda>s r. reserved_balance_named i r s) p"
  using assms
proof (induction rule: relayers_run.induct)
  case (rr_start p)
  then show ?case by (simp add: staked_def)
next
  case (rr_register p o1 till res p')
  from rr_register.hyps(2) rr_register.IH show ?case by (rule transactional_inv) (rule sn.register_staked [OF rr_register.IH])
next
  case (rr_deregister p o1 res p')
  from rr_deregister.hyps(2) rr_deregister.IH show ?case by (rule transactional_inv) (rule sn.deregister_staked [OF rr_deregister.IH])
next
  case (rr_claim p o1 kind res p')
  from rr_claim.hyps(2) rr_claim.IH show ?case
    by (rule transactional_inv) (auto simp: claim_rewards_def intro: sn.claim_staked [OF rr_claim.IH])
next
  case (rr_claim_to p o1 kind b res p')
  from rr_claim_to.hyps(2) rr_claim_to.IH show ?case
    by (rule transactional_inv) (auto simp: claim_rewards_to_def intro: sn.claim_staked [OF rr_claim_to.IH])
next
  case (rr_slash p r dest)
  then show ?case by (intro sn.slash_staked)
next
  case (rr_balances p call o1 bres t)
  have sd: "sound c (rl_base p)" using rr_balances.IH by (simp add: staked_def)
  from dispatch_sound [OF sd rr_balances.hyps(2,3)] named_lists [OF dispatch_lists [OF sd rr_balances.hyps(2,3)]] rr_balances.IH
  show ?case by (simp add: staked_def)
qed (simp_all add: staked_def)

section \<open>Leaving and slashing\<close>

lemma deregister_returns:
  assumes "sound c (rl_base p)" and "registered_relayers p r = Some reg" and "valid_till reg < rl_block p" and "stake reg \<noteq> 0"
    and "stake reg \<le> reserved_balance_named i r (rl_base p)" and "stake reg \<le> reserved (account r (rl_base p))"
    and "dust_of c (unreserved (account r (rl_base p)) (stake reg)) = None"
  shows "\<exists>p'. deregister (stake_and_slash_named c i required lease) (Signed r) p = (Inr (), p') \<and>
    registered_relayers p' = (registered_relayers p)(r := None) \<and> sound c (rl_base p') \<and>
    free (account r (rl_base p')) = free (account r (rl_base p)) + stake reg \<and>
    reserved_balance_named i r (rl_base p') = reserved_balance_named i r (rl_base p) - stake reg"
proof -
  obtain rest t where run: "unreserve_named c i r (stake reg) (rl_base p) = (rest, t)" by (rule prod.exhaust)
  note U = unreserve_named_ok [OF assms(1) run]
  have v: "min (reserved (account r (rl_base p))) (min (reserved_balance_named i r (rl_base p)) (stake reg)) = stake reg"
    using assms(5,6) by simp
  note U = U [unfolded v]
  have "deregister (stake_and_slash_named c i required lease) (Signed r) p =
      (Inr (), put_registration r None (rl_event (Deregistered r) (p\<lparr>rl_base := t\<rparr>)))"
    using assms(2-4) run U(1)
    by (simp add: deregister_def ensure_signed_def em_defs emap_err_def ezoom_def do_unreserve_def rl_call_def stake_and_slash_named_def)
  with U(2-4) U(5) [OF assms(7)] assms(1) show ?thesis by (simp add: sound_gap named_set_def)
qed

lemma slash_dead:
  assumes "sound c (rl_base p)" and "registered_relayers p r = Some reg" and "stake reg \<noteq> 0"
    and "0 < reserved_balance_named i r (rl_base p)" and "r \<noteq> b" and "account b (rl_base p) = account_data_default"
  shows "rl_base (slash_and_deregister (stake_and_slash_named c i required lease) r b p) = rl_base p"
proof -
  let ?s = "rl_base p"
  have inv: "bal_inv c ?s" using assms(1) by (simp add: sound_def)
  note I = bal_inv_D [OF inv] and srt = bal_inv_reserves [OF inv, of r] and N = named_amount [OF inv]
  obtain n where n: "binary_search_by_key i (reserves ?s r) = Inr n"
    using search_not_found(1) [OF srt] assms(4) by (cases "binary_search_by_key i (reserves ?s r)") (auto simp: N)
  have am: "ia_amount (reserves ?s r ! n) = reserved_balance_named i r ?s" using search_found(3) [OF srt n] by (simp add: N)
  define v where "v = min (reserved_balance_named i r ?s) (stake reg)"
  have v: "v \<noteq> 0" using assms(3,4) by (simp add: v_def)
  have "try_mutate_account c b False (transfer_reserved_closure c r x BS_Free) ?s = (Inl (DE_Module BE_DeadAccount), ?s)" for x
    by (rule try_mutate_account_closure_err [OF I(1,2)]) (simp add: assms(6) transfer_reserved_closure_def em_defs)
  then have "do_transfer_reserved c r b v BestEffort Polite BS_Free ?s = (Inl (DE_Module BE_DeadAccount), ?s)"
    using v assms(5) by (simp add: do_transfer_reserved_def Let_def em_defs)
  then have "repatriate_reserved_named c i r b (stake reg) BS_Free ?s = (Inl (DE_Module BE_DeadAccount), ?s)"
    using assms(3,5) n am
    by (simp add: repatriate_reserved_named_def repatriate_reserved_def Let_def em_defs v_def)
  then show ?thesis by (simp add: slash_and_deregister_def assms(2) stake_and_slash_named_def)
qed

end
