(* ===== verification/Bridge_Example.thy ===== *)
theory Bridge_Example
  imports Bridge_Progress Bridge_Relayers Balances_Examples
begin

text \<open>
  A run of two chains that the properties of the bridges are applied to: one chain sends two messages over a lane that
  was opened at genesis, one relayer delivers both, and another relayer confirms them. The proofs show the state after
  sending and the inbound lane after the delivery. Confirmations are paid by the relayers pallet, ten units a message.
\<close>

definition demo_genesis :: genesis_messages where
  "demo_genesis = \<lparr>gm_operating_mode = Basic Normal, gm_owner = None, gm_opened_lanes = [0]\<rparr>"

definition demo_seen :: inbound_lane_data where
  "demo_seen = \<lparr>relayers = [\<lparr>ur_relayer = 5, ur_messages = \<lparr>dm_begin = 1, dm_end = 2\<rparr>\<rparr>], last_confirmed_nonce = 0, il_state = Opened\<rparr>"

fun demo_sent :: "storage_key \<Rightarrow> storage_item option" where
  "demo_sent (MessageKeyOf k) =
     (if k = \<lparr>mk_lane_id = 0, mk_nonce = 2\<rparr> then Some (SMessage [8])
      else if k = \<lparr>mk_lane_id = 0, mk_nonce = 1\<rparr> then Some (SMessage [7]) else None)"
| "demo_sent (OutboundLaneKey l) =
     (if l = 0 then Some (SOutbound (outbound_lane_data_opened\<lparr>latest_generated_nonce := 2\<rparr>)) else None)"
| "demo_sent (InboundLaneKey l) = (if l = 0 then Some (SInbound inbound_lane_data_opened) else None)"

fun demo_delivered :: "storage_key \<Rightarrow> storage_item option option" where
  "demo_delivered (InboundLaneKey l) = (if l = 0 then Some (Some (SInbound demo_seen)) else None)"
| "demo_delivered _ = None"

type_synonym demo_rewards = "(bal_state, rewards_account_params) relayers_pallet"

definition demo_rewards_start :: demo_rewards where
  "demo_rewards_start = \<lparr>relayer_rewards = (\<lambda>_ _. None), registered_relayers = (\<lambda>_. None), rl_events = [], rl_block = 1, rl_base = ex_state\<rparr>"

definition demo_config :: "(message list, unit, demo_rewards) messages_config" where
  "demo_config =
     \<lparr>mc_max_unrewarded_relayers = 3, mc_max_unconfirmed_messages = 3, mc_maximal_incoming_message_size = 10, mc_usize_max = u32_max,
      mc_relayer_entry_len = 48, mc_finalized_state_root = Some,
      mc_checker = (\<lambda>root raw.
        Inr \<lparr>pc_read = (if root = 1 then (\<lambda>key. Some (demo_sent key)) else if root = 2 then demo_delivered else (\<lambda>_. None)),
             pc_no_unused = (\<lambda>_. True), pc_accessed = []\<rparr>),
      md_is_active = (\<lambda>_ _. True), md_dispatch_weight = (\<lambda>_ _. \<lparr>ref_time = 1, proof_size = 1\<rparr>),
      md_dispatch = (\<lambda>m ms. (\<lparr>unspent_weight = \<lparr>ref_time = 0, proof_size = 0\<rparr>, dispatch_level_result = ()\<rparr>, ms @ [m])),
      mp_delivery = (\<lambda>_ _ _ _ x. x), mp_confirmation = pay_confirmation_reward 7 10, mp_on_messages_delivered = (\<lambda>_ _ x. x),
      mw_receive_messages_proof = (\<lambda>_ _ w. w), mw_receive_messages_delivery_proof = (\<lambda>_ _. \<lparr>ref_time = 1, proof_size = 1\<rparr>)\<rparr>"

definition demo_start :: "(message list, unit, demo_rewards) messages_state" where
  "demo_start = messages_genesis demo_genesis (blank [] demo_rewards_start)"

definition demo_send :: "message_payload \<Rightarrow> (message list, unit, demo_rewards) messages_state \<Rightarrow> (message list, unit, demo_rewards) messages_state" where
  "demo_send p st = (case fst (validate_message demo_config 0 p st) of Inl _ \<Rightarrow> st | Inr args \<Rightarrow> snd (send_message args st))"

definition demo_source :: "(message list, unit, demo_rewards) messages_state" where
  "demo_source = demo_send [8] (demo_send [7] demo_start)"

definition demo_proof :: "nonce \<Rightarrow> nonce \<Rightarrow> messages_proof" where
  "demo_proof a b = \<lparr>bridged_header_hash = 1, storage_proof = [], mp_lane = 0, nonces_start = a, nonces_end = b\<rparr>"

definition demo_dproof :: delivery_proof where
  "demo_dproof = \<lparr>dp_header_hash = 2, dp_storage_proof = [], dp_lane = 0\<rparr>"

definition demo_weight :: weight where
  "demo_weight = \<lparr>ref_time = 10, proof_size = 10\<rparr>"

definition demo_target :: "(message list, unit, demo_rewards) messages_state" where
  "demo_target = snd (receive_messages_proof demo_config (Signed 9) 5 (demo_proof 1 2) 2 demo_weight demo_start)"

definition demo_confirmed :: "(message list, unit, demo_rewards) messages_state" where
  "demo_confirmed = snd (receive_messages_delivery_proof demo_config (Signed 9) demo_dproof (relayers_state_of demo_seen) demo_source)"

definition demo_log :: "lane_id \<Rightarrow> message_payload list" where
  "demo_log = (\<lambda>_. [])(0 := [[7], [8]])"

text \<open>The bridge after the two messages were sent, after their delivery, and after the confirmation.\<close>

definition demo_b1 :: "(message list, unit, demo_rewards) bridge" where
  "demo_b1 = \<lparr>here = demo_source, there = demo_start, here_past = {demo_start, demo_send [7] demo_start}, there_past = {},
     sent_here = demo_log, sent_there = (\<lambda>_. [])\<rparr>"

definition demo_b2 :: "(message list, unit, demo_rewards) bridge" where
  "demo_b2 = demo_b1\<lparr>there := demo_target, there_past := {demo_start}\<rparr>"

definition demo_b3 :: "(message list, unit, demo_rewards) bridge" where
  "demo_b3 = demo_b2\<lparr>here := demo_confirmed, here_past := {demo_start, demo_send [7] demo_start, demo_source}\<rparr>"

lemma demo_start_eq:
  "demo_start = (blank [] demo_rewards_start)\<lparr>inbound_lanes := [0 \<mapsto> inbound_lane_data_opened], outbound_lanes := [0 \<mapsto> outbound_lane_data_opened]\<rparr>"
  by (simp add: demo_start_def messages_genesis_def demo_genesis_def blank_def)

lemmas demo_lanes = outbound_lane_data_opened_def outbound_lane_data_default_def inbound_lane_data_opened_def inbound_lane_data_default_def

lemma demo_send_step:
  assumes "outbound_lanes st 0 = Some d" and "ol_state d = Opened" and "pallet_operating_mode st = Basic Normal" and "length p \<le> 10"
  shows "chain_step demo_config past st (Some (0, p)) (demo_send p st)"
    and "demo_send p st = m_event (MessageAccepted 0 (add64 (latest_generated_nonce d) 1))
      (st\<lparr>outbound_messages := (outbound_messages st)(\<lparr>mk_lane_id = 0, mk_nonce = add64 (latest_generated_nonce d) 1\<rparr> \<mapsto> p),
         outbound_lanes := (outbound_lanes st)(0 \<mapsto> d\<lparr>latest_generated_nonce := add64 (latest_generated_nonce d) 1\<rparr>)\<rparr>)"
proof -
  let ?args = "\<lparr>sa_lane_id = 0, sa_lane = d, sa_payload = p\<rparr>"
  have v: "validate_message demo_config 0 p st = (Inr ?args, st)"
    using assms by (simp add: validate_message_def demo_config_def)
  then show "chain_step demo_config past st (Some (0, p)) (demo_send p st)"
    by (intro step_send [of demo_config 0 p st ?args st "fst (send_message ?args st)"]) (simp_all add: demo_send_def)
  show "demo_send p st = m_event (MessageAccepted 0 (add64 (latest_generated_nonce d) 1))
      (st\<lparr>outbound_messages := (outbound_messages st)(\<lparr>mk_lane_id = 0, mk_nonce = add64 (latest_generated_nonce d) 1\<rparr> \<mapsto> p),
         outbound_lanes := (outbound_lanes st)(0 \<mapsto> d\<lparr>latest_generated_nonce := add64 (latest_generated_nonce d) 1\<rparr>)\<rparr>)"
    by (simp add: demo_send_def v send_message_def out_send_message_def runtime_outbound_def Let_def data_queued_messages_def)
qed

lemma demo_nonces: "add64 0 (Suc 0) = Suc 0" "add64 (Suc 0) (Suc 0) = 2"
  by (simp_all add: add64_def u64_max_def)

lemma demo_first:
  "outbound_lanes (demo_send [7] demo_start) = [0 \<mapsto> outbound_lane_data_opened\<lparr>latest_generated_nonce := 1\<rparr>]"
  "outbound_messages (demo_send [7] demo_start) = [\<lparr>mk_lane_id = 0, mk_nonce = 1\<rparr> \<mapsto> [7]]"
  "inbound_lanes (demo_send [7] demo_start) = [0 \<mapsto> inbound_lane_data_opened]" "mdisp (demo_send [7] demo_start) = []"
  "pallet_operating_mode (demo_send [7] demo_start) = Basic Normal" "mext (demo_send [7] demo_start) = demo_rewards_start"
  by (simp_all add: demo_send_step(2) [of _ outbound_lane_data_opened] demo_start_eq demo_lanes blank_def m_event_def demo_nonces)

lemma demo_source_sel:
  "outbound_lanes demo_source = [0 \<mapsto> outbound_lane_data_opened\<lparr>latest_generated_nonce := 2\<rparr>]"
  "outbound_messages demo_source = [\<lparr>mk_lane_id = 0, mk_nonce = 1\<rparr> \<mapsto> [7], \<lparr>mk_lane_id = 0, mk_nonce = 2\<rparr> \<mapsto> [8]]"
  "inbound_lanes demo_source = [0 \<mapsto> inbound_lane_data_opened]" "mdisp demo_source = []"
  "pallet_operating_mode demo_source = Basic Normal" "mext demo_source = demo_rewards_start"
  unfolding demo_source_def
  by (simp_all add: demo_send_step(2) [of _ "outbound_lane_data_opened\<lparr>latest_generated_nonce := 1\<rparr>"] demo_first demo_lanes m_event_def demo_nonces)

lemma demo_sent_stored: "demo_sent = stored_item demo_source"
proof
  fix key show "demo_sent key = stored_item demo_source key"
    by (cases key) (auto simp: demo_source_sel)
qed

lemma demo_run1: "bridge_run demo_config demo_config [] [] demo_b1"
proof -
  let ?b0 = "\<lparr>here = demo_start, there = demo_start, here_past = {}, there_past = {}, sent_here = (\<lambda>_. []), sent_there = (\<lambda>_. [])\<rparr>"
  have b0: "bridge_run demo_config demo_config [] [] ?b0" unfolding demo_start_def by (rule run_start)
  have "chain_step demo_config {demo_start} demo_start (Some (0, [7])) (demo_send [7] demo_start)"
    by (rule demo_send_step [of _ outbound_lane_data_opened]) (simp_all add: demo_start_eq demo_lanes blank_def)
  from run_here [OF b0, simplified, OF this]
  have b: "bridge_run demo_config demo_config [] [] (?b0\<lparr>here := demo_send [7] demo_start, here_past := {demo_start}, sent_here := (\<lambda>_. [])(0 := [[7]])\<rparr>)"
    by (simp add: fun_upd_def)
  have "chain_step demo_config {demo_start} (demo_send [7] demo_start) (Some (0, [8])) demo_source"
    unfolding demo_source_def
    by (rule demo_send_step [of _ "outbound_lane_data_opened\<lparr>latest_generated_nonce := 1\<rparr>"]) (simp_all add: demo_first demo_lanes)
  from run_here [OF b, simplified, OF this] show ?thesis
    by (simp add: demo_b1_def demo_log_def insert_commute)
qed

lemma demo_target_run:
  "(case receive_messages_proof demo_config (Signed 9) 5 (demo_proof 1 2) 2 demo_weight demo_start of
      (Inl _, _) \<Rightarrow> False
    | (Inr _, st) \<Rightarrow> inbound_lanes st 0 = Some demo_seen \<and> mdisp st =
         [\<lparr>m_key = \<lparr>mk_lane_id = 0, mk_nonce = 1\<rparr>, m_payload = [7]\<rparr>, \<lparr>m_key = \<lparr>mk_lane_id = 0, mk_nonce = 2\<rparr>, m_payload = [8]\<rparr>])"
  by code_simp

lemma demo_target_sel:
  "\<exists>a. receive_messages_proof demo_config (Signed 9) 5 (demo_proof 1 2) 2 demo_weight demo_start = (Inr a, demo_target)"
  "inbound_lanes demo_target 0 = Some demo_seen"
  "mdisp demo_target = [\<lparr>m_key = \<lparr>mk_lane_id = 0, mk_nonce = 1\<rparr>, m_payload = [7]\<rparr>, \<lparr>m_key = \<lparr>mk_lane_id = 0, mk_nonce = 2\<rparr>, m_payload = [8]\<rparr>]"
  using demo_target_run by (auto simp: demo_target_def split: prod.splits sum.splits)

lemma demo_confirmed_run:
  "(case receive_messages_delivery_proof demo_config (Signed 9) demo_dproof (relayers_state_of demo_seen) demo_source of
      (Inl _, _) \<Rightarrow> False
    | (Inr _, st) \<Rightarrow> received 0 st = 2 \<and> queued 0 st 1 = None \<and> queued 0 st 2 = None)"
  by code_simp

lemma demo_confirmed_sel:
  "\<exists>a. receive_messages_delivery_proof demo_config (Signed 9) demo_dproof (relayers_state_of demo_seen) demo_source = (Inr a, demo_confirmed)"
  "received 0 demo_confirmed = 2"
  using demo_confirmed_run by (auto simp: demo_confirmed_def split: prod.splits sum.splits)

lemma demo_config_roots: "demo_config\<lparr>mc_finalized_state_root := Some\<rparr> = demo_config"
  by (simp add: demo_config_def)

lemma demo_run2: "bridge_run demo_config demo_config [] [] demo_b2"
proof -
  have "authentic demo_config (insert (here demo_b1) (here_past demo_b1)) (bridged_header_hash (demo_proof 1 2)) (storage_proof (demo_proof 1 2))"
    by (auto simp: authentic_def verify_storage_proof_def demo_config_def demo_proof_def reads_from_def demo_sent_stored demo_b1_def)
  moreover obtain a where "receive_messages_proof demo_config (Signed 9) 5 (demo_proof 1 2) 2 demo_weight demo_start = (Inr a, demo_target)"
    using demo_target_sel(1) by blast
  then have "transactional (receive_messages_proof demo_config (Signed 9) 5 (demo_proof 1 2) 2 demo_weight) (there demo_b1) = (Inr a, demo_target)"
    by (simp add: transactional_def demo_b1_def)
  ultimately have "chain_step demo_config (insert (here demo_b1) (here_past demo_b1)) (there demo_b1) None demo_target"
    by (rule step_deliver [OF demo_config_roots [symmetric]])
  from run_there [OF demo_run1 this] show ?thesis by (simp add: demo_b2_def demo_b1_def)
qed

lemma demo_run3: "bridge_run demo_config demo_config [] [] demo_b3"
proof -
  have "authentic demo_config (insert (there demo_b2) (there_past demo_b2)) (dp_header_hash demo_dproof) (dp_storage_proof demo_dproof)"
    unfolding authentic_def
  proof (intro allI impI bexI)
    fix c assume "verify_storage_proof demo_config (dp_header_hash demo_dproof) (dp_storage_proof demo_dproof) = Inr c"
    then have "pc_read c = demo_delivered" by (auto simp: verify_storage_proof_def demo_config_def demo_dproof_def)
    then show "reads_from c demo_target"
      unfolding reads_from_def by (auto simp: demo_target_sel elim!: demo_delivered.elims split: if_splits)
  qed (simp add: demo_b2_def)
  moreover obtain a where "receive_messages_delivery_proof demo_config (Signed 9) demo_dproof (relayers_state_of demo_seen) demo_source = (Inr a, demo_confirmed)"
    using demo_confirmed_sel(1) by blast
  then have "transactional (receive_messages_delivery_proof demo_config (Signed 9) demo_dproof (relayers_state_of demo_seen)) (here demo_b2) = (Inr a, demo_confirmed)"
    by (simp add: transactional_def demo_b2_def demo_b1_def)
  ultimately have "chain_step demo_config (insert (there demo_b2) (there_past demo_b2)) (here demo_b2) None demo_confirmed"
    by (rule step_confirm [OF demo_config_roots [symmetric]])
  from run_here [OF demo_run2 this] show ?thesis by (simp add: demo_b3_def demo_b2_def demo_b1_def insert_commute)
qed

lemma demo_delivered_two: "delivered 0 (there demo_b3) = 2"
  by (simp add: demo_b3_def demo_b2_def delivered_def demo_target_sel demo_seen_def last_delivered_nonce_def)

lemma demo_short:
  "short (sent_here demo_b1)" "short (sent_there demo_b1)" "short (sent_here demo_b2)" "short (sent_there demo_b2)"
  "short (sent_here demo_b3)" "short (sent_there demo_b3)"
  by (simp_all add: short_def demo_b1_def demo_b2_def demo_b3_def demo_log_def u64_max_def)

end
