(* ===== verification/Bridge_Props.thy ===== *)
theory Bridge_Props
  imports Bridge_Example
begin

text \<open>
  Properties of the bridges: two chains that run the messages pallet and hand messages to each other through relayers
  whom nobody trusts. Each theorem about a run holds for the other direction as well, since a run is symmetric in its
  two chains.
\<close>

section \<open>Delivery\<close>

lemma sent_messages_take:
  assumes "k \<le> length (sent l)"
  shows "map m_payload (sent_messages sent l [1 ..< Suc k]) = take k (sent l)"
    and "nonces (sent_messages sent l [1 ..< Suc k]) = [1 ..< Suc k]"
proof -
  show "map m_payload (sent_messages sent l [1 ..< Suc k]) = take k (sent l)"
    using assms by (intro nth_equalityI) (auto simp: sent_messages_def simp del: upt_Suc)
  show "nonces (sent_messages sent l [1 ..< Suc k]) = [1 ..< Suc k]"
    by (simp add: sent_messages_def o_def del: upt_Suc)
qed

text \<open>
  (C2) A lane is a reliable queue. After any run of the two chains, in which relayers submit whatever proofs of earlier
  states they have, in any order and as often as they like, the dispatcher of the receiving chain has been called for a
  list of messages that, restricted to a lane, is the first part of what was sent over this lane: with these payloads,
  in this order, each once, and with the nonces \<open>1, 2, \<dots>\<close>.
\<close>

theorem exactly_once_in_order:
  assumes "bridge_run ch ct d0 e0 b" and "short (sent_here b)" and "short (sent_there b)"
  shows "\<exists>ms. mdisp (there b) = dispatch_all ct ms e0 \<and>
    (\<forall>l. map m_payload (filter (\<lambda>m. mk_lane_id (m_key m) = l) ms) = take (delivered l (there b)) (sent_here b l) \<and>
         nonces (filter (\<lambda>m. mk_lane_id (m_key m) = l) ms) = [1 ..< Suc (delivered l (there b))] \<and>
         delivered l (there b) \<le> length (sent_here b l))"
proof -
  note inv = bridge_queue(1) [OF assms]
  from queue_invD(5) [OF inv] obtain ms where "mdisp (there b) = dispatch_all ct ms e0"
    "\<And>l. filter (\<lambda>m. mk_lane_id (m_key m) = l) ms = sent_messages (sent_here b) l [1 ..< Suc (delivered l (there b))]"
    unfolding dispatched_in_order_def by blast
  with queue_invD(4) [OF inv] sent_messages_take [of "delivered _ (there b)" "sent_here b"] show ?thesis
    by (intro exI [of _ ms]) (simp del: upt_Suc)
qed

theorem exactly_once_in_order_witness:
  "bridge_run demo_config demo_config [] [] demo_b3 \<and> delivered 0 (there demo_b3) = 2 \<and>
   (\<exists>ms. mdisp (there demo_b3) = dispatch_all demo_config ms [] \<and>
     (\<forall>l. map m_payload (filter (\<lambda>m. mk_lane_id (m_key m) = l) ms) = take (delivered l (there demo_b3)) (sent_here demo_b3 l) \<and>
          nonces (filter (\<lambda>m. mk_lane_id (m_key m) = l) ms) = [1 ..< Suc (delivered l (there demo_b3))] \<and>
          delivered l (there demo_b3) \<le> length (sent_here demo_b3 l)))"
  using demo_run3 exactly_once_in_order [OF demo_run3 demo_short(5,6)]
  by (simp add: demo_delivered_two del: upt_Suc)

text \<open>
  (C5) No message is lost. A message that the receiving chain has not confirmed to have delivered is still stored with
  its payload on the chain that sent it, and confirmations never run ahead of deliveries.
\<close>

theorem no_message_lost:
  assumes "bridge_run ch ct d0 e0 b" and "short (sent_here b)" and "short (sent_there b)"
    and "delivered l (there b) < n" and "n \<le> length (sent_here b l)"
  shows "outbound_message_data (here b) l n = Some (sent_here b l ! (n - 1)) \<and> received l (here b) \<le> delivered l (there b)"
proof -
  note inv = bridge_queue(1) [OF assms(1-3)]
  with queue_invD(1) [OF inv] queue_invD(4) [OF inv, of l] assms(4,5) show ?thesis
    by (simp add: source_now_def queued_def outbound_message_data_def)
qed

theorem no_message_lost_witness:
  "delivered 0 (there demo_b1) < 2 \<and> 2 \<le> length (sent_here demo_b1 0) \<and>
   outbound_message_data (here demo_b1) 0 2 = Some (sent_here demo_b1 0 ! (2 - 1)) \<and> received 0 (here demo_b1) \<le> delivered 0 (there demo_b1)"
proof -
  have "delivered 0 (there demo_b1) < 2" "2 \<le> length (sent_here demo_b1 0)"
    by (simp_all add: demo_b1_def demo_log_def demo_start_eq delivered_def demo_lanes last_delivered_nonce_def)
  with no_message_lost [OF demo_run1 demo_short(1,2) this] show ?thesis by simp
qed



text \<open>
  (C8) Progress of confirmations. Whatever state of its past the receiving chain proves, its record of who delivered
  what is consistent for the sending chain: the call that confirms deliveries succeeds, and afterwards everything
  delivered in that state counts as received.
\<close>

theorem confirmation_accepted:
  assumes "bridge_run ch ct d0 e0 b" and "short (sent_here b)" and "short (sent_there b)"
    and "tau \<in> insert (there b) (there_past b)" and "inbound_lanes tau l = Some data"
    and "verify_messages_delivery_proof ch proof = Inr (l, data)"
    and "outbound_lanes (here b) l \<noteq> None" and "\<not> is_halted (pallet_operating_mode (here b))"
  shows "\<exists>w st'. receive_messages_delivery_proof ch (Signed who) proof (relayers_state_of data) (here b) = (Inr w, st') \<and>
    received l st' = max (received l (here b)) (delivered l tau)"
proof -
  note inv = bridge_queue(1) [OF assms(1-3)]
  obtain d where d: "outbound_lanes (here b) l = Some d" using assms(7) by blast
  note tau = queue_invD(3) [OF inv assms(4)]
  have ok: "inbound_ok data" using tau assms(5) by (auto simp: inbound_sound_def)
  have sel: "delivered l tau = last_delivered_nonce data" "confirmed l tau = last_confirmed_nonce data"
    "received l (here b) = latest_received_nonce d" "generated l (here b) = latest_generated_nonce d"
    using assms(5) d by (simp_all add: delivered_def confirmed_def received_def generated_def)
  have "last_confirmed_nonce data \<le> latest_received_nonce d" using tau sel by metis
  moreover have "last_delivered_nonce data \<le> latest_generated_nonce d"
    using tau queue_invD(4) [OF inv, of l] queue_invD(1) [OF inv] sel by (metis source_now_def order_trans)
  moreover have "latest_received_nonce d < u64_max" using queue_invD_bounds [OF inv assms(2), of l] sel by simp
  ultimately show ?thesis using confirmation_call_succeeds [OF assms(6) d assms(8) ok] by (simp add: sel)
qed

theorem confirmation_accepted_witness:
  "\<exists>w st'. receive_messages_delivery_proof demo_config (Signed 9) demo_dproof (relayers_state_of demo_seen) (here demo_b2) = (Inr w, st') \<and>
    received 0 st' = max (received 0 (here demo_b2)) (delivered 0 demo_target) \<and> delivered 0 demo_target = 2"
proof -
  have v: "verify_messages_delivery_proof demo_config demo_dproof = Inr (0, demo_seen)" by code_simp
  have "there demo_b2 = demo_target" "here demo_b2 = demo_source" by (simp_all add: demo_b2_def demo_b1_def)
  with confirmation_accepted [OF demo_run2 demo_short(3,4) _ demo_target_sel(2) v] demo_source_sel demo_delivered_two show ?thesis
    by (simp add: demo_b3_def demo_b2_def)
qed

text \<open>
  Rewards. When a confirmation of a state of the receiving chain is accepted, the rewards computed from it add up
  to the number of messages that were not confirmed before, and every relayer is paid for exactly those of them that
  the receiving chain recorded as delivered by this relayer; so no message is paid for twice.
\<close>

theorem rewards_exact:
  assumes "bridge_run ch ct d0 e0 b" and "short (sent_here b)" and "short (sent_there b)"
    and "tau \<in> insert (there b) (there_past b)" and "inbound_lanes tau l = Some data"
    and "received l (here b) < last_delivered_nonce data"
    and "rewards = calc_relayers_rewards (relayers data) (Suc (received l (here b)), last_delivered_nonce data)"
  shows "rewards_sum rewards = last_delivered_nonce data - received l (here b) \<and>
    (\<forall>r. reward_of rewards r = card ({n. received l (here b) < n \<and> n \<le> last_delivered_nonce data} \<inter> delivered_by (relayers data) r))"
proof -
  note inv = bridge_queue(1) [OF assms(1-3)]
  note tau = queue_invD(3) [OF inv assms(4)]
  have ok: "contiguous (Suc (last_confirmed_nonce data)) (relayers data)" "last_delivered_nonce data \<le> u64_max"
    using tau assms(5) by (auto simp: inbound_sound_def inbound_ok_def)
  have "last_confirmed_nonce data \<le> received l (here b)" using tau assms(5) by (metis confirmed_def option.simps(5))
  moreover have "{Suc (received l (here b)) .. last_delivered_nonce data} = {n. received l (here b) < n \<and> n \<le> last_delivered_nonce data}"
    by auto
  ultimately show ?thesis
    using calc_relayers_rewards_sum [OF ok(1), of "Suc (received l (here b))" "last_delivered_nonce data"] last_delivered_next [of data] ok(2)
      calc_relayers_rewards_exact(1) [OF ok(1), of "Suc (received l (here b))" "last_delivered_nonce data"]
    by (simp add: assms(7))
qed

theorem rewards_exact_witness:
  "received 0 (here demo_b2) < last_delivered_nonce demo_seen \<and>
   calc_relayers_rewards (relayers demo_seen) (1, 2) = [(5, 2)] \<and> rewards_sum [(5, 2)] = 2 \<and>
   reward_of [(5, 2)] 5 = card ({n. 0 < n \<and> n \<le> 2} \<inter> delivered_by (relayers demo_seen) 5)"
proof -
  have r: "received 0 (here demo_b2) = 0" "last_delivered_nonce demo_seen = 2"
    by (simp_all add: demo_b2_def demo_b1_def received_def demo_source_sel demo_lanes demo_seen_def last_delivered_nonce_def)
  have c: "calc_relayers_rewards (relayers demo_seen) (1, 2) = [(5, 2)]" by code_simp
  have "inbound_lanes (there demo_b2) 0 = Some demo_seen" by (simp add: demo_b2_def demo_target_sel)
  from rewards_exact [OF demo_run2 demo_short(3,4) _ this, where rewards = "[(5, 2)]"] r c show ?thesis by simp
qed

text \<open>
  (C15) The limits of inbound lanes hold in every state of a run, so the proofs of deliveries stay small; and the check of
  the state of the pallet, which looks for confirmed messages that are still stored, never fails.
\<close>

theorem lanes_bounded_and_pruned:
  assumes "bridge_run ch ct d0 e0 b" and "short (sent_here b)" and "short (sent_there b)"
  shows "do_try_state_for_outbound_lanes (here b) \<and>
    (\<forall>l d. inbound_lanes (there b) l = Some d \<longrightarrow> length (relayers d) \<le> mc_max_unrewarded_relayers ct \<and>
      total_unrewarded_messages d \<le> mc_max_unconfirmed_messages ct)"
proof -
  have tidy: "tidy ch (here b)" "tidy ct (there b)" using bridge_run_tidy [OF assms] by auto
  note inv = bridge_queue(1) [OF assms]
  have "inbound_ok d" if "inbound_lanes (there b) l = Some d" for l d
    using queue_invD(3) [OF inv, of "there b"] that by (auto simp: inbound_sound_def)
  with tidy show ?thesis
    by (auto simp: tidy_def lanes_within_def lane_within_def inbound_ok_total pruned_try_state)
qed

theorem lanes_bounded_and_pruned_witness:
  "do_try_state_for_outbound_lanes (here demo_b3) \<and> inbound_lanes (there demo_b3) 0 = Some demo_seen \<and>
   length (relayers demo_seen) \<le> mc_max_unrewarded_relayers demo_config \<and>
   total_unrewarded_messages demo_seen \<le> mc_max_unconfirmed_messages demo_config"
proof -
  have "inbound_lanes (there demo_b3) 0 = Some demo_seen" by (simp add: demo_b3_def demo_b2_def demo_target_sel)
  with lanes_bounded_and_pruned [OF demo_run3 demo_short(5,6)] show ?thesis by blast
qed

section \<open>Sending with a ticket that is out of date\<close>

text \<open>
  (C40) Sending works on the lane as it was when the message was validated. Two messages that are validated before either
  of them is sent get the same nonce, which the interface calls unique; the second one replaces the first, and the first
  is never delivered.
\<close>

theorem stale_ticket_overwrites:
  assumes "validate_message cfg l p st = (Inr first, st1)" and "validate_message cfg l q st1 = (Inr second, st2)"
    and "send_message first st2 = (a, st3)" and "send_message second st3 = (a', st4)"
  shows "art_nonce a' = art_nonce a \<and> outbound_message_data st4 l (art_nonce a) = Some q \<and> generated l st4 = add64 (generated l st) 1"
proof -
  from assms(1,2) obtain d where "outbound_lanes st l = Some d" "first = \<lparr>sa_lane_id = l, sa_lane = d, sa_payload = p\<rparr>"
    "second = \<lparr>sa_lane_id = l, sa_lane = d, sa_payload = q\<rparr>"
    by (auto simp: validate_message_def)
  with assms(3,4) show ?thesis
    by (auto simp: send_message_def out_send_message_def runtime_outbound_def Let_def data_queued_messages_def outbound_message_data_def
      generated_def)
qed

theorem stale_ticket_overwrites_witness:
  "let first = \<lparr>sa_lane_id = 0, sa_lane = outbound_lane_data_opened, sa_payload = [7]\<rparr>;
       second = \<lparr>sa_lane_id = 0, sa_lane = outbound_lane_data_opened, sa_payload = [8]\<rparr>;
       (a, st3) = send_message first demo_start; (a', st4) = send_message second st3
   in validate_message demo_config 0 [7] demo_start = (Inr first, demo_start) \<and> art_nonce a' = art_nonce a \<and>
      outbound_message_data st4 0 (art_nonce a) = Some [8]"
proof -
  let ?args = "\<lambda>p. \<lparr>sa_lane_id = 0, sa_lane = outbound_lane_data_opened, sa_payload = p\<rparr>"
  have v: "validate_message demo_config 0 [7] demo_start = (Inr (?args [7]), demo_start)"
    "validate_message demo_config 0 [8] demo_start = (Inr (?args [8]), demo_start)"
    by (simp_all add: validate_message_def demo_config_def demo_start_eq blank_def demo_lanes)
  obtain a st3 where s3: "send_message (?args [7]) demo_start = (a, st3)" by fastforce
  obtain a' st4 where s4: "send_message (?args [8]) st3 = (a', st4)" by fastforce
  from stale_ticket_overwrites [OF v s3 s4] v(1) s3 s4 show ?thesis by (simp add: Let_def)
qed

end
