(* ===== verification/Relayers_Props.thy ===== *)
theory Relayers_Props
  imports Bridge_Example
begin

text \<open>
  Properties of the relayers pallet: together with the messages pallet, whose confirmations fill its ledger, and with
  the balances pallet, which pays the rewards and keeps the stakes.
\<close>

section \<open>Rewards of a run of the bridge\<close>

lemma confirmation_ext:
  assumes "receive_messages_delivery_proof cfg o1 proof rs st = (Inr w, st')"
    and "verify_messages_delivery_proof cfg proof = Inr (l, data)"
  obtains who d m d1 st1 n where "o1 = Signed who" and "outbound_lanes st l = Some d"
    and "confirm_delivery (runtime_outbound l) (urs_total_messages rs) (last_delivered_nonce data) (relayers data) (d, st) = (Inr m, (d1, st1))"
    and "mext st' = mp_on_messages_delivered cfg l n (case m of None \<Rightarrow> mext st1
      | Some c \<Rightarrow> snd (mp_confirmation cfg l (relayers data) who (dm_begin c, dm_end c) (mext st1)))"
proof -
  from assms have "\<exists>who d m d1 st1 d2 st2 rs2 n. o1 = Signed who \<and> outbound_lanes st l = Some d \<and>
      confirm_delivery (runtime_outbound l) (urs_total_messages rs) (last_delivered_nonce data) (relayers data) (d, st) = (Inr m, (d1, st1)) \<and>
      (case m of None \<Rightarrow> eret rs | Some c \<Rightarrow> reward_confirmed cfg l (relayers data) who c rs) (d1, st1) = (Inr rs2, (d2, st2)) \<and>
      mext st' = mp_on_messages_delivered cfg l n (mext st2)"
    by (clarsimp simp: receive_messages_delivery_proof_def Let_def) blast
  then obtain who d m d1 st1 d2 st2 rs2 n where o1: "o1 = Signed who" "outbound_lanes st l = Some d"
      "confirm_delivery (runtime_outbound l) (urs_total_messages rs) (last_delivered_nonce data) (relayers data) (d, st) = (Inr m, (d1, st1))"
    and rw: "(case m of None \<Rightarrow> eret rs | Some c \<Rightarrow> reward_confirmed cfg l (relayers data) who c rs) (d1, st1) = (Inr rs2, (d2, st2))"
    and x: "mext st' = mp_on_messages_delivered cfg l n (mext st2)"
    by (elim exE conjE)
  have "mext st2 = (case m of None \<Rightarrow> mext st1
      | Some c \<Rightarrow> snd (mp_confirmation cfg l (relayers data) who (dm_begin c, dm_end c) (mext st1)))"
    using rw by (auto simp: reward_confirmed_def Let_def split: option.splits prod.splits)
  with o1 x show thesis by (intro that) auto
qed

lemma reward_of_mem: "distinct (map fst rs) \<Longrightarrow> x \<in> set rs \<Longrightarrow> snd x = reward_of rs (fst x)"
  by (cases x) (simp add: reward_of_def)

lemma confirmation_ledger:
  assumes ok: "inbound_ok data" and "last_confirmed_nonce data \<le> a" and "last_delivered_nonce data \<le> u64_max"
    and "\<And>r. ledger p r k + fee * card ({Suc a .. last_delivered_nonce data} \<inter> delivered_by (relayers data) r) \<le> u128_max"
    and "k = rewards_account_params_new l chain BridgedChain"
  shows "ledger (snd (pay_confirmation_reward chain fee l (relayers data) who (Suc a, last_delivered_nonce data) p)) r j =
    ledger p r j + (if j = k then fee * card ({Suc a .. last_delivered_nonce data} \<inter> delivered_by (relayers data) r) else 0)"
proof -
  let ?rs = "calc_relayers_rewards (relayers data) (Suc a, last_delivered_nonce data)"
  have ct: "contiguous (Suc (last_confirmed_nonce data)) (relayers data)" using ok by (simp add: inbound_ok_def)
  have nx: "next_nonce (Suc (last_confirmed_nonce data)) (relayers data) \<le> Suc u64_max"
    using last_delivered_next [of data] assms(3) by simp
  note R = calc_relayers_rewards_exact [OF ct _ nx, of "Suc a" "last_delivered_nonce data", simplified]
  have dist: "distinct (map fst ?rs)" using R(2) strict_sorted_iff by blast
  have "card ({Suc a .. last_delivered_nonce data} \<inter> delivered_by (relayers data) q) \<le> u128_max" for q
  proof -
    have "card ({Suc a .. last_delivered_nonce data} \<inter> delivered_by (relayers data) q) \<le> card {Suc a .. last_delivered_nonce data}"
      by (rule card_mono) auto
    also have "\<dots> \<le> u64_max" using assms(3) by simp
    finally show ?thesis by (simp add: u64_max_def u128_max_def)
  qed
  then have small: "\<forall>x \<in> set ?rs. snd x \<le> u128_max"
    using reward_of_mem [OF dist] by (simp add: R(1))
  from register_relayers_rewards_ok [OF dist _ small, of p k fee] assms(4) show ?thesis
    by (simp add: pay_confirmation_reward_def Let_def R(1) assms(5) mult.commute)
qed

text \<open>
  (C6) Relayers are paid for what they delivered, once. On a chain whose messages pallet pays confirmations through the
  relayers pallet, an accepted confirmation of a state of the other chain adds to the ledger of every relayer the fee
  times the number of messages that this relayer delivered and that were not confirmed before, for this lane and no
  other; submitted again, it adds nothing.
\<close>

theorem relayers_paid:
  assumes "bridge_run ch ct d0 e0 b" and "short (sent_here b)" and "short (sent_there b)"
    and "mp_confirmation ch = pay_confirmation_reward chain fee" and "mp_on_messages_delivered ch = (\<lambda>_ _ x. x)"
    and "tau \<in> insert (there b) (there_past b)" and "inbound_lanes tau l = Some data"
    and "verify_messages_delivery_proof ch proof = Inr (l, data)"
    and "receive_messages_delivery_proof ch o1 proof rs (here b) = (Inr w, st')"
    and "new = (\<lambda>r. {n. received l (here b) < n \<and> n \<le> last_delivered_nonce data} \<inter> delivered_by (relayers data) r)"
    and "kind = rewards_account_params_new l chain BridgedChain"
    and "\<forall>r. ledger (mext (here b)) r kind + fee * card (new r) \<le> u128_max"
  shows "ledger (mext st') r k = ledger (mext (here b)) r k + (if k = kind then fee * card (new r) else 0)"
proof -
  note inv = bridge_queue(1) [OF assms(1-3)]
  note tau = queue_invD(3) [OF inv assms(6)]
  have ok: "inbound_ok data" "last_delivered_nonce data \<le> u64_max" using tau assms(7) by (auto simp: inbound_sound_def inbound_ok_def)
  obtain who d m d1 st1 n where d: "outbound_lanes (here b) l = Some d"
    and c: "confirm_delivery (runtime_outbound l) (urs_total_messages rs) (last_delivered_nonce data) (relayers data) (d, here b) = (Inr m, (d1, st1))"
    and x: "mext st' = (case m of None \<Rightarrow> mext st1
      | Some c \<Rightarrow> snd (pay_confirmation_reward chain fee l (relayers data) who (dm_begin c, dm_end c) (mext st1)))"
    by (rule confirmation_ext [OF assms(9,8), unfolded assms(4,5)]) blast
  have rec: "received l (here b) = latest_received_nonce d" using d by (simp add: received_def)
  have le: "last_confirmed_nonce data \<le> received l (here b)" using tau assms(7) by (metis confirmed_def option.simps(5))
  have lt: "latest_received_nonce d < u64_max" using queue_invD_bounds [OF inv assms(2), of l] rec by simp
  have new: "new r = {Suc (received l (here b)) .. last_delivered_nonce data} \<inter> delivered_by (relayers data) r" for r
    by (auto simp: assms(10))
  from ro.confirm_ok [OF c ok(2)] lt consider "m = None" "st1 = here b" "last_delivered_nonce data \<le> received l (here b)"
    | "m = Some \<lparr>dm_begin = Suc (received l (here b)), dm_end = last_delivered_nonce data\<rparr>" "mext st1 = mext (here b)"
    by (auto simp: rec dest: out_frameD(3))
  then show ?thesis
  proof cases
    case 1
    then have "new r = {}" by (auto simp: assms(10))
    with 1 show ?thesis by (simp add: x)
  next
    case 2
    from confirmation_ledger [OF ok(1) le ok(2) _ assms(11), of "mext (here b)" fee] assms(12) show ?thesis by (simp add: x 2 new)
  qed
qed

lemma demo_delivery_proof: "verify_messages_delivery_proof demo_config demo_dproof = Inr (0, demo_seen)"
  by code_simp

theorem relayers_paid_witness:
  "received 0 (here demo_b2) = 0 \<and> card ({n. 0 < n \<and> n \<le> 2} \<inter> delivered_by (relayers demo_seen) 5) = 2 \<and>
   ledger (mext demo_confirmed) 5 (rewards_account_params_new 0 7 BridgedChain) = 20"
proof -
  let ?new = "\<lambda>r. {n. 0 < n \<and> n \<le> 2} \<inter> delivered_by (relayers demo_seen) r"
  let ?k = "rewards_account_params_new 0 7 BridgedChain"
  have r: "received 0 (here demo_b2) = 0" "last_delivered_nonce demo_seen = 2"
    by (simp_all add: demo_b2_def demo_b1_def received_def demo_source_sel demo_lanes demo_seen_def last_delivered_nonce_def)
  have by5: "?new q = (if q = 5 then {1, 2} else {})" for q by (auto simp: demo_seen_def delivered_by_def contains_message_def)
  have start: "mext (here demo_b2) = demo_rewards_start"
    by (simp add: demo_b2_def demo_b1_def demo_source_sel)
  have there: "there demo_b2 = demo_target" by (simp add: demo_b2_def)
  have pays: "mp_confirmation demo_config = pay_confirmation_reward 7 10" "mp_on_messages_delivered demo_config = (\<lambda>_ _ x. x)"
    by (simp_all add: demo_config_def)
  obtain w where run: "receive_messages_delivery_proof demo_config (Signed 9) demo_dproof (relayers_state_of demo_seen) (here demo_b2) = (Inr w, demo_confirmed)"
    using demo_confirmed_sel(1) by (auto simp: demo_b2_def demo_b1_def)
  have "ledger (mext demo_confirmed) 5 ?k = ledger (mext (here demo_b2)) 5 ?k + (if ?k = ?k then 10 * card (?new 5) else 0)"
    by (rule relayers_paid [OF demo_run2 demo_short(3,4) _ _ _ _ demo_delivery_proof run, where tau = demo_target])
      (use by5 in \<open>auto simp: r start there pays demo_target_sel ledger_def demo_rewards_start_def u128_max_def\<close>)
  with by5 r show ?thesis by (simp add: start ledger_def demo_rewards_start_def)
qed

section \<open>Claims\<close>







section \<open>Stakes\<close>


definition demo_stakes :: "bal_state stake_ops" where
  "demo_stakes = stake_and_slash_named ex_cfg 3 30 5"

definition demo_registered :: demo_rewards where
  "demo_registered = snd (transactional (register demo_stakes (Signed 2) 100) demo_rewards_start)"

lemma demo_registered_sel:
  "registered_relayers demo_registered 2 = Some \<lparr>valid_till = 100, stake = 30\<rparr>"
  "rl_block demo_registered = 1" "reserved_balance_named 3 2 (rl_base demo_registered) = 30"
  "free (account 2 (rl_base demo_registered)) = 20" "reserved (account 2 (rl_base demo_registered)) = 50"
  "account 8 (rl_base demo_registered) = account_data_default"
  by code_simp+

lemma demo_registered_run: "relayers_run ex_cfg 3 30 5 (\<lambda>_. 1) Some demo_registered"
proof -
  have "relayers_run ex_cfg 3 30 5 (\<lambda>_. 1) Some demo_rewards_start"
    by (rule rr_start) (simp_all add: demo_rewards_start_def ex_sound)
  then show ?thesis
    by (rule rr_register [where res = "fst (transactional (register demo_stakes (Signed 2) 100) demo_rewards_start)"])
      (simp add: demo_registered_def demo_stakes_def)
qed




text \<open>
  (C39) A slash that cannot be paid out. Where the destination of slashes does not exist as an account, the repatriation of
  the stake fails, which the pallet only logs: it announces the slash and forgets the registration, nothing moves, the
  stake stays reserved, and the relayer, no longer registered, has no call of the pallet left to free it.
\<close>

theorem slash_strands_stake:
  assumes "relayers_run c i required lease rewards_account lk p" and "registered_relayers p r = Some reg" and "stake reg \<noteq> 0"
    and "r \<noteq> b" and "account b (rl_base p) = account_data_default"
    and "p' = slash_and_deregister (stake_and_slash_named c i required lease) r b p"
  shows "rl_base p' = rl_base p \<and> stake reg \<le> reserved_balance_named i r (rl_base p') \<and>
    rl_events p' = rl_events p @ [SlashedAndDeregistered r reg] \<and>
    deregister (stake_and_slash_named c i required lease) (Signed r) p' = (Inl (PE NotRegistered), p')"
proof -
  note st = relayers_run_staked [OF assms(1)]
  have sd: "sound c (rl_base p)" and held: "stake reg \<le> reserved_balance_named i r (rl_base p)" using st assms(2) by (auto simp: staked_def)
  have base: "rl_base p' = rl_base p"
    unfolding assms(6) by (rule slash_dead [OF sd assms(2,3) _ assms(4,5)]) (use held assms(3) in linarith)
  have "registered_relayers p' r = None" "rl_events p' = rl_events p @ [SlashedAndDeregistered r reg]"
    using assms(2) by (auto simp: assms(6) slash_and_deregister_def Let_def case_prod_beta rl_event_def put_registration_def)
  then show ?thesis using base held by (simp add: deregister_def em_defs emap_err_def ezoom_def ensure_signed_def)
qed

theorem slash_strands_stake_witness:
  "rl_base (slash_and_deregister demo_stakes 2 8 demo_registered) = rl_base demo_registered \<and>
   registered_relayers demo_registered 2 = Some \<lparr>valid_till = 100, stake = 30\<rparr> \<and>
   30 \<le> reserved_balance_named 3 2 (rl_base (slash_and_deregister demo_stakes 2 8 demo_registered))"
  using slash_strands_stake [OF demo_registered_run demo_registered_sel(1) _ _ demo_registered_sel(6) refl, folded demo_stakes_def]
  by (simp add: demo_registered_sel)

end
