(* ===== verification/Spec2Isabelle.thy ===== *)
theory Spec2Isabelle
  imports Balances_Props Currency_Props Calls_Props Arith_Props Vesting_Props Bridge_Props Relayers_Props
begin

text \<open>
  Verification of the token core of the runtime, of vesting and of the bridges over it, and of the arithmetic under it.

  \<^bold>\<open>The program.\<close> The repository holds a blockchain node and the runtime pallets that execute on it. The part
  verified here is what the other pallets rest on: the account store of \<open>frame_system\<close>
  (\<open>src/substrate/frame/system/src/lib.rs\<close>), the \<open>fungible\<close> traits of \<open>frame_support\<close>
  (\<open>src/substrate/frame/support/src/traits/tokens/fungible/\<close>), the balances pallet that implements them
  (\<open>src/substrate/frame/balances/src/\<close>) and the overflow-free arithmetic of \<open>sp_arithmetic\<close>
  (\<open>src/substrate/primitives/arithmetic/src/\<close>); and two systems on top of it: the vesting pallet
  (\<open>src/substrate/frame/vesting/src/\<close>), which locks balances, and the bridge between two chains, made of the messages
  pallet (\<open>src/bridges/modules/messages/src/\<close>) and the relayers pallet (\<open>src/bridges/modules/relayers/src/\<close>), which pays
  those who carry messages and reserves their stakes. The traits are programs over an interface: a pallet gives
  \<open>write_balance\<close>, \<open>can_withdraw\<close> and a few more, and gets \<open>transfer\<close>, \<open>mint_into\<close>, \<open>hold\<close>, \<open>release\<close> and the rest.
  The balances pallet gives them on top of \<open>try_mutate_account\<close>, which keeps the reference counters of
  \<open>frame_system\<close> in step with the balances.

  \<^bold>\<open>The theories.\<close>
  \<^item> \<open>Prelude\<close>: saturating and checked arithmetic, the state and exception monad in which all fallible code is
    written (an error keeps the state that was reached, \<open>transactional\<close> rolls it back), sums over maps.
  \<^item> \<open>Token_Types\<close>: the enumerations of \<open>tokens/misc.rs\<close>, errors, events, \<open>AccountData\<close>, locks and reserves.
  \<^item> \<open>System_Accounts\<close>: \<open>AccountInfo\<close> and the operations on providers, consumers and sufficients.
  \<^item> \<open>Fungible\<close>, \<open>Fungible_Hold\<close>: the provided methods of the traits over a record of the required ones, and the
    locales \<open>fungible_laws\<close>, \<open>fungible_burning\<close> and \<open>hold_laws\<close> that state what an implementor owes; the facts about
    \<open>transfer\<close>, \<open>mint_into\<close>, \<open>hold\<close> and so on are proved there once.
  \<^item> \<open>Balances_Accounts\<close>: \<open>try_mutate_account\<close> with its reference counting, the invariant of an account.
  \<^item> \<open>Balances_Fungible\<close>, \<open>Balances_Holds\<close>, \<open>Balances_Freezes\<close>: \<open>impl_fungible.rs\<close>; the locales are interpreted on
    these definitions (\<open>bf\<close>, \<open>bh\<close>).
  \<^item> \<open>Balances_Currency\<close>: \<open>impl_currency.rs\<close>, with the imbalances whose drop changes the issuance;
    \<open>Balances_Accounting\<close> and \<open>Balances_Reserves\<close> prove what each operation does to balances and issuance.
  \<^item> \<open>Balances_Calls\<close>: the dispatchables, genesis and \<open>try_state\<close> of \<open>lib.rs\<close>; every call keeps the state sound, and so
    does every sequence of calls (\<open>reachable\<close>).
  \<^item> \<open>Arith_128\<close>: \<open>helpers_128bit.rs\<close> on 128-bit words; \<open>Per_Things\<close>: \<open>per_things.rs\<close> and \<open>MultiplyRational\<close>.
  \<^item> \<open>Vesting\<close>: the vesting pallet over the locale \<open>lockable_laws\<close>, interpreted on the locks of the balances pallet
    (\<open>bv\<close>); runs of both pallets keep every vesting lock as large as what the schedules still lock.
  \<^item> \<open>Bridge_Lanes\<close>: the two ends of a lane (\<open>outbound_lane.rs\<close>, \<open>inbound_lane.rs\<close>) over the locales \<open>outbound_store\<close>
    and \<open>inbound_store\<close>, and the rewards computed from the list of unrewarded relayers; \<open>Bridge_Messages\<close>: the storage
    of the pallet that implements the stores (\<open>ro\<close>, \<open>ri\<close>), \<open>lanes_manager.rs\<close>, \<open>proofs.rs\<close> and the calls of \<open>lib.rs\<close>.
  \<^item> \<open>Bridge_Delivery\<close>: runs of two chains, \<open>bridge_run\<close>, and the invariant that makes a lane a queue;
    \<open>Bridge_Progress\<close>: that calls with proofs of actual states succeed, and the bounds of the lanes.
  \<^item> \<open>Bridge_Relayers\<close>: the relayers pallet, the locales \<open>stake_laws\<close> and \<open>staked_payments\<close> for what keeps stakes and
    pays rewards, interpreted on the balances pallet (\<open>sn\<close>), and runs of both pallets, \<open>relayers_run\<close>.
  \<^item> \<open>Balances_Examples\<close> and \<open>Bridge_Example\<close>: an example chain and an example run of two; \<open>Balances_Props\<close>,
    \<open>Currency_Props\<close>, \<open>Calls_Props\<close>, \<open>Arith_Props\<close>, \<open>Vesting_Props\<close>, \<open>Bridge_Props\<close> and \<open>Relayers_Props\<close>: the properties,
    with their instances.

  \<^bold>\<open>State.\<close> A balance is a natural number with the width written out (\<open>u128_max\<close>); the state is a record that
  extends the account store with the issuance and the lists of locks, reserves, holds and freezes. \<open>sound\<close> says
  that every account is well formed and that the balances do not exceed the issuance; \<open>issuance_gap\<close> is what the
  issuance has that no account holds, and the accounting lemmas say how each operation moves it. A nonce of a
  bridge is a natural number with its 64 bits written out (\<open>u64_max\<close>, \<open>add64\<close> wraps around). A pallet that uses another
  one holds its state as a field and runs its operations there.

  \<^bold>\<open>Runs of a bridge.\<close> A state of \<open>bridge_run\<close> has two chains, their past states and what each was asked to send.
  A step is a call of one chain; a call that comes with a proof may show any state of the other chain's past
  (\<open>authentic\<close>: what the finalized headers and the storage proofs of the source guarantee), and nothing is assumed
  about who submits which proof when. The dispatcher of messages has its own state. The properties of runs hold as
  long as no lane has sent \<open>2 ^ 64 - 1\<close> messages (\<open>short\<close>). Purging a lane and removing single messages, which no
  call of the pallet does, are modelled and are no steps of a run.

  \<^bold>\<open>Loops.\<close> All functions terminate; the loops of the arithmetic have measures (the number divided, the bit
  shifted, the exponent), so that no fuel is needed.

  \<^bold>\<open>Not modelled.\<close> Weights, storage versions and migrations, benchmarks, runtime interfaces and metadata; the
  handler of dust is a parameter of the configuration, address lookup and key derivation are parameters of the
  calls. In the bridges, encodings and tries are parameters: a proof is what its checker reads from it. The light
  clients of the bridges, the transaction extensions for relayers, the other pallets, the node, parachains and XCM are
  not modelled.
\<close>

end
